(* ===== verification/Prelude.thy ===== *)
theory Prelude
  imports Main "HOL-Library.Word"
begin

text \<open>
  What the components share: the machine integers of the code, the panics of the Rust
  runtime as values of a sum type, the slice and iterator operations the code uses, and
  the generic lemmas about them.

  A Rust operation that can panic returns \<open>panic + 'a\<close>: \<open>Inl\<close> is the panic (the task of the
  node dies), \<open>Inr\<close> the result. Integer addition and \<open>debug_assert!\<close> depend on the build
  profile: a \<open>Debug\<close> build panics on overflow and checks assertions, a \<open>Release\<close> build wraps
  around and skips them. Every operation that adds carries the profile as a parameter.
\<close>

named_theorems panic_simps \<open>how the panicking operations compose\<close>
named_theorems handler_defs \<open>the definitions of the handlers of the Raft core\<close>

section \<open>Machine integers and panics\<close>

type_synonym u64 = "64 word"

datatype profile = Debug | Release

datatype panic = AddOverflow | IndexOutOfBounds | AssertFailed | EmptyRange

definition and_then :: "panic + 'a \<Rightarrow> ('a \<Rightarrow> panic + 'b) \<Rightarrow> panic + 'b" where
  "and_then x f = (case x of Inl e \<Rightarrow> Inl e | Inr a \<Rightarrow> f a)"

definition add_u64 :: "profile \<Rightarrow> u64 \<Rightarrow> u64 \<Rightarrow> panic + u64" where
  "add_u64 p a b =
     (if p = Debug \<and> 2 ^ 64 \<le> unat a + unat b then Inl AddOverflow else Inr (a + b))"

definition saturating_sub :: "u64 \<Rightarrow> u64 \<Rightarrow> u64" where
  "saturating_sub a b = (if a < b then 0 else a - b)"

definition debug_assert :: "profile \<Rightarrow> bool \<Rightarrow> panic + unit" where
  "debug_assert p b = (if p = Debug \<and> \<not> b then Inl AssertFailed else Inr ())"

text \<open>Indexing a slice: out of range is a panic in every profile.\<close>

definition get_at :: "'a list \<Rightarrow> nat \<Rightarrow> panic + 'a" where
  "get_at xs i = (if i < length xs then Inr (xs ! i) else Inl IndexOutOfBounds)"

definition set_at :: "'a list \<Rightarrow> nat \<Rightarrow> 'a \<Rightarrow> panic + 'a list" where
  "set_at xs i x = (if i < length xs then Inr (xs[i := x]) else Inl IndexOutOfBounds)"

text \<open>\<open>Iterator::position\<close>: the offset of the first element that satisfies the test.\<close>

primrec position :: "('a \<Rightarrow> bool) \<Rightarrow> 'a list \<Rightarrow> nat option" where
  "position P [] = None"
| "position P (x # xs) = (if P x then Some 0 else map_option Suc (position P xs))"

text \<open>A loop whose body can panic, collecting the results in order.\<close>

primrec collect :: "('a \<Rightarrow> panic + 'b) \<Rightarrow> 'a list \<Rightarrow> panic + 'b list" where
  "collect f [] = Inr []"
| "collect f (x # xs) =
     and_then (f x) (\<lambda>y. and_then (collect f xs) (\<lambda>ys. Inr (y # ys)))"

section \<open>Lemmas on the panicking operations\<close>

lemma and_then_Inr [simp, panic_simps]: "and_then (Inr a) f = f a"
  by (simp add: and_then_def)

lemma and_then_Inl [simp, panic_simps]: "and_then (Inl e) f = Inl e"
  by (simp add: and_then_def)

lemma and_then_eq_Inr [panic_simps]:
  "and_then x f = Inr y \<longleftrightarrow> (\<exists>a. x = Inr a \<and> f a = Inr y)"
  by (cases x) auto

lemma and_then_eq_Inl [panic_simps]:
  "and_then x f = Inl e \<longleftrightarrow> x = Inl e \<or> (\<exists>a. x = Inr a \<and> f a = Inl e)"
  by (cases x) auto

lemma add_u64_Release [panic_simps]: "add_u64 Release a b = Inr (a + b)"
  by (simp add: add_u64_def)

lemma add_u64_Debug_Inr:
  "add_u64 Debug a b = Inr c \<longleftrightarrow> unat a + unat b < 2 ^ 64 \<and> c = a + b"
  by (auto simp: add_u64_def)

lemma unat_add_no_overflow:
  "unat (a :: u64) + unat b < 2 ^ 64 \<Longrightarrow> unat (a + b) = unat a + unat b"
  by (simp add: unat_word_ariths)

lemma numeral_le_one [simp]: "(numeral n :: u64) \<le> 1 \<longleftrightarrow> unat (numeral n :: u64) \<le> 1"
  by (simp add: word_le_nat_alt)

lemma unat_add_one_less:
  assumes "a < (c :: u64)"
  shows "unat (a + 1) = unat a + 1"
proof -
  have "unat a + unat (1 :: u64) < 2 ^ 64"
    using assms unsigned_less [of c, where ?'a = nat] by (simp add: word_less_nat_alt)
  then show ?thesis by (simp add: unat_add_no_overflow)
qed

lemma add_one_le: "a < (c :: u64) \<Longrightarrow> a + 1 \<le> c"
  by (simp add: word_le_nat_alt word_less_nat_alt unat_add_one_less)

lemma less_add_one: "a < (c :: u64) \<Longrightarrow> a < a + 1"
  by (simp add: word_less_nat_alt unat_add_one_less)

lemma add_u64_Debug_unat:
  "add_u64 Debug a b = Inr c \<Longrightarrow> unat c = unat a + unat b"
  by (auto simp: add_u64_Debug_Inr unat_add_no_overflow)

lemma add_u64_Debug_less:
  "add_u64 Debug a 1 = Inr c \<Longrightarrow> a < c"
  by (auto dest: add_u64_Debug_unat simp: word_less_nat_alt)

text \<open>
  A computation that does not panic in a debug build computes the same in a release
  build. The relation below is kept by sequencing, so it carries over to every handler.
\<close>

definition refines :: "panic + 'a \<Rightarrow> panic + 'a \<Rightarrow> bool" where
  "refines x y \<longleftrightarrow> (case x of Inl _ \<Rightarrow> True | Inr a \<Rightarrow> y = Inr a)"

lemma refines_refl [simp, intro]: "refines x x"
  by (simp add: refines_def split: sum.split)

lemma refines_Inl [simp]: "refines (Inl e) y"
  by (simp add: refines_def)

lemma refines_Inr [simp]: "refines (Inr a) y \<longleftrightarrow> y = Inr a"
  by (auto simp: refines_def)

lemma refines_and_then [intro]:
  "refines x y \<Longrightarrow> (\<And>a. refines (f a) (g a)) \<Longrightarrow> refines (and_then x f) (and_then y g)"
  by (cases x) auto

lemma refines_add_u64 [intro, simp]: "refines (add_u64 Debug a b) (add_u64 Release a b)"
  by (simp add: add_u64_def)

lemma refines_debug_assert [intro, simp]: "refines (debug_assert Debug b) (debug_assert Release b)"
  by (simp add: debug_assert_def)

section \<open>Lemmas on the loops and searches\<close>

lemma position_None_iff: "position P xs = None \<longleftrightarrow> (\<forall>x \<in> set xs. \<not> P x)"
  by (induction xs) auto

lemma position_Some_iff:
  "position P xs = Some i \<longleftrightarrow> i < length xs \<and> P (xs ! i) \<and> (\<forall>j < i. \<not> P (xs ! j))"
proof (induction xs arbitrary: i)
  case Nil
  then show ?case by simp
next
  case (Cons x xs)
  show ?case
  proof (cases i)
    case 0
    then show ?thesis by (cases "P x") (auto split: option.splits)
  next
    case (Suc k)
    then show ?thesis using Cons.IH [of k] by (auto simp: less_Suc_eq_0_disj)
  qed
qed

lemma position_SomeD:
  "position P xs = Some i \<Longrightarrow> i < length xs \<and> P (xs ! i)"
  by (simp add: position_Some_iff)

lemma find_SomeD: "List.find P xs = Some x \<Longrightarrow> x \<in> set xs \<and> P x"
  by (auto simp: find_Some_iff)

lemma collect_Inr_iff:
  "collect f xs = Inr ys \<longleftrightarrow> list_all2 (\<lambda>x y. f x = Inr y) xs ys"
  by (induction xs arbitrary: ys) (auto simp: and_then_eq_Inr list_all2_Cons1)

lemma collect_map: "(\<And>x. x \<in> set xs \<Longrightarrow> f x = Inr (g x)) \<Longrightarrow> collect f xs = Inr (map g xs)"
  by (induction xs) auto

lemma collect_Inl_ex: "collect f xs = Inl e \<Longrightarrow> \<exists>x \<in> set xs. f x = Inl e"
  by (induction xs) (auto simp: and_then_eq_Inl)

end
