(* ===== verification/Protocol.thy ===== *)
theory Protocol
  imports Prelude
begin

text \<open>
  The vocabulary of the Raft core, \<open>raft-core/src/protocol\<close>: commands, log entries, the four
  messages, the events that drive a node and the actions a node asks its runtime to carry
  out. Struct fields keep the source's names with a prefix where two structs share one
  (\<open>rv_\<close> RequestVote, \<open>rvr_\<close> its response, \<open>ae_\<close> AppendEntries, \<open>aer_\<close> its response).
\<close>

section \<open>protocol/types.rs\<close>

type_synonym NodeId = u64
type_synonym Term = u64
type_synonym LogIndex = u64

section \<open>protocol/command.rs\<close>

datatype Op = Set (op_key: string) (op_value: string) | Delete (op_key: string)

record Command =
  op :: Op

definition command_set :: "string \<Rightarrow> string \<Rightarrow> Command" where
  "command_set k v = \<lparr>op = Set k v\<rparr>"

definition command_delete :: "string \<Rightarrow> Command" where
  "command_delete k = \<lparr>op = Delete k\<rparr>"

definition command_default :: Command where
  "command_default = command_set ''key'' ''value''"

section \<open>protocol/log.rs\<close>

record LogEntry =
  entry_term :: Term
  index :: LogIndex
  command :: Command

section \<open>protocol/message.rs\<close>

record RequestVote =
  rv_term :: Term
  candidate_id :: NodeId
  rv_last_log_index :: LogIndex
  rv_last_log_term :: Term

record RequestVoteResponse =
  rvr_term :: Term
  vote_granted :: bool
  vote_from :: NodeId

record AppendEntries =
  ae_term :: Term
  leader_id :: NodeId
  prev_log_index :: LogIndex
  prev_log_term :: Term
  entries :: "LogEntry list"
  leader_commit :: LogIndex

record AppendEntriesResponse =
  aer_term :: Term
  success :: bool
  aer_from :: NodeId
  aer_match_index :: LogIndex

datatype Message =
    MRequestVote RequestVote
  | MRequestVoteResponse RequestVoteResponse
  | MAppendEntries AppendEntries
  | MAppendEntriesResponse AppendEntriesResponse

section \<open>protocol/event.rs and protocol/action.rs\<close>

datatype Event =
    EvMessage Message
  | ElectionTimeout
  | HeartbeatTimeout
  | ClientRequest Command

datatype Action =
    Send NodeId Message
  | ResetElectionTimer
  | ResetHeartbeatTimer
  | PersistState
  | NotLeader "NodeId option"
  | ApplyCommand Command

text \<open>What a list of actions sends, and which commands it applies, in order.\<close>

fun sends :: "Action list \<Rightarrow> (NodeId \<times> Message) list" where
  "sends [] = []"
| "sends (Send to m # as) = (to, m) # sends as"
| "sends (_ # as) = sends as"

fun applied_commands :: "Action list \<Rightarrow> Command list" where
  "applied_commands [] = []"
| "applied_commands (ApplyCommand c # as) = c # applied_commands as"
| "applied_commands (_ # as) = applied_commands as"

lemma sends_append [simp]: "sends (as @ bs) = sends as @ sends bs"
  by (induction as rule: sends.induct) auto

lemma applied_commands_append [simp]:
  "applied_commands (as @ bs) = applied_commands as @ applied_commands bs"
  by (induction as rule: applied_commands.induct) auto

lemma set_sends: "set (sends as) = {(to, m). Send to m \<in> set as}"
  by (induction as rule: sends.induct) auto

lemma in_sends_iff [simp]: "(to, m) \<in> set (sends as) \<longleftrightarrow> Send to m \<in> set as"
  by (simp add: set_sends)

lemma sends_map_Send [simp]: "sends (map (\<lambda>x. Send (f x) (g x)) xs) = map (\<lambda>x. (f x, g x)) xs"
  by (induction xs) auto

lemma sends_map_ApplyCommand [simp]: "sends (map ApplyCommand cs) = []"
  by (induction cs) auto

lemma applied_commands_map_ApplyCommand [simp]: "applied_commands (map ApplyCommand cs) = cs"
  by (induction cs) auto

end
