(* ===== verification/RaftState.thy ===== *)
theory RaftState
  imports Protocol
begin

text \<open>
  The state of one Raft node and its basic queries, \<open>raft-core/src/lib.rs\<close>. The structs
  are records with the source's fields; \<open>HashSet<NodeId>\<close> is a set (node ids are 64-bit, so
  every such set is finite), \<open>Vec\<close> a list, \<open>usize\<close> lengths are \<open>nat\<close>.
\<close>

section \<open>The structs\<close>

datatype Role = Follower | Candidate | Leader

record PersistentState =
  current_term :: Term
  voted_for :: "NodeId option"
  log :: "LogEntry list"

record CandidateState =
  votes_received :: "NodeId set"
  votes_granted :: "NodeId set"

record VolatileState =
  commit_index :: LogIndex
  last_applied :: LogIndex

record LeaderState =
  next_index :: "LogIndex list"
  match_index :: "LogIndex list"

record Raft =
  raft_id :: NodeId
  peers :: "NodeId list"
  role :: Role
  known_leader :: "NodeId option"
  persistent :: PersistentState
  volatile :: VolatileState
  leader_state :: "LeaderState option"
  candidate_state :: "CandidateState option"

section \<open>Construction\<close>

definition persistent_default :: PersistentState where
  "persistent_default = \<lparr>current_term = 0, voted_for = None, log = []\<rparr>"

definition candidate_default :: CandidateState where
  "candidate_default = \<lparr>votes_received = {}, votes_granted = {}\<rparr>"

definition volatile_default :: VolatileState where
  "volatile_default = \<lparr>commit_index = 0, last_applied = 0\<rparr>"

definition raft_init :: "NodeId \<Rightarrow> NodeId list \<Rightarrow> Raft" where
  "raft_init i ps =
     \<lparr>raft_id = i, peers = ps, role = Follower, known_leader = None,
      persistent = persistent_default, volatile = volatile_default,
      leader_state = None, candidate_state = None\<rparr>"

definition raft_new :: "profile \<Rightarrow> NodeId \<Rightarrow> NodeId list \<Rightarrow> panic + Raft" where
  "raft_new p i ps =
     and_then (debug_assert p (i \<notin> set ps)) (\<lambda>_. Inr (raft_init i ps))"

definition raft_restore ::
    "profile \<Rightarrow> NodeId \<Rightarrow> NodeId list \<Rightarrow> PersistentState \<Rightarrow> panic + Raft" where
  "raft_restore p i ps st =
     and_then (raft_new p i ps) (\<lambda>r. Inr (r\<lparr>persistent := st\<rparr>))"

section \<open>Queries\<close>

definition has_majority :: "CandidateState \<Rightarrow> nat \<Rightarrow> bool" where
  "has_majority cs q \<longleftrightarrow> q \<le> card (votes_granted cs)"

text \<open>\<open>usize::div_ceil\<close>: the quotient rounded up.\<close>

definition div_ceil :: "nat \<Rightarrow> nat \<Rightarrow> nat" where
  "div_ceil a b = (a + b - 1) div b"

definition quorum :: "Raft \<Rightarrow> nat" where
  "quorum r = div_ceil (length (peers r)) 2 + 1"

definition last_log_index :: "Raft \<Rightarrow> LogIndex" where
  "last_log_index r = (case log (persistent r) of [] \<Rightarrow> 0 | es \<Rightarrow> index (last es))"

definition last_log_term :: "Raft \<Rightarrow> Term" where
  "last_log_term r = (case log (persistent r) of [] \<Rightarrow> 0 | es \<Rightarrow> entry_term (last es))"

section \<open>Abbreviations for the nested fields\<close>

abbreviation cterm :: "Raft \<Rightarrow> Term" where
  "cterm r \<equiv> current_term (persistent r)"

abbreviation vote :: "Raft \<Rightarrow> NodeId option" where
  "vote r \<equiv> voted_for (persistent r)"

abbreviation rlog :: "Raft \<Rightarrow> LogEntry list" where
  "rlog r \<equiv> log (persistent r)"

abbreviation rcommit :: "Raft \<Rightarrow> LogIndex" where
  "rcommit r \<equiv> commit_index (volatile r)"

abbreviation rapplied :: "Raft \<Rightarrow> LogIndex" where
  "rapplied r \<equiv> last_applied (volatile r)"

section \<open>Lemmas\<close>

lemma quorum_majority: "2 * quorum r > length (peers r) + 1"
  by (simp add: quorum_def div_ceil_def)

lemma quorum_floor: "quorum r = (length (peers r) + 1) div 2 + 1"
  by (simp add: quorum_def div_ceil_def)

lemma quorum_attainable: "quorum r \<le> length (peers r) + 1"
  by (simp add: quorum_def div_ceil_def)

lemma raft_new_Inr: "raft_new p i ps = Inr r \<Longrightarrow> r = raft_init i ps"
  by (auto simp: raft_new_def and_then_eq_Inr)

lemma raft_new_ok [simp]: "i \<notin> set ps \<Longrightarrow> raft_new p i ps = Inr (raft_init i ps)"
  by (simp add: raft_new_def debug_assert_def)

lemma raft_restore_ok [simp]:
  "i \<notin> set ps \<Longrightarrow> raft_restore p i ps st = Inr ((raft_init i ps)\<lparr>persistent := st\<rparr>)"
  by (simp add: raft_restore_def)

lemma last_log_index_Nil [simp]: "rlog r = [] \<Longrightarrow> last_log_index r = 0"
  by (simp add: last_log_index_def)

lemma last_log_index_last: "rlog r \<noteq> [] \<Longrightarrow> last_log_index r = index (last (rlog r))"
  by (cases "rlog r") (simp_all add: last_log_index_def)

lemma last_log_term_last: "rlog r \<noteq> [] \<Longrightarrow> last_log_term r = entry_term (last (rlog r))"
  by (cases "rlog r") (simp_all add: last_log_term_def)

lemma last_log_index_cong: "rlog r = rlog r' \<Longrightarrow> last_log_index r = last_log_index r'"
  by (simp add: last_log_index_def)

end
