(* ===== verification/Vote.thy ===== *)
theory Vote
  imports RaftState
begin

text \<open>
  Elections from the voter's and the candidate's side, \<open>raft-core/src/raft/vote.rs\<close>: a handler
  takes the node's state and the message and returns the new state and the actions, in the
  order the code pushes them.
\<close>

section \<open>Helpers\<close>

definition step_down :: "Raft \<Rightarrow> Term \<Rightarrow> Raft" where
  "step_down r new_term =
     r\<lparr>persistent := (persistent r)\<lparr>current_term := new_term, voted_for := None\<rparr>,
       role := Follower,
       candidate_state := None,
       leader_state := None,
       known_leader := None\<rparr>"

definition candidate_log_up_to_date :: "Raft \<Rightarrow> RequestVote \<Rightarrow> bool" where
  "candidate_log_up_to_date r msg \<longleftrightarrow>
     rv_last_log_term msg > last_log_term r \<or>
     (rv_last_log_term msg = last_log_term r \<and> rv_last_log_index msg \<ge> last_log_index r)"

definition vote_response :: "Raft \<Rightarrow> NodeId \<Rightarrow> bool \<Rightarrow> Action" where
  "vote_response r cand granted =
     Send cand (MRequestVoteResponse
       \<lparr>rvr_term = cterm r, vote_granted = granted, vote_from = raft_id r\<rparr>)"

definition become_leader :: "profile \<Rightarrow> Raft \<Rightarrow> panic + Raft" where
  "become_leader p r =
     and_then (debug_assert p (role r = Candidate)) (\<lambda>_.
     and_then (add_u64 p (last_log_index r) 1) (\<lambda>next.
     Inr (r\<lparr>role := Leader,
            known_leader := Some (raft_id r),
            candidate_state := None,
            leader_state := Some
              \<lparr>next_index = replicate (length (peers r)) next,
               match_index = replicate (length (peers r)) 0\<rparr>\<rparr>)))"

section \<open>Handlers\<close>

definition handle_request_vote :: "Raft \<Rightarrow> RequestVote \<Rightarrow> Raft \<times> Action list" where
  "handle_request_vote r0 msg =
     (let r = (if rv_term msg > cterm r0 then step_down r0 (rv_term msg) else r0) in
      if rv_term msg < cterm r then (r, [vote_response r (candidate_id msg) False])
      else if (case vote r of Some v \<Rightarrow> v \<noteq> candidate_id msg | None \<Rightarrow> False)
        then (r, [vote_response r (candidate_id msg) False])
      else if \<not> candidate_log_up_to_date r msg
        then (r, [vote_response r (candidate_id msg) False])
      else
        (let r' = r\<lparr>persistent := (persistent r)\<lparr>voted_for := Some (candidate_id msg)\<rparr>\<rparr> in
         (r', [PersistState, ResetElectionTimer, vote_response r' (candidate_id msg) True])))"

definition handle_vote_response ::
    "profile \<Rightarrow> Raft \<Rightarrow> RequestVoteResponse \<Rightarrow> panic + Raft \<times> Action list" where
  "handle_vote_response p r msg =
     (if rvr_term msg > cterm r then Inr (step_down r (rvr_term msg), [])
      else if rvr_term msg < cterm r then Inr (r, [])
      else if role r \<noteq> Candidate then Inr (r, [])
      else if vote_from msg \<notin> set (peers r) then Inr (r, [])
      else
        (let state = (case candidate_state r of Some cs \<Rightarrow> cs | None \<Rightarrow> candidate_default) in
         if vote_from msg \<in> votes_received state
           then Inr (r\<lparr>candidate_state := Some state\<rparr>, [])
         else
           (let state1 = state\<lparr>votes_received := insert (vote_from msg) (votes_received state)\<rparr>;
                state2 = (if vote_granted msg
                  then state1\<lparr>votes_granted := insert (vote_from msg) (votes_granted state1)\<rparr>
                  else state1);
                r' = r\<lparr>candidate_state := Some state2\<rparr> in
            if \<not> has_majority state2 (quorum r) then Inr (r', [])
            else and_then (become_leader p r') (\<lambda>r''. Inr (r'', [ResetHeartbeatTimer])))))"

lemmas [handler_defs] =
  handle_request_vote_def handle_vote_response_def become_leader_def

section \<open>Frame lemmas\<close>

lemma step_down_simps [simp]:
  "raft_id (step_down r t) = raft_id r"
  "peers (step_down r t) = peers r"
  "role (step_down r t) = Follower"
  "known_leader (step_down r t) = None"
  "cterm (step_down r t) = t"
  "vote (step_down r t) = None"
  "rlog (step_down r t) = rlog r"
  "volatile (step_down r t) = volatile r"
  "leader_state (step_down r t) = None"
  "candidate_state (step_down r t) = None"
  "last_log_index (step_down r t) = last_log_index r"
  "last_log_term (step_down r t) = last_log_term r"
  by (simp_all add: step_down_def last_log_index_def last_log_term_def)

lemma become_leader_frame:
  "become_leader p r = Inr r' \<Longrightarrow>
     raft_id r' = raft_id r \<and> peers r' = peers r \<and> role r' = Leader \<and>
     persistent r' = persistent r \<and> volatile r' = volatile r \<and>
     candidate_state r' = None \<and> known_leader r' = Some (raft_id r) \<and>
     (\<exists>n. add_u64 p (last_log_index r) 1 = Inr n \<and>
        leader_state r' = Some
          \<lparr>next_index = replicate (length (peers r)) n,
           match_index = replicate (length (peers r)) 0\<rparr>)"
  by (auto simp: become_leader_def and_then_eq_Inr)

lemma refines_become_leader [intro]: "refines (become_leader Debug r) (become_leader Release r)"
  by (auto simp: become_leader_def)

lemma refines_handle_vote_response [intro]:
  "refines (handle_vote_response Debug r m) (handle_vote_response Release r m)"
  by (auto simp: handle_vote_response_def Let_def)

section \<open>The voter\<close>

text \<open>
  What the answer of \<open>handle_request_vote\<close> says: exactly when the vote is granted, and that
  a granted vote is recorded in the state that the preceding \<open>PersistState\<close> writes.
\<close>

definition grants :: "Raft \<Rightarrow> RequestVote \<Rightarrow> bool" where
  "grants r msg \<longleftrightarrow>
     cterm r \<le> rv_term msg \<and>
     (cterm r = rv_term msg \<longrightarrow> vote r = None \<or> vote r = Some (candidate_id msg)) \<and>
     candidate_log_up_to_date r msg"

lemma candidate_log_step_down [simp]:
  "candidate_log_up_to_date (step_down r t) msg = candidate_log_up_to_date r msg"
  by (simp add: candidate_log_up_to_date_def)

lemma handle_request_vote_grant:
  assumes "grants r msg"
  shows "\<exists>r'. handle_request_vote r msg =
      (r', [PersistState, ResetElectionTimer, vote_response r' (candidate_id msg) True]) \<and>
    cterm r' = rv_term msg \<and> vote r' = Some (candidate_id msg) \<and> rlog r' = rlog r \<and>
    raft_id r' = raft_id r \<and> peers r' = peers r \<and> volatile r' = volatile r \<and>
    (if rv_term msg > cterm r then role r' = Follower else role r' = role r)"
  using assms
  by (cases "rv_term msg > cterm r")
     (auto simp: handle_request_vote_def grants_def Let_def split: option.split)

lemma handle_request_vote_refuse:
  assumes "\<not> grants r msg"
  shows "handle_request_vote r msg =
    (let r' = (if rv_term msg > cterm r then step_down r (rv_term msg) else r) in
     (r', [vote_response r' (candidate_id msg) False]))"
  using assms
  by (auto simp: handle_request_vote_def grants_def Let_def split: option.splits)

end
