(* ===== verification/Election.thy ===== *)
theory Election
  imports Vote
begin

text \<open>
  The election timeout, \<open>raft-core/src/raft/election.rs\<close>.
\<close>

definition create_vote_action :: "Raft \<Rightarrow> NodeId \<Rightarrow> Action" where
  "create_vote_action r peer_id =
     Send peer_id (MRequestVote
       \<lparr>rv_term = cterm r, candidate_id = raft_id r,
        rv_last_log_index = last_log_index r, rv_last_log_term = last_log_term r\<rparr>)"

definition handle_election_timeout :: "profile \<Rightarrow> Raft \<Rightarrow> panic + Raft \<times> Action list" where
  "handle_election_timeout p r =
     (if role r = Leader then Inr (r, [])
      else and_then (add_u64 p (cterm r) 1) (\<lambda>t.
        (let r' = r\<lparr>role := Candidate,
                    persistent := (persistent r)\<lparr>current_term := t, voted_for := Some (raft_id r)\<rparr>,
                    leader_state := None,
                    candidate_state := Some
                      (candidate_default
                        \<lparr>votes_received := insert (raft_id r) {},
                         votes_granted := insert (raft_id r) {}\<rparr>)\<rparr> in
         if peers r = []
           then and_then (become_leader p r')
                  (\<lambda>r''. Inr (r'', [ResetHeartbeatTimer, PersistState]))
         else Inr (r', [ResetElectionTimer, PersistState] @ map (create_vote_action r') (peers r')))))"

lemmas [handler_defs] = handle_election_timeout_def

lemma refines_handle_election_timeout [intro]:
  "refines (handle_election_timeout Debug r) (handle_election_timeout Release r)"
  unfolding handle_election_timeout_def Let_def
  by (auto intro!: refines_and_then)

text \<open>A node that is not the leader starts a campaign one term up.\<close>

lemma election_timeout_candidate:
  assumes "role r \<noteq> Leader" "peers r \<noteq> []"
    and "handle_election_timeout p r = Inr (r', as)"
  shows "role r' = Candidate" "add_u64 p (cterm r) 1 = Inr (cterm r')"
    "vote r' = Some (raft_id r)" "rlog r' = rlog r" "volatile r' = volatile r"
    "raft_id r' = raft_id r" "peers r' = peers r" "leader_state r' = None"
    "candidate_state r' =
       Some \<lparr>votes_received = {raft_id r}, votes_granted = {raft_id r}\<rparr>"
    "as = [ResetElectionTimer, PersistState] @ map (create_vote_action r') (peers r)"
  using assms
  by (auto simp: handle_election_timeout_def and_then_eq_Inr candidate_default_def Let_def)

end
