(* ===== verification/Heartbeat.thy ===== *)
theory Heartbeat
  imports Vote
begin

text \<open>
  The heartbeat timeout of a leader, \<open>raft-core/src/raft/heartbeat.rs\<close>: one \<open>AppendEntries\<close> per
  peer, built from that peer's \<open>next_index\<close>. Indexing \<open>next_index\<close> by the peer's position
  panics when the two vectors disagree in length.
\<close>

definition prev_log_info :: "Raft \<Rightarrow> LogIndex \<Rightarrow> LogIndex \<times> Term" where
  "prev_log_info r next =
     (if next \<le> 1 then (0, 0)
      else
        (let prev_index = next - 1;
             prev_term = (case List.find (\<lambda>e. index e = prev_index) (rlog r) of
                 None \<Rightarrow> 0 | Some e \<Rightarrow> entry_term e) in
         (prev_index, prev_term)))"

definition append_entries_for_peer :: "Raft \<Rightarrow> nat \<Rightarrow> panic + Action" where
  "append_entries_for_peer r peer_index =
     and_then (get_at (peers r) peer_index) (\<lambda>peer_id.
     and_then (case leader_state r of
         None \<Rightarrow> Inr 1
       | Some ls \<Rightarrow> get_at (next_index ls) peer_index) (\<lambda>next.
       (let (prev_index, prev_term) = prev_log_info r next;
            es = filter (\<lambda>e. next \<le> index e) (rlog r) in
        Inr (Send peer_id (MAppendEntries
          \<lparr>ae_term = cterm r, leader_id = raft_id r, prev_log_index = prev_index,
           prev_log_term = prev_term, entries = es, leader_commit = rcommit r\<rparr>)))))"

definition handle_heartbeat_timeout :: "Raft \<Rightarrow> panic + Raft \<times> Action list" where
  "handle_heartbeat_timeout r =
     (if role r \<noteq> Leader then Inr (r, [])
      else and_then (collect (append_entries_for_peer r) [0..<length (peers r)])
             (\<lambda>as. Inr (r, ResetHeartbeatTimer # as)))"

lemmas [handler_defs] = handle_heartbeat_timeout_def

text \<open>The message for one peer, when its \<open>next_index\<close> is \<open>n\<close>.\<close>

definition peer_append_entries :: "Raft \<Rightarrow> LogIndex \<Rightarrow> AppendEntries" where
  "peer_append_entries r n =
     \<lparr>ae_term = cterm r, leader_id = raft_id r,
      prev_log_index = fst (prev_log_info r n), prev_log_term = snd (prev_log_info r n),
      entries = filter (\<lambda>e. n \<le> index e) (rlog r), leader_commit = rcommit r\<rparr>"

lemma append_entries_for_peer_InrD:
  assumes "append_entries_for_peer r i = Inr a"
  shows "i < length (peers r) \<and>
    (\<exists>n. a = Send (peers r ! i) (MAppendEntries (peer_append_entries r n)) \<and>
      (case leader_state r of None \<Rightarrow> n = 1
       | Some ls \<Rightarrow> i < length (next_index ls) \<and> n = next_index ls ! i))"
  using assms
  by (auto simp: append_entries_for_peer_def peer_append_entries_def and_then_eq_Inr get_at_def
      case_prod_beta split: if_splits option.splits)

lemma append_entries_for_peer_ok:
  assumes "i < length (peers r)" "leader_state r = Some ls"
    "length (next_index ls) = length (peers r)"
  shows "append_entries_for_peer r i =
    Inr (Send (peers r ! i) (MAppendEntries (peer_append_entries r (next_index ls ! i))))"
  using assms
  by (simp add: append_entries_for_peer_def peer_append_entries_def get_at_def split: prod.split)

lemma heartbeat_actions:
  assumes "handle_heartbeat_timeout r = Inr (r', as)"
  shows "r' = r" and "role r \<noteq> Leader \<Longrightarrow> as = []"
    and "role r = Leader \<Longrightarrow> \<exists>bs. as = ResetHeartbeatTimer # bs \<and>
      list_all2 (\<lambda>i a. append_entries_for_peer r i = Inr a) [0..<length (peers r)] bs"
  using assms
  by (auto simp: handle_heartbeat_timeout_def and_then_eq_Inr collect_Inr_iff split: if_splits)

lemma heartbeat_action_cases:
  assumes "handle_heartbeat_timeout r = Inr (r', as)" and "a \<in> set as"
  shows "role r = Leader \<and> (a = ResetHeartbeatTimer \<or>
    (\<exists>i n. i < length (peers r) \<and>
       a = Send (peers r ! i) (MAppendEntries (peer_append_entries r n)) \<and>
       (case leader_state r of None \<Rightarrow> n = 1
        | Some ls \<Rightarrow> i < length (next_index ls) \<and> n = next_index ls ! i)))"
proof -
  from assms have leader: "role r = Leader"
    using heartbeat_actions(2) [OF assms(1)] by fastforce
  then obtain bs where bs: "as = ResetHeartbeatTimer # bs"
    "list_all2 (\<lambda>i a. append_entries_for_peer r i = Inr a) [0..<length (peers r)] bs"
    using heartbeat_actions(3) [OF assms(1)] by blast
  show ?thesis
  proof (cases "a = ResetHeartbeatTimer")
    case True
    with leader show ?thesis by simp
  next
    case False
    with assms(2) bs(1) have "a \<in> set bs" by simp
    with bs(2) obtain i where "append_entries_for_peer r i = Inr a"
      by (auto simp: list_all2_conv_all_nth in_set_conv_nth)
    with leader show ?thesis by (auto dest!: append_entries_for_peer_InrD)
  qed
qed

end
