(* ===== verification/AppendEntriesRpc.thy ===== *)
theory AppendEntriesRpc
  imports Vote
begin

text \<open>
  Log replication, \<open>raft-core/src/raft/append_entries.rs\<close>: the receiver of \<open>AppendEntries\<close>,
  the leader's handling of the reply, the search for a new commit index and the loop that
  turns committed entries into \<open>ApplyCommand\<close> actions.
\<close>

section \<open>Helpers\<close>

definition log_matches :: "Raft \<Rightarrow> LogIndex \<Rightarrow> Term \<Rightarrow> bool" where
  "log_matches r i t \<longleftrightarrow>
     (if i = 0 then True
      else list_ex (\<lambda>e. index e = i \<and> entry_term e = t) (rlog r))"

definition append_entries_response :: "Raft \<Rightarrow> NodeId \<Rightarrow> bool \<Rightarrow> Action" where
  "append_entries_response r leader ok =
     Send leader (MAppendEntriesResponse
       \<lparr>aer_term = cterm r, success = ok, aer_from = raft_id r,
        aer_match_index = (if ok then last_log_index r else 0)\<rparr>)"

text \<open>
  The \<open>while last_applied < commit_index\<close> loop. The guard keeps the increment below
  \<open>commit_index\<close>, so it cannot overflow.
\<close>

function apply_loop ::
    "LogEntry list \<Rightarrow> LogIndex \<Rightarrow> LogIndex \<Rightarrow> LogIndex \<times> Action list" where
  "apply_loop es commit applied =
     (if applied < commit then
        (let target = applied + 1;
             now = (case List.find (\<lambda>e. index e = target) es of
                 Some entry \<Rightarrow> [ApplyCommand (command entry)] | None \<Rightarrow> []);
             (final, rest) = apply_loop es commit target in
         (final, now @ rest))
      else (applied, []))"
  by pat_completeness auto
termination
proof (relation "measure (\<lambda>(es, commit, applied). unat commit - unat applied)")
  fix es :: "LogEntry list" and commit applied target :: u64
  assume "applied < commit" and "target = applied + 1"
  then show "((es, commit, target), (es, commit, applied))
      \<in> measure (\<lambda>(es, commit, applied). unat commit - unat applied)"
    using unat_add_one_less [of applied commit] by (simp add: word_less_nat_alt)
qed simp

declare apply_loop.simps [simp del]

lemma apply_loop_done: "\<not> applied < commit \<Longrightarrow> apply_loop es commit applied = (applied, [])"
  by (simp add: apply_loop.simps)

lemma apply_loop_step:
  "applied < commit \<Longrightarrow> apply_loop es commit applied =
     (fst (apply_loop es commit (applied + 1)),
      (case List.find (\<lambda>e. index e = applied + 1) es of
         Some entry \<Rightarrow> [ApplyCommand (command entry)] | None \<Rightarrow> []) @
      snd (apply_loop es commit (applied + 1)))"
  by (subst apply_loop.simps) (simp add: Let_def case_prod_beta)

lemma apply_loop_induct [case_names more stop]:
  assumes "\<And>applied. applied < commit \<Longrightarrow> P (applied + 1) \<Longrightarrow> P applied"
    and "\<And>applied. \<not> applied < commit \<Longrightarrow> P applied"
  shows "P (applied :: LogIndex)"
proof (induction "unat commit - unat applied" arbitrary: applied rule: less_induct)
  case less
  show ?case
  proof (cases "applied < commit")
    case True
    have "unat commit - unat (applied + 1) < unat commit - unat applied"
      using True unat_add_one_less [OF True] by (simp add: word_less_nat_alt)
    with less assms(1) [OF True] show ?thesis by blast
  next
    case False
    with assms(2) show ?thesis by blast
  qed
qed

definition apply_committed_entries :: "Raft \<Rightarrow> Raft \<times> Action list" where
  "apply_committed_entries r =
     (let (applied, as) = apply_loop (rlog r) (rcommit r) (rapplied r) in
      (r\<lparr>volatile := (volatile r)\<lparr>last_applied := applied\<rparr>\<rparr>, as))"

text \<open>The reconciliation loop: \<open>truncate\<close> is \<open>take\<close>, \<open>entries[i..]\<close> the rest of the list.\<close>

fun reconcile :: "LogEntry list \<Rightarrow> LogEntry list \<Rightarrow> LogEntry list" where
  "reconcile es [] = es"
| "reconcile es (new # rest) =
     (case position (\<lambda>e. index e = index new) es of
        Some pos \<Rightarrow>
          if entry_term (es ! pos) \<noteq> entry_term new then take pos es @ new # rest
          else reconcile es rest
      | None \<Rightarrow> es @ new # rest)"

section \<open>The receiver\<close>

definition handle_append_entries :: "Raft \<Rightarrow> AppendEntries \<Rightarrow> Raft \<times> Action list" where
  "handle_append_entries r0 msg =
     (let r1 = (if ae_term msg > cterm r0 then step_down r0 (ae_term msg) else r0) in
      if ae_term msg < cterm r1
        then (r1, [append_entries_response r1 (leader_id msg) False])
      else
        (let r2 = (if role r1 = Candidate
               then r1\<lparr>role := Follower, candidate_state := None\<rparr> else r1) in
         if \<not> log_matches r2 (prev_log_index msg) (prev_log_term msg)
           then (r2, [append_entries_response r2 (leader_id msg) False])
         else
           (let r3 = r2\<lparr>known_leader := Some (leader_id msg),
                       persistent := (persistent r2)\<lparr>log := reconcile (rlog r2) (entries msg)\<rparr>\<rparr>;
                last_new_index = (case entries msg of [] \<Rightarrow> prev_log_index msg
                  | es \<Rightarrow> index (last es));
                r4 = (if leader_commit msg > rcommit r3
                  then r3\<lparr>volatile := (volatile r3)
                         \<lparr>commit_index := min (leader_commit msg) last_new_index\<rparr>\<rparr>
                  else r3);
                (r5, apply_actions) = apply_committed_entries r4 in
            (r5, [PersistState, ResetElectionTimer, append_entries_response r5 (leader_id msg) True]
                 @ apply_actions))))"

section \<open>The leader\<close>

text \<open>
  The scan for the highest committable index, over the log in reverse: stop at the first
  entry that is already committed, skip entries of other terms.
\<close>

fun scan_commit ::
    "LogIndex \<Rightarrow> Term \<Rightarrow> LogIndex list \<Rightarrow> nat \<Rightarrow> LogEntry list \<Rightarrow> LogIndex" where
  "scan_commit commit t matches q [] = commit"
| "scan_commit commit t matches q (e # es) =
     (if index e \<le> commit then commit
      else if entry_term e \<noteq> t then scan_commit commit t matches q es
      else if q \<le> 1 + length (filter (\<lambda>m. index e \<le> m) matches) then index e
      else scan_commit commit t matches q es)"

definition try_advance_commit_index :: "Raft \<Rightarrow> Raft \<times> Action list" where
  "try_advance_commit_index r =
     (let peer_matches = (case leader_state r of Some ls \<Rightarrow> match_index ls | None \<Rightarrow> []);
          new_commit = scan_commit (rcommit r) (cterm r) peer_matches (quorum r) (rev (rlog r));
          r' = (if new_commit > rcommit r
            then r\<lparr>volatile := (volatile r)\<lparr>commit_index := new_commit\<rparr>\<rparr> else r) in
      apply_committed_entries r')"

definition handle_append_entries_response ::
    "profile \<Rightarrow> Raft \<Rightarrow> AppendEntriesResponse \<Rightarrow> panic + Raft \<times> Action list" where
  "handle_append_entries_response p r msg =
     (if aer_term msg > cterm r then Inr (step_down r (aer_term msg), [])
      else if aer_term msg < cterm r then Inr (r, [])
      else if role r \<noteq> Leader then Inr (r, [])
      else (case position (\<lambda>i. i = aer_from msg) (peers r) of
        None \<Rightarrow> Inr (r, [])
      | Some peer_index \<Rightarrow>
        (case leader_state r of
          None \<Rightarrow> Inr (r, [])
        | Some ls \<Rightarrow>
          if \<not> success msg then
            and_then (get_at (next_index ls) peer_index) (\<lambda>n.
            and_then (set_at (next_index ls) peer_index (max (saturating_sub n 1) 1)) (\<lambda>ns.
            Inr (r\<lparr>leader_state := Some (ls\<lparr>next_index := ns\<rparr>)\<rparr>, [])))
          else
            and_then (get_at (match_index ls) peer_index) (\<lambda>m.
            and_then
              (if aer_match_index msg > m then
                 and_then (set_at (match_index ls) peer_index (aer_match_index msg)) (\<lambda>ms.
                 and_then (add_u64 p (aer_match_index msg) 1) (\<lambda>n.
                 and_then (set_at (next_index ls) peer_index n) (\<lambda>ns.
                 Inr (ls\<lparr>match_index := ms, next_index := ns\<rparr>))))
               else Inr ls) (\<lambda>ls'.
            Inr (try_advance_commit_index (r\<lparr>leader_state := Some ls'\<rparr>)))))))"

lemmas [handler_defs] =
  handle_append_entries_def handle_append_entries_response_def try_advance_commit_index_def
  apply_committed_entries_def

section \<open>Frame lemmas\<close>

lemma apply_committed_entries_frame:
  "apply_committed_entries r = (r', as) \<Longrightarrow>
     raft_id r' = raft_id r \<and> peers r' = peers r \<and> role r' = role r \<and>
     known_leader r' = known_leader r \<and> persistent r' = persistent r \<and>
     leader_state r' = leader_state r \<and> candidate_state r' = candidate_state r \<and>
     rcommit r' = rcommit r"
  by (auto simp: apply_committed_entries_def split: prod.splits)

lemma try_advance_frame:
  "try_advance_commit_index r = (r', as) \<Longrightarrow>
     raft_id r' = raft_id r \<and> peers r' = peers r \<and> role r' = role r \<and>
     known_leader r' = known_leader r \<and> persistent r' = persistent r \<and>
     leader_state r' = leader_state r \<and> candidate_state r' = candidate_state r"
  by (auto simp: try_advance_commit_index_def Let_def dest!: apply_committed_entries_frame
      split: if_splits)

lemma refines_handle_append_entries_response [intro]:
  "refines (handle_append_entries_response Debug r m) (handle_append_entries_response Release r m)"
  by (auto simp: handle_append_entries_response_def split: option.split intro!: refines_and_then)

end
