(* ===== verification/Client.thy ===== *)
theory Client
  imports AppendEntriesRpc
begin

text \<open>Client commands, \<open>raft-core/src/raft/client.rs\<close>.\<close>

definition handle_client_request ::
    "profile \<Rightarrow> Raft \<Rightarrow> Command \<Rightarrow> panic + Raft \<times> Action list" where
  "handle_client_request p r cmd =
     (if role r \<noteq> Leader then Inr (r, [NotLeader (known_leader r)])
      else and_then (add_u64 p (last_log_index r) 1) (\<lambda>i.
        (let r' = r\<lparr>persistent := (persistent r)
                 \<lparr>log := rlog r @ [\<lparr>entry_term = cterm r, index = i, command = cmd\<rparr>]\<rparr>\<rparr>;
             as = [ResetHeartbeatTimer, PersistState] in
         if peers r' = []
           then (let (r'', more) = try_advance_commit_index r' in Inr (r'', as @ more))
         else Inr (r', as))))"

lemmas [handler_defs] = handle_client_request_def

lemma refines_handle_client_request [intro]:
  "refines (handle_client_request Debug r c) (handle_client_request Release r c)"
  by (auto simp: handle_client_request_def Let_def intro!: refines_and_then)

end
