(* ===== verification/RaftStep.thy ===== *)
theory RaftStep
  imports Election Heartbeat Client
begin

text \<open>The entry point of the Raft core, \<open>raft-core/src/raft/step.rs\<close>.\<close>

definition handle_message :: "profile \<Rightarrow> Raft \<Rightarrow> Message \<Rightarrow> panic + Raft \<times> Action list" where
  "handle_message p r msg =
     (case msg of
        MRequestVote m \<Rightarrow> Inr (handle_request_vote r m)
      | MRequestVoteResponse m \<Rightarrow> handle_vote_response p r m
      | MAppendEntries m \<Rightarrow> Inr (handle_append_entries r m)
      | MAppendEntriesResponse m \<Rightarrow> handle_append_entries_response p r m)"

definition raft_step :: "profile \<Rightarrow> Raft \<Rightarrow> Event \<Rightarrow> panic + Raft \<times> Action list" where
  "raft_step p r event =
     (case event of
        EvMessage msg \<Rightarrow> handle_message p r msg
      | ElectionTimeout \<Rightarrow> handle_election_timeout p r
      | HeartbeatTimeout \<Rightarrow> handle_heartbeat_timeout r
      | ClientRequest cmd \<Rightarrow> handle_client_request p r cmd)"

lemma raft_step_simps [simp]:
  "raft_step p r (EvMessage (MRequestVote rv)) = Inr (handle_request_vote r rv)"
  "raft_step p r (EvMessage (MRequestVoteResponse rvr)) = handle_vote_response p r rvr"
  "raft_step p r (EvMessage (MAppendEntries ae)) = Inr (handle_append_entries r ae)"
  "raft_step p r (EvMessage (MAppendEntriesResponse aer)) = handle_append_entries_response p r aer"
  "raft_step p r ElectionTimeout = handle_election_timeout p r"
  "raft_step p r HeartbeatTimeout = handle_heartbeat_timeout r"
  "raft_step p r (ClientRequest c) = handle_client_request p r c"
  by (simp_all add: raft_step_def handle_message_def)

text \<open>One case per handler, for the invariants.\<close>

lemma raft_event_cases [case_names RV RVR AE AER ElectionT HeartbeatT Client]:
  obtains rv where "ev = EvMessage (MRequestVote rv)"
  | rvr where "ev = EvMessage (MRequestVoteResponse rvr)"
  | ae where "ev = EvMessage (MAppendEntries ae)"
  | aer where "ev = EvMessage (MAppendEntriesResponse aer)"
  | "ev = ElectionTimeout"
  | "ev = HeartbeatTimeout"
  | c where "ev = ClientRequest c"
  by (metis Event.exhaust Message.exhaust)

lemma refines_raft_step: "refines (raft_step Debug r ev) (raft_step Release r ev)"
  by (cases ev rule: raft_event_cases) auto

end
