(* ===== verification/NodeSafety.thy ===== *)
theory NodeSafety
  imports NodeInvariant
begin

text \<open>
  Safety of a single step of the Raft core, whatever the event and its contents: the
  structural invariant, the panics that remain possible, the monotone term, the vote that is
  stable within a term, the rule for granting votes, the rule for becoming leader, and the
  order of \<open>PersistState\<close> and the messages that promise something to another node.
\<close>

section \<open>The invariant and the panics\<close>

lemma no_panic_vote_response:
  assumes "node_wf r" "handle_vote_response p r m = Inl e"
  shows "e = AddOverflow \<and> p = Debug"
  using assms
  by (auto simp: handle_vote_response_def Let_def and_then_eq_Inl become_leader_def
      debug_assert_def add_u64_def split: if_splits)

lemma no_panic_append_entries_response:
  assumes "node_wf r" "handle_append_entries_response p r m = Inl e"
  shows "e = AddOverflow \<and> p = Debug"
proof -
  have "i < length (peers r)" if "position (\<lambda>i. i = aer_from m) (peers r) = Some i" for i
    using position_SomeD [OF that] by simp
  with assms show ?thesis
    by (auto simp: handle_append_entries_response_def and_then_eq_Inl get_at_def set_at_def
        add_u64_def node_wf_defs split: if_splits option.splits)
qed

lemma no_panic_heartbeat: "node_wf r \<Longrightarrow> handle_heartbeat_timeout r \<noteq> Inl e"
proof
  assume wf: "node_wf r" and "handle_heartbeat_timeout r = Inl e"
  then obtain i where lead: "role r = Leader" and i: "i < length (peers r)"
    "append_entries_for_peer r i = Inl e"
    by (auto simp: handle_heartbeat_timeout_def and_then_eq_Inl dest!: collect_Inl_ex
        split: if_splits)
  from wf lead obtain ls where "leader_state r = Some ls" "length (next_index ls) = length (peers r)"
    by (auto simp: node_wf_defs)
  with i append_entries_for_peer_ok [OF i(1)] show False by simp
qed

lemma no_panic_election_timeout:
  assumes "handle_election_timeout p r = Inl e"
  shows "e = AddOverflow \<and> p = Debug"
  using assms
  by (auto simp: handle_election_timeout_def Let_def and_then_eq_Inl become_leader_def
      debug_assert_def add_u64_def split: if_splits)

lemma no_panic_client_request:
  "handle_client_request p r c = Inl e \<Longrightarrow> e = AddOverflow \<and> p = Debug"
  by (auto simp: handle_client_request_def Let_def and_then_eq_Inl add_u64_def case_prod_beta
      split: if_splits)

text \<open>C17: every event, handled by a well-formed node without a panic, leaves a well-formed
  node: leaders and only leaders have a leader state, with one \<open>next_index\<close> and one
  \<open>match_index\<close> per peer; candidates and only candidates have a candidate state, whose votes
  come from the node itself and its peers; candidates and leaders voted for themselves.
  The node keeps its identity.\<close>

theorem raft_step_keeps_node_wf:
  assumes "node_wf r" and "raft_step p r ev = Inr (r', as)"
  shows "node_wf r' \<and> raft_id r' = raft_id r \<and> peers r' = peers r"
  using raft_step_node_wf [OF assms] raft_step_identity [OF assms(2)] by blast

theorem raft_step_keeps_node_wf_witness:
  "node_wf (raft_init 1 [2, 3]) \<and> (\<exists>r' as. raft_step Debug (raft_init 1 [2, 3]) ElectionTimeout = Inr (r', as) \<and>
     node_wf r' \<and> raft_id r' = 1 \<and> peers r' = [2, 3])"
proof -
  have wf: "node_wf (raft_init 1 [2, 3])"
    by (rule node_wf_init) (simp add: peers_ok_def)
  obtain r' as where st: "raft_step Debug (raft_init 1 [2, 3]) ElectionTimeout = Inr (r', as)"
    by (simp add: handle_election_timeout_def raft_init_def persistent_default_def add_u64_def Let_def)
  show ?thesis
    using raft_step_keeps_node_wf [OF wf st] wf st by (auto simp: raft_init_def)
qed

text \<open>C18: on a well-formed node the only panic an event can cause is integer overflow in a
  debug build; no index is out of range and no assertion fails, and a release build never
  panics.\<close>

theorem raft_step_panics_only_on_overflow:
  assumes "node_wf r" and "raft_step p r ev = Inl e"
  shows "e = AddOverflow \<and> p = Debug"
  using assms
  by (cases ev rule: raft_event_cases)
     (auto dest: no_panic_vote_response no_panic_append_entries_response no_panic_election_timeout
        no_panic_client_request simp: no_panic_heartbeat)

theorem raft_step_panics_only_on_overflow_witness:
  "\<exists>r e. node_wf r \<and> raft_step Debug r ElectionTimeout = Inl e \<and> e = AddOverflow"
proof -
  define r where "r = (raft_init 1 [2])
    \<lparr>persistent := persistent_default\<lparr>current_term := 18446744073709551615\<rparr>\<rparr>"
  have wf: "node_wf r" by (simp add: r_def node_wf_defs raft_init_def)
  have st: "raft_step Debug r ElectionTimeout = Inl AddOverflow"
    by (simp add: r_def handle_election_timeout_def raft_init_def add_u64_def)
  show ?thesis using raft_step_panics_only_on_overflow [OF wf st] wf st by blast
qed

text \<open>A step that a debug build completes has the same outcome in a release build, so
  what is proved of debug steps holds of release steps up to the first overflow.\<close>

theorem release_refines_debug:
  assumes "raft_step Debug r ev = Inr x"
  shows "raft_step Release r ev = Inr x"
  using refines_raft_step [of r ev] assms by simp

theorem release_refines_debug_witness:
  "\<exists>x. raft_step Debug (raft_init 1 [2]) ElectionTimeout = Inr x \<and>
     raft_step Release (raft_init 1 [2]) ElectionTimeout = Inr x"
proof -
  obtain x where "raft_step Debug (raft_init 1 [2]) ElectionTimeout = Inr x"
    by (simp add: handle_election_timeout_def raft_init_def persistent_default_def add_u64_def Let_def)
  with release_refines_debug [OF this] show ?thesis by blast
qed

section \<open>Terms and votes\<close>

text \<open>How a step moves the pair of term and vote.\<close>

definition term_vote_le :: "Raft \<Rightarrow> Raft \<Rightarrow> bool" where
  "term_vote_le r r' \<longleftrightarrow> cterm r < cterm r' \<or>
     (cterm r' = cterm r \<and> (vote r = None \<or> vote r' = vote r))"

lemma term_vote_le_refl [simp]: "term_vote_le r r"
  by (simp add: term_vote_le_def)

lemma term_vote_le_trans: "term_vote_le a b \<Longrightarrow> term_vote_le b c \<Longrightarrow> term_vote_le a c"
  by (auto simp: term_vote_le_def)

lemma term_vote_request_vote:
  "handle_request_vote r m = (r', as) \<Longrightarrow> term_vote_le r r'"
  by (auto simp: handle_request_vote_def term_vote_le_def Let_def split: if_splits option.splits)

lemma term_vote_vote_response:
  "handle_vote_response p r m = Inr (r', as) \<Longrightarrow> term_vote_le r r'"
  by (auto simp: handle_vote_response_def term_vote_le_def Let_def and_then_eq_Inr
      dest!: become_leader_frame split: if_splits)

lemma term_vote_append_entries:
  assumes "handle_append_entries r m = (r', as)"
  shows "term_vote_le r r'"
proof (cases "ae_term m" "cterm r" rule: linorder_cases)
  case less
  with append_entries_frame [OF assms] show ?thesis by simp
next
  case equal
  with append_entries_frame [OF assms] show ?thesis by (simp add: term_vote_le_def)
next
  case greater
  with append_entries_frame [OF assms] show ?thesis by (simp add: term_vote_le_def)
qed

lemma term_vote_append_entries_response:
  assumes "handle_append_entries_response p r m = Inr (r', as)"
  shows "term_vote_le r r'"
  using append_entries_response_frame [OF assms]
  by (cases "aer_term m > cterm r") (auto simp: term_vote_le_def)

lemma term_vote_election_timeout:
  "handle_election_timeout Debug r = Inr (r', as) \<Longrightarrow> term_vote_le r r'"
  by (auto simp: handle_election_timeout_def term_vote_le_def Let_def and_then_eq_Inr
      dest!: become_leader_frame add_u64_Debug_less split: if_splits)

lemma term_vote_step: "raft_step Debug r ev = Inr (r', as) \<Longrightarrow> term_vote_le r r'"
proof (cases ev rule: raft_event_cases)
  case (Client c)
  moreover assume "raft_step Debug r ev = Inr (r', as)"
  ultimately show ?thesis using client_request_frame [of Debug r c r' as]
    by (simp add: term_vote_le_def)
qed (auto intro: term_vote_request_vote term_vote_vote_response term_vote_append_entries
    term_vote_append_entries_response term_vote_election_timeout dest: heartbeat_actions(1))

text \<open>C14: no event lowers a node's term, and within one term the node never changes a vote
  it has cast.\<close>

theorem term_monotone_vote_stable:
  assumes "raft_step Debug r ev = Inr (r', as)"
  shows "cterm r \<le> cterm r' \<and> (cterm r' = cterm r \<and> vote r \<noteq> None \<longrightarrow> vote r' = vote r)"
  using term_vote_step [OF assms] by (auto simp: term_vote_le_def)

theorem term_monotone_vote_stable_witness:
  "\<exists>r' as. raft_step Debug (raft_init 1 [2]) ElectionTimeout = Inr (r', as) \<and>
     cterm (raft_init 1 [2]) \<le> cterm r' \<and> cterm r' = 1"
proof -
  obtain r' as where st: "raft_step Debug (raft_init 1 [2]) ElectionTimeout = Inr (r', as)"
      and t: "cterm r' = 1"
    by (simp add: handle_election_timeout_def raft_init_def persistent_default_def add_u64_def Let_def)
  show ?thesis using term_monotone_vote_stable [OF st] st t by blast
qed




text \<open>C11: a node becomes leader only as the sole member of its cluster, or when a vote
  response of its current term brings the granted votes to a majority of the cluster (more
  than half of the node and its peers); it then starts with \<open>match_index\<close> 0 and \<open>next_index\<close> one past its log for every peer.\<close>

theorem leader_needs_majority:
  assumes "node_wf r" "role r \<noteq> Leader" "raft_step p r ev = Inr (r', as)" "role r' = Leader"
  shows "(ev = ElectionTimeout \<and> peers r = [] \<or>
      (\<exists>m cs. ev = EvMessage (MRequestVoteResponse m) \<and> rvr_term m = cterm r \<and>
         role r = Candidate \<and> vote_from m \<in> set (peers r) \<and> candidate_state r = Some cs \<and>
         quorum r \<le> card (if vote_granted m then insert (vote_from m) (votes_granted cs)
                          else votes_granted cs))) \<and>
    length (peers r) + 1 < 2 * quorum r \<and>
    (\<exists>n. add_u64 p (last_log_index r) 1 = Inr n \<and>
       leader_state r' = Some
         \<lparr>next_index = replicate (length (peers r)) n,
          match_index = replicate (length (peers r)) 0\<rparr>)"
proof (cases ev rule: raft_event_cases)
  case (RVR m)
  have cs: "role r = Candidate \<Longrightarrow> \<exists>cs. candidate_state r = Some cs"
    using assms(1) by (auto simp: node_wf_defs)
  show ?thesis using assms(2-4) RVR cs quorum_majority [of r]
    by (auto simp: handle_vote_response_def Let_def and_then_eq_Inr has_majority_def
        last_log_index_def dest!: become_leader_frame split: if_splits)
next
  case ElectionT
  with assms(2-4) quorum_majority [of r] show ?thesis
    by (auto simp: handle_election_timeout_def Let_def and_then_eq_Inr last_log_index_def
        dest!: become_leader_frame split: if_splits)
next
  case (RV m)
  with assms(2-4) show ?thesis
    by (auto simp: handle_request_vote_def Let_def split: if_splits option.splits)
next
  case (AE m)
  with assms(2-4) append_entries_frame [of r m r' as] show ?thesis
    by (cases "ae_term m" "cterm r" rule: linorder_cases) (auto split: if_splits)
next
  case (AER m)
  with assms(2-4) append_entries_response_frame [of p r m r' as] show ?thesis
    by (cases "aer_term m > cterm r") auto
next
  case HeartbeatT
  with assms(2-4) show ?thesis by (auto dest: heartbeat_actions(1))
next
  case (Client c)
  with assms(2-4) show ?thesis by (auto dest: client_request_frame)
qed

text \<open>A candidate of a three-node cluster with one more vote coming in.\<close>

definition sample_candidate :: Raft where
  "sample_candidate = (raft_init 1 [2, 3])
     \<lparr>role := Candidate,
      persistent := \<lparr>current_term = 1, voted_for = Some 1, log = []\<rparr>,
      candidate_state := Some \<lparr>votes_received = {1}, votes_granted = {1}\<rparr>\<rparr>"

definition sample_grant :: RequestVoteResponse where
  "sample_grant = \<lparr>rvr_term = 1, vote_granted = True, vote_from = 2\<rparr>"

lemma sample_candidate_wf: "node_wf sample_candidate"
  by (simp add: sample_candidate_def node_wf_defs raft_init_def)

lemma sample_candidate_wins:
  "\<exists>r' as. raft_step Debug sample_candidate (EvMessage (MRequestVoteResponse sample_grant)) =
     Inr (r', as) \<and> role r' = Leader"
  by (simp add: sample_candidate_def sample_grant_def raft_init_def handle_vote_response_def
      become_leader_def Let_def has_majority_def quorum_def div_ceil_def debug_assert_def
      add_u64_def last_log_index_def)

theorem leader_needs_majority_witness:
  "\<exists>r' as cs. raft_step Debug sample_candidate (EvMessage (MRequestVoteResponse sample_grant)) =
       Inr (r', as) \<and>
     role r' = Leader \<and> candidate_state sample_candidate = Some cs \<and>
     quorum sample_candidate \<le> card (insert 2 (votes_granted cs))"
proof -
  obtain r' as where st: "raft_step Debug sample_candidate
      (EvMessage (MRequestVoteResponse sample_grant)) = Inr (r', as)" and "role r' = Leader"
    using sample_candidate_wins by blast
  moreover have "role sample_candidate \<noteq> Leader" by (simp add: sample_candidate_def)
  ultimately show ?thesis
    using leader_needs_majority [OF sample_candidate_wf _ st]
    by (fastforce simp: sample_grant_def)
qed

section \<open>Promises are persisted before they are sent\<close>

text \<open>
  The messages by which a node commits itself: its candidacy (a vote for itself), a granted
  vote, and the acknowledgement of appended entries. The runtime carries out the actions of a
  step in order and \<open>PersistState\<close> writes the state after the step, so a promise is safe when
  \<open>PersistState\<close> stands before it.
\<close>

fun promise :: "Message \<Rightarrow> bool" where
  "promise (MRequestVote _) = True"
| "promise (MRequestVoteResponse v) = vote_granted v"
| "promise (MAppendEntries _) = False"
| "promise (MAppendEntriesResponse a) = success a"

fun persist_first :: "Action list \<Rightarrow> bool" where
  "persist_first [] = True"
| "persist_first (PersistState # as) = True"
| "persist_first (Send to m # as) = (\<not> promise m \<and> persist_first as)"
| "persist_first (_ # as) = persist_first as"

lemma persist_first_split:
  "persist_first (pre @ Send to m # post) \<Longrightarrow> promise m \<Longrightarrow> PersistState \<in> set pre"
  by (induction pre rule: persist_first.induct) auto

lemma persist_first_no_promise:
  "(\<And>to m. Send to m \<in> set as \<Longrightarrow> \<not> promise m) \<Longrightarrow> persist_first as"
  by (induction as rule: persist_first.induct) auto

lemma append_entries_actions:
  assumes "handle_append_entries r m = (r', as)"
  shows "(as = [append_entries_response r' (leader_id m) False]) \<or>
    (\<exists>bs. as = [PersistState, ResetElectionTimer, append_entries_response r' (leader_id m) True] @ bs)"
  using assms by (auto simp: handle_append_entries_def Let_def split: if_splits prod.splits)

lemma apply_loop_sends [simp]: "Send to m \<notin> set (snd (apply_loop es commit applied))"
proof (induction applied rule: apply_loop_induct [of commit])
  case (more applied)
  then show ?case by (simp add: apply_loop_step split: option.split)
next
  case (stop applied)
  then show ?case by (simp add: apply_loop_done)
qed

lemma try_advance_sends:
  "try_advance_commit_index r = (r', as) \<Longrightarrow> Send to m \<notin> set as"
  using apply_loop_sends
  by (auto simp: try_advance_commit_index_def apply_committed_entries_def Let_def case_prod_beta
      split: if_splits)

lemma append_entries_response_sends:
  "handle_append_entries_response p r m = Inr (r', as) \<Longrightarrow> Send to msg \<notin> set as"
  by (auto simp: handle_append_entries_response_def and_then_eq_Inr dest: try_advance_sends
      split: if_splits option.splits)

lemma persist_first_step:
  assumes "raft_step p r ev = Inr (r', as)"
  shows "persist_first as"
proof (cases ev rule: raft_event_cases)
  case (RV m)
  with assms show ?thesis
    by (auto simp: handle_request_vote_def Let_def vote_response_def split: if_splits)
next
  case (RVR m)
  with assms show ?thesis
    by (auto simp: handle_vote_response_def Let_def and_then_eq_Inr split: if_splits)
next
  case (AE m)
  with assms append_entries_actions [of r m r' as] show ?thesis
    by (auto simp: append_entries_response_def)
next
  case (AER m)
  with assms append_entries_response_sends [of p r m r' as] show ?thesis
    by (auto intro: persist_first_no_promise)
next
  case ElectionT
  with assms show ?thesis
    by (auto simp: handle_election_timeout_def Let_def and_then_eq_Inr split: if_splits)
next
  case HeartbeatT
  with assms show ?thesis
    by (auto intro!: persist_first_no_promise dest: heartbeat_action_cases)
next
  case (Client c)
  with assms show ?thesis
    by (auto simp: handle_client_request_def Let_def and_then_eq_Inr split: if_splits prod.splits)
qed

text \<open>C15: in the actions of every step, a candidacy, a granted vote and a successful
  acknowledgement are sent only after a \<open>PersistState\<close> of the same step.\<close>

theorem promises_persisted_first:
  assumes "raft_step p r ev = Inr (r', pre @ Send to m # post)" and "promise m"
  shows "PersistState \<in> set pre"
  using persist_first_split [OF persist_first_step [OF assms(1)] assms(2)] .

theorem promises_persisted_first_witness:
  "\<exists>r' pre m post. raft_step Debug (raft_init 1 [2]) ElectionTimeout =
     Inr (r', pre @ Send 2 m # post) \<and> promise m \<and> PersistState \<in> set pre"
proof -
  obtain r' m where st: "raft_step Debug (raft_init 1 [2]) ElectionTimeout =
      Inr (r', [ResetElectionTimer, PersistState] @ Send 2 m # [])" and pm: "promise m"
    by (simp add: handle_election_timeout_def raft_init_def persistent_default_def add_u64_def
        Let_def create_vote_action_def)
  from promises_persisted_first [OF st pm] st pm show ?thesis by blast
qed

text \<open>The answer that refuses a vote is not covered: a \<open>RequestVote\<close> of a higher term from a
  candidate with an older log changes the term and the vote, the answer carries the new term,
  and no \<open>PersistState\<close> is emitted, so after a crash the node is back in its old term.\<close>

theorem refused_vote_not_persisted:
  assumes "cterm r < rv_term msg" and "\<not> candidate_log_up_to_date r msg"
  shows "\<exists>r'. handle_request_vote r msg = (r', [Send (candidate_id msg) (MRequestVoteResponse
      \<lparr>rvr_term = rv_term msg, vote_granted = False, vote_from = raft_id r\<rparr>)]) \<and>
    cterm r' = rv_term msg \<and> persistent r' \<noteq> persistent r"
proof -
  have "\<not> grants r msg" using assms(2) by (simp add: grants_def)
  from handle_request_vote_refuse [OF this] assms(1) show ?thesis
    by (auto simp: vote_response_def Let_def dest: arg_cong [where f = current_term])
qed

theorem refused_vote_not_persisted_witness:
  "\<exists>r msg r' as. cterm r < rv_term msg \<and> \<not> candidate_log_up_to_date r msg \<and>
     handle_request_vote r msg = (r', as) \<and> PersistState \<notin> set as \<and> persistent r' \<noteq> persistent r"
proof -
  define r where "r = (raft_init 1 [2])\<lparr>persistent := \<lparr>current_term = 1, voted_for = None,
    log = [\<lparr>entry_term = 1, index = 1, command = command_default\<rparr>]\<rparr>\<rparr>"
  define msg :: RequestVote where
    "msg = \<lparr>rv_term = 2, candidate_id = 2, rv_last_log_index = 0, rv_last_log_term = 0\<rparr>"
  have h1: "cterm r < rv_term msg" by (simp add: r_def msg_def)
  have h2: "\<not> candidate_log_up_to_date r msg"
    by (simp add: r_def msg_def candidate_log_up_to_date_def last_log_term_def last_log_index_def)
  from refused_vote_not_persisted [OF h1 h2] h1 h2 show ?thesis by fastforce
qed

end
