(* ===== verification/Quorums.thy ===== *)
theory Quorums
  imports RaftState
begin

text \<open>
  What the election argument needs of quorums, as an interface: two quorums share a member.
  The provider is the quorum of the code, \<open>Raft::quorum\<close>, over the members of a cluster.
\<close>

locale quorum_system =
  fixes is_quorum :: "'n set \<Rightarrow> bool"
  assumes quorums_meet: "is_quorum A \<Longrightarrow> is_quorum B \<Longrightarrow> A \<inter> B \<noteq> {}"
begin

lemma quorum_nonempty: "is_quorum A \<Longrightarrow> A \<noteq> {}"
  using quorums_meet [of A A] by simp

text \<open>A relation that gives every voter at most one choice has at most one winner.\<close>

lemma one_winner:
  assumes "\<And>v c d. voted v c \<Longrightarrow> voted v d \<Longrightarrow> c = d"
    and "is_quorum A" "\<And>v. v \<in> A \<Longrightarrow> voted v c"
    and "is_quorum B" "\<And>v. v \<in> B \<Longrightarrow> voted v d"
  shows "c = d"
  using quorums_meet [OF assms(2,4)] assms(1,3,5) by blast

lemma quorum_witness:
  assumes "is_quorum A" "\<And>v. v \<in> A \<Longrightarrow> P v" "is_quorum B" "\<And>v. v \<in> B \<Longrightarrow> Q v"
  shows "\<exists>v. P v \<and> Q v"
  using quorums_meet [OF assms(1,3)] assms(2,4) by blast

end

text \<open>
  The peers of a member are the other members; a set of members is a majority when it is as
  large as the \<open>quorum\<close> that each member computes from its peer list.
\<close>

definition others :: "NodeId list \<Rightarrow> NodeId \<Rightarrow> NodeId list" where
  "others members i = filter (\<lambda>j. j \<noteq> i) members"

definition majority :: "NodeId list \<Rightarrow> NodeId set \<Rightarrow> bool" where
  "majority members A \<longleftrightarrow> A \<subseteq> set members \<and> length members div 2 + 1 \<le> card A"

definition cluster_ok :: "NodeId list \<Rightarrow> bool" where
  "cluster_ok members \<longleftrightarrow> distinct members \<and> 2 \<le> length members"

lemma set_others [simp]: "set (others members i) = set members - {i}"
  by (auto simp: others_def)

lemma distinct_others: "distinct members \<Longrightarrow> distinct (others members i)"
  by (simp add: others_def)

lemma length_others:
  assumes "distinct members" "i \<in> set members"
  shows "length (others members i) = length members - 1"
  using assms distinct_card [OF distinct_others [OF assms(1), of i]]
  by (simp add: card_Diff_singleton distinct_card)

lemma quorum_is_majority:
  assumes "distinct members" "i \<in> set members" "peers r = others members i"
  shows "quorum r = length members div 2 + 1"
proof -
  have "0 < length members" using assms(2) by (cases members) auto
  then show ?thesis using length_others [OF assms(1,2)] assms(3) by (simp add: quorum_floor)
qed

lemma majorities_meet:
  assumes "majority members A" "majority members B"
  shows "A \<inter> B \<noteq> {}"
proof
  assume disj: "A \<inter> B = {}"
  from assms have fin: "finite A" "finite B"
    by (auto simp: majority_def intro: finite_subset)
  have "card A + card B = card (A \<union> B)" using fin disj by (simp add: card_Un_disjoint)
  also have "\<dots> \<le> card (set members)"
    using assms by (intro card_mono) (auto simp: majority_def)
  also have "\<dots> \<le> length members" by (rule card_length)
  finally have "card A + card B \<le> length members" .
  moreover have "length members div 2 + 1 \<le> card A" "length members div 2 + 1 \<le> card B"
    using assms by (simp_all add: majority_def)
  ultimately show False by linarith
qed

interpretation maj: quorum_system "majority members" for members
  by unfold_locales (rule majorities_meet)

end
