(* ===== verification/LogProps.thy ===== *)
theory LogProps
  imports AppendEntriesRpc
begin

text \<open>
  The loops over the log. Entries carry their index; a log is \<^emph>\<open>contiguous\<close> when the
  indices are 1, 2, 3, ... (Raft numbers entries from 1), and a slice of it is contiguous
  from some offset. For such logs the searches by index are plain list positions, and the
  reconciliation, application and commit loops have closed forms.
\<close>

section \<open>Contiguous logs\<close>

definition contiguous :: "nat \<Rightarrow> LogEntry list \<Rightarrow> bool" where
  "contiguous k es \<longleftrightarrow> map (\<lambda>e. unat (index e)) es = [k + 1..<k + 1 + length es]"

lemma contiguous_nth: "contiguous k es \<longleftrightarrow> (\<forall>i < length es. unat (index (es ! i)) = k + i + 1)"
  unfolding contiguous_def list_eq_iff_nth_eq by (auto simp del: upt_Suc)

lemma contiguous_Nil [simp]: "contiguous k []"
  by (simp add: contiguous_nth)

lemma contiguous_Cons: "contiguous k (e # es) \<longleftrightarrow> unat (index e) = k + 1 \<and> contiguous (k + 1) es"
  by (auto simp: contiguous_nth less_Suc_eq_0_disj)

lemma contiguous_append:
  "contiguous k (xs @ ys) \<longleftrightarrow> contiguous k xs \<and> contiguous (k + length xs) ys"
  by (induction xs arbitrary: k) (auto simp: contiguous_Cons)

lemma contiguous_take: "contiguous k es \<Longrightarrow> contiguous k (take n es)"
  by (simp add: contiguous_nth)

lemma contiguous_drop: "contiguous k es \<Longrightarrow> n \<le> length es \<Longrightarrow> contiguous (k + n) (drop n es)"
  by (simp add: contiguous_nth add.assoc)

lemma contiguous_bound:
  assumes "contiguous k es" "es \<noteq> []"
  shows "k + length es < 2 ^ 64"
proof -
  have "unat (index (es ! (length es - 1))) = k + length es"
    using assms by (simp add: contiguous_nth Suc_le_eq)
  then show ?thesis
    using unsigned_less [of "index (es ! (length es - 1))", where ?'a = nat] by simp
qed

lemma contiguous_last: "contiguous k es \<Longrightarrow> es \<noteq> [] \<Longrightarrow> unat (index (last es)) = k + length es"
  by (simp add: contiguous_nth last_conv_nth Suc_le_eq)

lemma unat_last_log_index: "contiguous 0 (rlog r) \<Longrightarrow> unat (last_log_index r) = length (rlog r)"
  by (cases "rlog r = []") (simp_all add: last_log_index_last contiguous_last)

text \<open>Searching a contiguous log by index is looking up a position.\<close>

lemma index_eq_iff:
  assumes "contiguous k es" "i < length es"
  shows "index (es ! i) = j \<longleftrightarrow> unat j = k + i + 1"
  using assms by (auto simp: contiguous_nth word_unat_eq_iff)

lemma find_index:
  assumes "contiguous 0 es"
  shows "List.find (\<lambda>e. index e = j) es =
    (if 0 < unat j \<and> unat j \<le> length es then Some (es ! (unat j - 1)) else None)"
proof (cases "0 < unat j \<and> unat j \<le> length es")
  case True
  then have lt: "unat j - 1 < length es" by linarith
  have "index (es ! (unat j - 1)) = j"
    using True by (subst index_eq_iff [OF assms lt]) simp
  moreover have "index (es ! i) \<noteq> j" if "i < unat j - 1" for i
    using that lt by (subst index_eq_iff [OF assms]) auto
  ultimately have "List.find (\<lambda>e. index e = j) es = Some (es ! (unat j - 1))"
    using lt by (auto simp: find_Some_iff)
  with True show ?thesis by simp
next
  case False
  have "index (es ! i) \<noteq> j" if "i < length es" for i
    using that False by (subst index_eq_iff [OF assms that]) auto
  then show ?thesis using False by (auto simp: find_None_iff in_set_conv_nth)
qed

lemma position_index:
  assumes "contiguous 0 es" "unat j = m + 1"
  shows "position (\<lambda>e. index e = j) es = (if m < length es then Some m else None)"
proof (cases "m < length es")
  case True
  then have "index (es ! m) = j" using assms by (subst index_eq_iff) auto
  moreover have "index (es ! i) \<noteq> j" if "i < m" for i
    using that True assms by (subst index_eq_iff [OF assms(1)]) auto
  ultimately show ?thesis using True by (simp add: position_Some_iff)
next
  case False
  have "index (es ! i) \<noteq> j" if "i < length es" for i
    using that False assms(2) by (subst index_eq_iff [OF assms(1) that]) auto
  then have "\<forall>e \<in> set es. index e \<noteq> j" by (metis in_set_conv_nth)
  then show ?thesis using False by (simp add: position_None_iff)
qed

lemma log_matches_contiguous:
  assumes "contiguous 0 (rlog r)"
  shows "log_matches r i t \<longleftrightarrow> i = 0 \<or>
    (unat i \<le> length (rlog r) \<and> entry_term (rlog r ! (unat i - 1)) = t)"
proof (cases "i = 0")
  case True
  then show ?thesis by (simp add: log_matches_def)
next
  case False
  then have pos: "0 < unat i" by (simp add: unat_gt_0)
  have "log_matches r i t \<longleftrightarrow>
      (\<exists>k < length (rlog r). index (rlog r ! k) = i \<and> entry_term (rlog r ! k) = t)"
    using False by (simp add: log_matches_def list_ex_length)
  also have "\<dots> \<longleftrightarrow> (\<exists>k < length (rlog r). unat i = k + 1 \<and> entry_term (rlog r ! k) = t)"
    by (rule ex_cong1) (use index_eq_iff [OF assms] in fastforce)
  also have "\<dots> \<longleftrightarrow> unat i \<le> length (rlog r) \<and> entry_term (rlog r ! (unat i - 1)) = t"
    using pos by (auto intro!: exI [of _ "unat i - 1"])
  finally show ?thesis using False by simp
qed

lemma filter_index_ge:
  assumes "contiguous k es" "k < unat n"
  shows "filter (\<lambda>e. n \<le> index e) es = drop (unat n - k - 1) es"
  using assms
proof (induction es arbitrary: k)
  case Nil
  then show ?case by simp
next
  case (Cons e es)
  from Cons.prems have e: "unat (index e) = k + 1" and es: "contiguous (k + 1) es"
    by (simp_all add: contiguous_Cons)
  show ?case
  proof (cases "unat n = k + 1")
    case True
    have "\<forall>x \<in> set es. n \<le> index x"
      using es True by (auto simp: in_set_conv_nth contiguous_nth word_le_nat_alt)
    then have "filter (\<lambda>e. n \<le> index e) es = es" by (simp add: filter_id_conv)
    with True e show ?thesis by (simp add: word_le_nat_alt)
  next
    case False
    with Cons.prems(2) have lt: "k + 1 < unat n" by linarith
    then have "unat n - k - 1 = Suc (unat n - (k + 1) - 1)" by linarith
    with Cons.IH [OF es lt] e lt show ?thesis by (simp add: word_le_nat_alt)
  qed
qed

section \<open>The apply loop\<close>

lemma apply_loop_final: "fst (apply_loop es commit applied) = max applied commit"
proof (induction applied rule: apply_loop_induct [of commit])
  case (more applied)
  then have "fst (apply_loop es commit (applied + 1)) = commit"
    using add_one_le [OF more(1)] by (simp add: max_absorb2)
  then show ?case
    using more(1) by (simp add: apply_loop_step max_absorb2 less_imp_le)
next
  case (stop applied)
  then show ?case by (simp add: apply_loop_done max_def)
qed

lemma apply_loop_actions:
  assumes "contiguous 0 es" "unat commit \<le> length es"
  shows "snd (apply_loop es commit applied) =
    map (\<lambda>e. ApplyCommand (command e)) (take (unat commit - unat applied) (drop (unat applied) es))"
proof (induction applied rule: apply_loop_induct [of commit])
  case (more applied)
  let ?a = "unat applied"
  have one: "unat (applied + 1) = ?a + 1" by (rule unat_add_one_less [OF more(1)])
  have lt: "?a < unat commit" using more(1) by (simp add: word_less_nat_alt)
  then have len: "?a < length es" using assms(2) by linarith
  have find: "List.find (\<lambda>e. index e = applied + 1) es = Some (es ! ?a)"
    using len one by (simp add: find_index [OF assms(1)])
  have "take (unat commit - ?a) (drop ?a es) =
      es ! ?a # take (unat commit - (?a + 1)) (drop (?a + 1) es)"
  proof -
    have "unat commit - ?a = Suc (unat commit - (?a + 1))" using lt by linarith
    then show ?thesis using len by (simp add: Cons_nth_drop_Suc [symmetric])
  qed
  with more find one show ?case by (simp add: apply_loop_step)
next
  case (stop applied)
  then have "unat commit - unat applied = 0" by (simp add: word_less_nat_alt)
  then show ?case using stop by (simp add: apply_loop_done)
qed

section \<open>The reconciliation loop\<close>

text \<open>
  The closed form of the loop: it skips the new entries that are present with the same
  term, and at the first one that is missing or conflicts it cuts the log there and
  appends the rest.
\<close>

lemma reconcile_cases:
  assumes "contiguous 0 es" "contiguous k new" "k \<le> length es"
  shows "\<exists>i \<le> length new.
    (\<forall>j < i. k + j < length es \<and> entry_term (es ! (k + j)) = entry_term (new ! j)) \<and>
    (i = length new \<and> reconcile es new = es \<or>
     i < length new \<and> (k + i < length es \<longrightarrow> entry_term (es ! (k + i)) \<noteq> entry_term (new ! i)) \<and>
       reconcile es new = take (k + i) es @ drop i new)"
  using assms(2,3)
proof (induction new arbitrary: k)
  case Nil
  then show ?case by simp
next
  case (Cons e new)
  from Cons.prems have e: "unat (index e) = k + 1" and new: "contiguous (k + 1) new"
    by (simp_all add: contiguous_Cons)
  have pos: "position (\<lambda>x. index x = index e) es = (if k < length es then Some k else None)"
    by (rule position_index [OF assms(1) e])
  show ?case
  proof (cases "k < length es \<and> entry_term (es ! k) = entry_term e")
    case False
    then have "reconcile es (e # new) = take k es @ e # new"
      using pos Cons.prems(2) by auto
    with False show ?thesis by (intro exI [of _ 0]) auto
  next
    case True
    then have step: "reconcile es (e # new) = reconcile es new" using pos by simp
    from True have "k + 1 \<le> length es" by simp
    from Cons.IH [OF new this] obtain i where i: "i \<le> length new"
      "\<forall>j < i. k + 1 + j < length es \<and> entry_term (es ! (k + 1 + j)) = entry_term (new ! j)"
      "i = length new \<and> reconcile es new = es \<or>
       i < length new \<and> (k + 1 + i < length es \<longrightarrow>
           entry_term (es ! (k + 1 + i)) \<noteq> entry_term (new ! i)) \<and>
         reconcile es new = take (k + 1 + i) es @ drop i new"
      by blast
    show ?thesis
    proof (intro exI [of _ "Suc i"] conjI allI impI)
      show "Suc i \<le> length (e # new)" using i(1) by simp
    next
      fix j assume "j < Suc i"
      then show "k + j < length es" and "entry_term (es ! (k + j)) = entry_term ((e # new) ! j)"
        using i(2) True by (cases j; auto)+
    next
      show "Suc i = length (e # new) \<and> reconcile es (e # new) = es \<or>
        Suc i < length (e # new) \<and> (k + Suc i < length es \<longrightarrow>
            entry_term (es ! (k + Suc i)) \<noteq> entry_term ((e # new) ! Suc i)) \<and>
          reconcile es (e # new) = take (k + Suc i) es @ drop (Suc i) (e # new)"
        using i(3) step by auto
    qed
  qed
qed

lemma reconcile_agree:
  assumes "contiguous 0 es" "contiguous k new" "k \<le> length es"
    and agree: "\<And>j. j < length new \<Longrightarrow> k + j < length es \<Longrightarrow>
      entry_term (es ! (k + j)) = entry_term (new ! j) \<Longrightarrow> es ! (k + j) = new ! j"
  shows "reconcile es new = (if take (length new) (drop k es) = new then es else take k es @ new)"
proof -
  from reconcile_cases [OF assms(1-3)] obtain i where i: "i \<le> length new"
    "\<forall>j < i. k + j < length es \<and> entry_term (es ! (k + j)) = entry_term (new ! j)"
    "i = length new \<and> reconcile es new = es \<or>
     i < length new \<and> (k + i < length es \<longrightarrow> entry_term (es ! (k + i)) \<noteq> entry_term (new ! i)) \<and>
       reconcile es new = take (k + i) es @ drop i new"
    by blast
  have eq: "es ! (k + j) = new ! j" if "j < i" for j
    using that i(1,2) agree [of j] by auto
  have len: "k + i \<le> length es"
    using i(2) assms(3) by (cases i) auto
  have take: "take i (drop k es) = take i new"
    using eq len i(1) by (auto intro!: nth_equalityI)
  from i(3) show ?thesis
  proof (elim disjE conjE)
    assume "i = length new" "reconcile es new = es"
    with take show ?thesis by simp
  next
    assume lt: "i < length new"
      and conflict: "k + i < length es \<longrightarrow> entry_term (es ! (k + i)) \<noteq> entry_term (new ! i)"
      and res: "reconcile es new = take (k + i) es @ drop i new"
    have "take (k + i) es = take k es @ take i new"
      by (simp add: take_add take)
    then have whole: "reconcile es new = take k es @ new"
      using res by simp
    have "take (length new) (drop k es) \<noteq> new"
    proof
      assume eq_new: "take (length new) (drop k es) = new"
      then have "length new \<le> length (drop k es)" by (metis length_take min.cobounded1 min_def)
      with lt have lt_es: "k + i < length es" by simp
      have "es ! (k + i) = new ! i"
        using arg_cong [OF eq_new, of "\<lambda>xs. xs ! i"] lt lt_es by simp
      with conflict lt_es show False by simp
    qed
    with whole show ?thesis by simp
  qed
qed

lemma contiguous_reconcile:
  assumes "contiguous 0 es" "contiguous k new" "k \<le> length es"
  shows "contiguous 0 (reconcile es new)"
proof -
  from reconcile_cases [OF assms] obtain i where i: "i \<le> length new"
    "\<forall>j < i. k + j < length es \<and> entry_term (es ! (k + j)) = entry_term (new ! j)"
    "i = length new \<and> reconcile es new = es \<or>
     i < length new \<and> reconcile es new = take (k + i) es @ drop i new"
    by blast
  have len: "k + i \<le> length es"
    using i(2) assms(3) by (cases i) auto
  from i(1,3) len assms(1) contiguous_drop [OF assms(2) i(1)] show ?thesis
    by (auto simp: contiguous_append contiguous_take min_def)
qed

lemma length_reconcile:
  assumes "contiguous 0 es" "contiguous k new" "k \<le> length es"
  shows "k + length new \<le> length (reconcile es new)"
proof -
  from reconcile_cases [OF assms] obtain i where i: "i \<le> length new"
    "\<forall>j < i. k + j < length es \<and> entry_term (es ! (k + j)) = entry_term (new ! j)"
    "i = length new \<and> reconcile es new = es \<or>
     i < length new \<and> reconcile es new = take (k + i) es @ drop i new"
    by blast
  have "k + i \<le> length es"
    using i(2) assms(3) by (cases i) auto
  with i(1,3) show ?thesis by auto
qed

section \<open>The commit scan\<close>

definition replicated :: "LogIndex list \<Rightarrow> LogIndex \<Rightarrow> nat" where
  "replicated matches i = 1 + length (filter (\<lambda>m. i \<le> m) matches)"

definition committable :: "LogIndex \<Rightarrow> Term \<Rightarrow> LogIndex list \<Rightarrow> nat \<Rightarrow> LogEntry \<Rightarrow> bool" where
  "committable commit t matches q e \<longleftrightarrow>
     commit < index e \<and> entry_term e = t \<and> q \<le> replicated matches (index e)"

lemma scan_commit_sound:
  "scan_commit commit t matches q es = commit \<or>
   (\<exists>e \<in> set es. committable commit t matches q e \<and> scan_commit commit t matches q es = index e)"
  by (induction commit t matches q es rule: scan_commit.induct)
     (auto simp: committable_def replicated_def)

lemma scan_commit_max:
  assumes "sorted_wrt (\<lambda>a b. index b < index a) es" "e \<in> set es" "committable commit t matches q e"
  shows "index e \<le> scan_commit commit t matches q es"
  using assms
  by (induction commit t matches q es rule: scan_commit.induct)
     (auto simp: committable_def replicated_def less_imp_le)

lemma contiguous_sorted:
  assumes "contiguous k es"
  shows "sorted_wrt (\<lambda>a b. index b < index a) (rev es)"
proof -
  have "sorted_wrt (\<lambda>a b. index a < index b) es"
    using assms by (auto simp: sorted_wrt_iff_nth_less contiguous_nth word_less_nat_alt)
  then show ?thesis by (simp add: sorted_wrt_rev)
qed

end
