(* ===== verification/RaftSystem.thy ===== *)
theory RaftSystem
  imports NodeSafety Quorums LogProps
begin

text \<open>
  A cluster of nodes, as \<open>raft-runtime\<close> runs them: every node has its Raft state in memory, a
  persisted state on disk and a state machine, and the network holds every message that was
  ever sent, so that messages can be lost, delayed, reordered and delivered twice. A node
  handles one event at a time and its actions are carried out in order; a crash can happen
  between any two of them, and a restart rebuilds the node from its disk
  (\<open>Raft::restore\<close>). Steps are those of a debug build; a panic stops the node, which is a
  crash before the first action.
\<close>

section \<open>The state and its steps\<close>

record System =
  nodes :: "NodeId \<Rightarrow> Raft"
  disks :: "NodeId \<Rightarrow> PersistentState"
  apps :: "NodeId \<Rightarrow> Command list"
  net :: "(NodeId \<times> Message) list"

datatype Step = Handle NodeId Event | Crash NodeId Event nat | Restart NodeId

text \<open>
  The effects of actions outside the node: \<open>Send\<close> hands the message to the network,
  \<open>PersistState\<close> writes the persistent state, \<open>ApplyCommand\<close> feeds the state machine. Timers
  have no effect here: timeouts can happen at any time.
\<close>

fun exec_actions :: "NodeId \<Rightarrow> PersistentState \<Rightarrow> Action list \<Rightarrow> System \<Rightarrow> System" where
  "exec_actions i st [] s = s"
| "exec_actions i st (Send to m # as) s = exec_actions i st as (s\<lparr>net := net s @ [(to, m)]\<rparr>)"
| "exec_actions i st (PersistState # as) s =
     exec_actions i st as (s\<lparr>disks := (disks s)(i := st)\<rparr>)"
| "exec_actions i st (ApplyCommand c # as) s =
     exec_actions i st as (s\<lparr>apps := (apps s)(i := apps s i @ [c])\<rparr>)"
| "exec_actions i st (_ # as) s = exec_actions i st as s"

definition possible :: "System \<Rightarrow> NodeId \<Rightarrow> Event \<Rightarrow> bool" where
  "possible s i ev \<longleftrightarrow> (case ev of EvMessage m \<Rightarrow> (i, m) \<in> set (net s) | _ \<Rightarrow> True)"

definition handle :: "NodeId list \<Rightarrow> System \<Rightarrow> NodeId \<Rightarrow> Event \<Rightarrow> (Raft \<times> Action list) option" where
  "handle members s i ev =
     (if i \<in> set members \<and> possible s i ev
      then (case raft_step Debug (nodes s i) ev of Inl _ \<Rightarrow> None | Inr x \<Rightarrow> Some x)
      else None)"

definition handled :: "System \<Rightarrow> NodeId \<Rightarrow> Raft \<Rightarrow> Action list \<Rightarrow> System" where
  "handled s i r as = exec_actions i (persistent r) as (s\<lparr>nodes := (nodes s)(i := r)\<rparr>)"

definition restarted :: "NodeId list \<Rightarrow> NodeId \<Rightarrow> System \<Rightarrow> System option" where
  "restarted members i s =
     (case raft_restore Debug i (others members i) (disks s i) of
        Inl _ \<Rightarrow> None
      | Inr r \<Rightarrow> Some (s\<lparr>nodes := (nodes s)(i := r), apps := (apps s)(i := [])\<rparr>))"

fun sys_step :: "NodeId list \<Rightarrow> System \<Rightarrow> Step \<Rightarrow> System option" where
  "sys_step members s (Handle i ev) =
     (case handle members s i ev of None \<Rightarrow> None | Some (r, as) \<Rightarrow> Some (handled s i r as))"
| "sys_step members s (Crash i ev n) =
     (case handle members s i ev of None \<Rightarrow> None
      | Some (r, as) \<Rightarrow> restarted members i (handled s i r (take n as)))"
| "sys_step members s (Restart i) =
     (if i \<in> set members then restarted members i s else None)"

definition sys_init :: "NodeId list \<Rightarrow> System" where
  "sys_init members =
     \<lparr>nodes = (\<lambda>i. raft_init i (others members i)), disks = (\<lambda>_. persistent_default),
      apps = (\<lambda>_. []), net = []\<rparr>"

inductive reachable :: "NodeId list \<Rightarrow> System \<Rightarrow> bool" for members where
  init: "reachable members (sys_init members)"
| step: "reachable members s \<Longrightarrow> sys_step members s st = Some s' \<Longrightarrow> reachable members s'"

inductive_cases reachableE: "reachable members s"

fun sys_run :: "NodeId list \<Rightarrow> System \<Rightarrow> Step list \<Rightarrow> System option" where
  "sys_run members s [] = Some s"
| "sys_run members s (st # sts) =
     (case sys_step members s st of None \<Rightarrow> None | Some s' \<Rightarrow> sys_run members s' sts)"

lemma sys_run_reachable:
  "reachable members s \<Longrightarrow> sys_run members s sts = Some s' \<Longrightarrow> reachable members s'"
  by (induction sts arbitrary: s) (auto split: option.splits intro: reachable.step)

section \<open>What a step changes\<close>

lemma exec_actions_effect:
  "nodes (exec_actions i st as s) = nodes s"
  "net (exec_actions i st as s) = net s @ sends as"
  "disks (exec_actions i st as s) = (if PersistState \<in> set as then (disks s)(i := st) else disks s)"
  "apps (exec_actions i st as s) = (apps s)(i := apps s i @ applied_commands as)"
  by (induction i st as s rule: exec_actions.induct) auto

lemma handled_simps [simp]:
  "nodes (handled s i r as) = (nodes s)(i := r)"
  "net (handled s i r as) = net s @ sends as"
  "disks (handled s i r as) =
     (if PersistState \<in> set as then (disks s)(i := persistent r) else disks s)"
  "apps (handled s i r as) = (apps s)(i := apps s i @ applied_commands as)"
  by (simp_all add: handled_def exec_actions_effect)

text \<open>What one event makes of the node and which actions it asks for, by the node's id.\<close>

definition node_step :: "NodeId list \<Rightarrow> System \<Rightarrow> NodeId \<Rightarrow> Event \<Rightarrow> Raft \<Rightarrow> Action list \<Rightarrow> bool" where
  "node_step members s i ev r as \<longleftrightarrow> i \<in> set members \<and> possible s i ev \<and>
     raft_step Debug (nodes s i) ev = Inr (r, as)"

lemma handle_Some [simp]: "handle members s i ev = Some (r, as) \<longleftrightarrow> node_step members s i ev r as"
  by (auto simp: handle_def node_step_def split: sum.split)

lemma restarted_Some [simp]:
  "restarted members i s = Some s' \<longleftrightarrow>
     s' = s\<lparr>nodes := (nodes s)(i := (raft_init i (others members i))\<lparr>persistent := disks s i\<rparr>),
            apps := (apps s)(i := [])\<rparr>"
  by (auto simp: restarted_def)

text \<open>
  The induction that all invariants use: an invariant holds in the initial state, survives a
  handled event with any prefix of its actions carried out, and survives a restart. The
  prefix covers crashes; a whole step is the longest prefix.
\<close>

lemma reachable_invariant [consumes 1, case_names init handled restart]:
  assumes "reachable members s"
    and "P (sys_init members)"
    and "\<And>s i ev r as n. P s \<Longrightarrow> node_step members s i ev r as \<Longrightarrow> P (handled s i r (take n as))"
    and "\<And>s i. P s \<Longrightarrow> i \<in> set members \<Longrightarrow>
      P (s\<lparr>nodes := (nodes s)(i := (raft_init i (others members i))\<lparr>persistent := disks s i\<rparr>),
           apps := (apps s)(i := [])\<rparr>)"
  shows "P s"
  using assms(1)
proof induction
  case init
  show ?case by (rule assms(2))
next
  case (step s st s')
  show ?case
  proof (cases st)
    case (Handle i ev)
    with step(2) obtain r as where "node_step members s i ev r as" "s' = handled s i r as"
      by (auto split: option.splits)
    with assms(3) [OF step(3), of i ev r as "length as"] show ?thesis by simp
  next
    case (Crash i ev n)
    with step(2) obtain r as where st: "node_step members s i ev r as"
        "restarted members i (handled s i r (take n as)) = Some s'"
      by (auto split: option.splits)
    have "i \<in> set members" using st(1) by (simp add: node_step_def)
    from assms(4) [OF assms(3) [OF step(3) st(1), of n] this] st(2) show ?thesis by simp
  next
    case (Restart i)
    with step(2) have "i \<in> set members" "restarted members i s = Some s'"
      by (auto split: if_splits)
    with assms(4) [OF step(3)] show ?thesis by simp
  qed
qed

section \<open>Every node is well-formed and keeps its place\<close>

definition nodes_ok :: "NodeId list \<Rightarrow> System \<Rightarrow> bool" where
  "nodes_ok members s \<longleftrightarrow> (\<forall>i \<in> set members. node_wf (nodes s i) \<and> raft_id (nodes s i) = i \<and>
     peers (nodes s i) = others members i)"

lemma peers_ok_others: "cluster_ok members \<Longrightarrow> peers_ok i (others members i)"
  by (auto simp: peers_ok_def cluster_ok_def distinct_others others_def)

lemma reachable_nodes_ok:
  assumes "cluster_ok members" "reachable members s"
  shows "nodes_ok members s"
  using assms(2)
proof (induction rule: reachable_invariant)
  case init
  show ?case using node_wf_init [OF peers_ok_others [OF assms(1)]]
    by (simp add: nodes_ok_def sys_init_def raft_init_def)
next
  case (handled s i ev r as n)
  then have "i \<in> set members" "raft_step Debug (nodes s i) ev = Inr (r, as)"
    by (simp_all add: node_step_def)
  with handled(1) raft_step_node_wf raft_step_identity show ?case
    by (fastforce simp: nodes_ok_def)
next
  case (restart s i)
  then show ?case using node_wf_restored [OF peers_ok_others [OF assms(1)]]
    by (auto simp: nodes_ok_def raft_init_def)
qed


section \<open>Running the system\<close>

text \<open>The definitions that evaluate a run of the system step by step.\<close>

lemmas run_simps =
  sys_init_def handled_def handle_def possible_def handle_request_vote_def
  handle_vote_response_def become_leader_def handle_election_timeout_def
  handle_heartbeat_timeout_def append_entries_for_peer_def prev_log_info_def
  handle_append_entries_def handle_append_entries_response_def try_advance_commit_index_def
  apply_committed_entries_def apply_loop_step apply_loop_done handle_client_request_def
  raft_init_def persistent_default_def candidate_default_def volatile_default_def others_def
  add_u64_def debug_assert_def has_majority_def quorum_def div_ceil_def last_log_index_def
  last_log_term_def candidate_log_up_to_date_def vote_response_def create_vote_action_def
  step_down_def log_matches_def append_entries_response_def get_at_def set_at_def
  saturating_sub_def Let_def max_def min_def

definition members3 :: "NodeId list" where
  "members3 = [1, 2, 3]"

text \<open>Node 1 campaigns in term 1 and is elected with the vote of node 3.\<close>

definition one_election :: "Step list" where
  "one_election =
     [Handle 1 ElectionTimeout,
      Handle 3 (EvMessage (MRequestVote \<lparr>rv_term = 1, candidate_id = 1,
        rv_last_log_index = 0, rv_last_log_term = 0\<rparr>)),
      Handle 1 (EvMessage (MRequestVoteResponse \<lparr>rvr_term = 1, vote_granted = True, vote_from = 3\<rparr>))]"

lemma members3_ok: "cluster_ok members3"
  by (simp add: cluster_ok_def members3_def)

lemma one_election_run:
  "\<exists>s. sys_run members3 (sys_init members3) one_election = Some s \<and>
     role (nodes s 1) = Leader \<and> cterm (nodes s 1) = 1"
  by (simp add: members3_def one_election_def run_simps del: handle_Some handled_simps)

lemma one_election_reachable:
  "\<exists>s. reachable members3 s \<and> role (nodes s 1) = Leader \<and> cterm (nodes s 1) = 1"
  using one_election_run sys_run_reachable [OF reachable.init] by blast

end
