(* ===== verification/ElectionSafety.thy ===== *)
theory ElectionSafety
  imports RaftSystem
begin

text \<open>
  Election safety of the cluster: however messages are lost, repeated and reordered and
  whenever nodes crash and restart from disk, no two nodes are ever elected in one term. The
  votes are read off the network: a \<open>RequestVote\<close> is its candidate's vote for itself, a granted
  response the vote of its sender.
\<close>

section \<open>What a node sends\<close>

definition send_ok :: "Raft \<Rightarrow> Event \<Rightarrow> Raft \<Rightarrow> NodeId \<Rightarrow> Message \<Rightarrow> bool" where
  "send_ok r ev r' to msg \<longleftrightarrow> (case msg of
     MRequestVote m \<Rightarrow> rv_term m = cterm r' \<and> candidate_id m = raft_id r \<and>
       vote r' = Some (raft_id r) \<and> 0 < cterm r'
   | MRequestVoteResponse g \<Rightarrow> vote_granted g \<longrightarrow>
       (\<exists>m. ev = EvMessage (MRequestVote m) \<and> to = candidate_id m \<and> rvr_term g = rv_term m \<and>
          cterm r' = rv_term m \<and> vote r' = Some to \<and> vote_from g = raft_id r)
   | MAppendEntries m \<Rightarrow> role r = Leader \<and> r' = r \<and> to \<in> set (peers r) \<and>
       (\<exists>n. m = peer_append_entries r n)
   | MAppendEntriesResponse a \<Rightarrow> (\<exists>m. ev = EvMessage (MAppendEntries m) \<and> to = leader_id m \<and>
       aer_from a = raft_id r \<and> aer_term a = cterm r'))"

lemma send_ok_request_vote:
  "handle_request_vote r m = (r', as) \<Longrightarrow> Send to msg \<in> set as \<Longrightarrow>
     send_ok r (EvMessage (MRequestVote m)) r' to msg"
  by (auto simp: handle_request_vote_def Let_def vote_response_def send_ok_def
      split: if_splits option.splits)

lemma append_entries_response_cases:
  "Send to msg = append_entries_response r' l b \<Longrightarrow>
     to = l \<and> msg = MAppendEntriesResponse \<lparr>aer_term = cterm r', success = b, aer_from = raft_id r',
       aer_match_index = (if b then last_log_index r' else 0)\<rparr>"
  by (simp add: append_entries_response_def)

lemma apply_committed_sends: "apply_committed_entries r = (r', as) \<Longrightarrow> Send to msg \<notin> set as"
  using apply_loop_sends by (auto simp: apply_committed_entries_def case_prod_beta)

lemma append_entries_sends:
  assumes "handle_append_entries r m = (r', as)" "Send to msg \<in> set as"
  shows "\<exists>b. Send to msg = append_entries_response r' (leader_id m) b"
  using assms
  by (auto simp: handle_append_entries_def Let_def split: if_splits prod.splits
      dest: apply_committed_sends)

lemma send_ok_append_entries:
  assumes "handle_append_entries r m = (r', as)" "Send to msg \<in> set as"
  shows "send_ok r (EvMessage (MAppendEntries m)) r' to msg"
proof -
  obtain b where "Send to msg = append_entries_response r' (leader_id m) b"
    using append_entries_sends [OF assms] by blast
  from append_entries_response_cases [OF this] append_entries_frame [OF assms(1)] show ?thesis
    by (simp add: send_ok_def)
qed

lemma add_u64_pos: "add_u64 Debug a 1 = Inr c \<Longrightarrow> 0 < c"
  by (drule add_u64_Debug_less) (simp add: word_gt_0_no order.strict_trans1 [OF word_zero_le])

lemma send_ok_election_timeout:
  assumes "handle_election_timeout Debug r = Inr (r', as)" "Send to msg \<in> set as"
  shows "send_ok r ElectionTimeout r' to msg"
proof -
  have lead: "role r \<noteq> Leader" and peers: "peers r \<noteq> []"
    using assms by (auto simp: handle_election_timeout_def and_then_eq_Inr Let_def split: if_splits)
  note c = election_timeout_candidate [OF lead peers assms(1)]
  from assms(2) c(10) obtain p where "msg = MRequestVote
      \<lparr>rv_term = cterm r', candidate_id = raft_id r',
       rv_last_log_index = last_log_index r', rv_last_log_term = last_log_term r'\<rparr>"
    by (auto simp: create_vote_action_def)
  with c(2,3,6) add_u64_pos show ?thesis by (simp add: send_ok_def)
qed

lemma raft_step_sends:
  assumes "raft_step Debug r ev = Inr (r', as)" "Send to msg \<in> set as"
  shows "send_ok r ev r' to msg"
proof (cases ev rule: raft_event_cases)
  case (RV m)
  with assms show ?thesis by (auto intro: send_ok_request_vote)
next
  case (RVR m)
  with assms show ?thesis
    by (auto simp: handle_vote_response_def Let_def and_then_eq_Inr split: if_splits)
next
  case (AE m)
  with assms show ?thesis by (auto intro: send_ok_append_entries)
next
  case (AER m)
  with assms show ?thesis by (auto dest: append_entries_response_sends)
next
  case ElectionT
  with assms show ?thesis by (auto intro: send_ok_election_timeout)
next
  case HeartbeatT
  with assms have "handle_heartbeat_timeout r = Inr (r', as)" by simp
  from heartbeat_action_cases [OF this assms(2)] heartbeat_actions(1) [OF this] show ?thesis
    by (auto simp: send_ok_def)
next
  case (Client c)
  with assms show ?thesis
    by (auto simp: handle_client_request_def Let_def and_then_eq_Inr split: if_splits prod.splits
        dest: try_advance_sends)
qed

section \<open>How a node becomes candidate and leader\<close>

text \<open>The granted votes that a candidate holds.\<close>

definition granted :: "Raft \<Rightarrow> NodeId set" where
  "granted r = (case candidate_state r of Some cs \<Rightarrow> votes_granted cs | None \<Rightarrow> {})"

text \<open>The votes that one event adds to a candidate.\<close>

definition fresh_grant :: "Raft \<Rightarrow> Event \<Rightarrow> NodeId set" where
  "fresh_grant r ev = {vote_from g | g. ev = EvMessage (MRequestVoteResponse g) \<and>
     rvr_term g = cterm r \<and> vote_granted g}"

lemma granted_Some: "candidate_state r = Some cs \<Longrightarrow> granted r = votes_granted cs"
  by (simp add: granted_def)

text \<open>
  The two ways to be a candidate after a step: a new campaign, or the old one with the vote
  that came in. The ways to be a leader: staying one, or winning a majority.
\<close>

definition role_change :: "Raft \<Rightarrow> Event \<Rightarrow> Raft \<Rightarrow> bool" where
  "role_change r ev r' \<longleftrightarrow>
     (role r' = Candidate \<longrightarrow>
        cterm r < cterm r' \<and> granted r' = {raft_id r} \<or>
        role r = Candidate \<and> cterm r' = cterm r \<and> granted r' \<subseteq> granted r \<union> fresh_grant r ev) \<and>
     (role r' = Leader \<longrightarrow>
        role r = Leader \<and> cterm r' = cterm r \<or>
        peers r = [] \<or>
        role r = Candidate \<and> cterm r' = cterm r \<and> rlog r' = rlog r \<and>
          (\<exists>A. A \<subseteq> insert (raft_id r) (set (peers r)) \<and> quorum r \<le> card A \<and>
             A \<subseteq> granted r \<union> fresh_grant r ev))"

lemma role_change_follower: "role r' = Follower \<Longrightarrow> role_change r ev r'"
  by (simp add: role_change_def)

lemma role_change_same:
  assumes "role r' = role r" "cterm r' = cterm r" "candidate_state r' = candidate_state r"
  shows "role_change r ev r'"
  using assms by (cases "role r") (auto simp: role_change_def granted_def)

lemma role_change_request_vote:
  assumes "handle_request_vote r m = (r', as)"
  shows "role_change r (EvMessage (MRequestVote m)) r'"
proof (cases "rv_term m > cterm r")
  case True
  with assms show ?thesis
    by (intro role_change_follower)
       (auto simp: handle_request_vote_def Let_def split: if_splits option.splits)
next
  case False
  with assms show ?thesis
    by (intro role_change_same)
       (auto simp: handle_request_vote_def Let_def split: if_splits option.splits)
qed

lemma role_change_append_entries:
  assumes "handle_append_entries r m = (r', as)"
  shows "role_change r ev r'"
proof (cases "ae_term m" "cterm r" rule: linorder_cases)
  case less
  with append_entries_frame [OF assms] show ?thesis by (simp add: role_change_same)
next
  case equal
  with append_entries_frame [OF assms] show ?thesis
    by (auto intro: role_change_same role_change_follower split: if_splits)
next
  case greater
  with append_entries_frame [OF assms] show ?thesis by (simp add: role_change_follower)
qed

lemma role_change_append_entries_response:
  assumes "handle_append_entries_response p r m = Inr (r', as)"
  shows "role_change r ev r'"
  using append_entries_response_frame [OF assms]
  by (cases "aer_term m > cterm r") (auto intro: role_change_same role_change_follower)

lemma role_change_election_timeout:
  assumes "handle_election_timeout Debug r = Inr (r', as)"
  shows "role_change r ev r'"
proof (cases "role r = Leader \<or> peers r = []")
  case True
  with assms show ?thesis
    by (auto simp: handle_election_timeout_def Let_def and_then_eq_Inr role_change_def
        dest!: become_leader_frame split: if_splits)
next
  case False
  then have h: "role r \<noteq> Leader" "peers r \<noteq> []" by simp_all
  note c = election_timeout_candidate [OF h assms]
  from c(1,9) add_u64_Debug_less [OF c(2)] show ?thesis
    by (simp add: role_change_def granted_def)
qed

lemma role_change_vote_response:
  assumes "node_wf r" "handle_vote_response p r m = Inr (r', as)"
  shows "role_change r (EvMessage (MRequestVoteResponse m)) r'"
proof (cases "rvr_term m = cterm r \<and> role r = Candidate \<and> vote_from m \<in> set (peers r)")
  case False
  with assms(2) show ?thesis
    by (auto simp: handle_vote_response_def intro: role_change_same role_change_follower
        split: if_splits)
next
  case True
  from assms(1) True obtain cs where cs: "candidate_state r = Some cs"
      "votes_granted cs \<subseteq> insert (raft_id r) (set (peers r))"
    by (auto simp: node_wf_defs)
  let ?A = "if vote_granted m then insert (vote_from m) (votes_granted cs) else votes_granted cs"
  have A: "?A \<subseteq> insert (raft_id r) (set (peers r))"
      "?A \<subseteq> granted r \<union> fresh_grant r (EvMessage (MRequestVoteResponse m))"
    using cs True by (auto simp: granted_def fresh_grant_def)
  have same: "r\<lparr>candidate_state := Some cs\<rparr> = r" using cs(1) by simp
  let ?cs = "cs\<lparr>votes_received := insert (vote_from m) (votes_received cs), votes_granted := ?A\<rparr>"
  let ?r = "r\<lparr>candidate_state := Some ?cs\<rparr>"
  from assms(2) True cs(1) consider "r' = r" | "r' = ?r"
    | "become_leader p ?r = Inr r'" "quorum r \<le> card ?A"
    by (auto simp: handle_vote_response_def Let_def and_then_eq_Inr same has_majority_def
        split: if_splits)
  then consider "r' = r" | "role r' = Candidate" "cterm r' = cterm r" "granted r' = ?A"
    | "role r' = Leader" "cterm r' = cterm r" "rlog r' = rlog r" "quorum r \<le> card ?A"
  proof cases
    case 2
    with True show ?thesis by (intro that(2)) (simp_all add: granted_def)
  next
    case 3
    from become_leader_frame [OF 3(1)] 3(2) show ?thesis by (intro that(3)) simp_all
  qed (rule that(1))
  then show ?thesis
  proof cases
    case 1
    then show ?thesis by (simp add: role_change_same)
  next
    case 2
    with A True show ?thesis by (simp add: role_change_def)
  next
    case 3
    with A True show ?thesis unfolding role_change_def by (metis Role.distinct(5))
  qed
qed

lemma raft_step_role_change:
  assumes "node_wf r" "raft_step Debug r ev = Inr (r', as)"
  shows "role_change r ev r'"
proof (cases ev rule: raft_event_cases)
  case HeartbeatT
  with assms(2) show ?thesis by (auto dest: heartbeat_actions(1) intro: role_change_same)
next
  case (Client c)
  with assms(2) client_request_frame [of Debug r c r' as] show ?thesis
    by (simp add: role_change_same)
qed (use assms in \<open>auto intro: role_change_request_vote role_change_vote_response
      role_change_append_entries role_change_append_entries_response
      role_change_election_timeout\<close>)


section \<open>Votes on the network\<close>

definition candidacy :: "(NodeId \<times> Message) list \<Rightarrow> Term \<Rightarrow> NodeId \<Rightarrow> bool" where
  "candidacy ms t c \<longleftrightarrow> (\<exists>to m. (to, MRequestVote m) \<in> set ms \<and> rv_term m = t \<and> candidate_id m = c)"

definition vote_grant :: "(NodeId \<times> Message) list \<Rightarrow> Term \<Rightarrow> NodeId \<Rightarrow> NodeId \<Rightarrow> bool" where
  "vote_grant ms t v c \<longleftrightarrow> (\<exists>g. (c, MRequestVoteResponse g) \<in> set ms \<and> rvr_term g = t \<and>
     vote_granted g \<and> vote_from g = v)"

definition voted :: "(NodeId \<times> Message) list \<Rightarrow> Term \<Rightarrow> NodeId \<Rightarrow> NodeId \<Rightarrow> bool" where
  "voted ms t v c \<longleftrightarrow> (v = c \<and> candidacy ms t c) \<or> vote_grant ms t v c"

text \<open>A node won a term when a majority of the members voted for it there.\<close>

definition elected :: "NodeId list \<Rightarrow> System \<Rightarrow> Term \<Rightarrow> NodeId \<Rightarrow> bool" where
  "elected members s t c \<longleftrightarrow> (\<exists>A. majority members A \<and> (\<forall>v \<in> A. voted (net s) t v c))"

text \<open>A persistent state holds a vote: it moved past the term, or records the vote.\<close>

definition holds_vote :: "PersistentState \<Rightarrow> Term \<Rightarrow> NodeId \<Rightarrow> bool" where
  "holds_vote st t c \<longleftrightarrow> t < current_term st \<or> (t = current_term st \<and> voted_for st = Some c)"

lemmas vote_defs = candidacy_def vote_grant_def voted_def

lemma candidacy_mono: "candidacy ms t c \<Longrightarrow> set ms \<subseteq> set ms' \<Longrightarrow> candidacy ms' t c"
  by (auto simp: candidacy_def)

lemma vote_grant_mono: "vote_grant ms t v c \<Longrightarrow> set ms \<subseteq> set ms' \<Longrightarrow> vote_grant ms' t v c"
  by (auto simp: vote_grant_def)

lemma voted_mono: "voted ms t v c \<Longrightarrow> set ms \<subseteq> set ms' \<Longrightarrow> voted ms' t v c"
  by (auto simp: vote_defs)

lemma elected_mono:
  "elected members s t c \<Longrightarrow> set (net s) \<subseteq> set (net s') \<Longrightarrow> elected members s' t c"
  by (meson elected_def voted_mono)

lemma holds_vote_step:
  assumes "raft_step Debug r ev = Inr (r', as)" "holds_vote (persistent r) t c"
  shows "holds_vote (persistent r') t c"
  using term_vote_step [OF assms(1)] assms(2) by (auto simp: holds_vote_def term_vote_le_def)

lemma persist_first_take: "persist_first as \<Longrightarrow> persist_first (take n as)"
proof (induction as arbitrary: n rule: persist_first.induct)
  case (2 as)
  then show ?case by (cases n) auto
qed (case_tac n; simp)+

lemma promise_persisted:
  assumes "persist_first as" "Send to m \<in> set as" "promise m"
  shows "PersistState \<in> set as"
proof -
  from assms(2) obtain pre post where "as = pre @ Send to m # post"
    by (auto simp: in_set_conv_decomp)
  with persist_first_split assms(1,3) show ?thesis by fastforce
qed

text \<open>A vote that a step puts on the network is held by the sender, in memory and on disk.\<close>

lemma new_vote:
  assumes "nodes_ok members s" "node_step members s i ev r as"
    and "voted (net s @ sends (take n as)) t v c"
  shows "voted (net s) t v c \<or>
    (v = i \<and> t = cterm r \<and> vote r = Some c \<and> PersistState \<in> set (take n as))"
proof -
  from assms(1,2) have i: "i \<in> set members" and rid: "raft_id (nodes s i) = i"
    and st: "raft_step Debug (nodes s i) ev = Inr (r, as)" and poss: "possible s i ev"
    by (auto simp: nodes_ok_def node_step_def)
  have ok: "send_ok (nodes s i) ev r to m" if "Send to m \<in> set (take n as)" for to m
    using raft_step_sends [OF st] that by (meson in_set_takeD)
  have persisted: "PersistState \<in> set (take n as)" if "Send to m \<in> set (take n as)" "promise m" for to m
    using promise_persisted [OF persist_first_take [OF persist_first_step [OF st]] that] .
  from assms(3) consider "voted (net s) t v c"
    | to m where "Send to (MRequestVote m) \<in> set (take n as)" "rv_term m = t" "candidate_id m = c" "v = c"
    | g where "Send c (MRequestVoteResponse g) \<in> set (take n as)" "rvr_term g = t" "vote_granted g"
        "vote_from g = v"
    by (auto simp: vote_defs)
  then show ?thesis
  proof cases
    case (2 to m)
    from ok [OF 2(1)] persisted [OF 2(1)] 2 rid show ?thesis by (auto simp: send_ok_def)
  next
    case (3 g)
    from ok [OF 3(1)] persisted [OF 3(1)] 3 rid show ?thesis by (auto simp: send_ok_def)
  qed simp
qed


section \<open>The invariant\<close>

definition votes_held :: "NodeId list \<Rightarrow> System \<Rightarrow> bool" where
  "votes_held members s \<longleftrightarrow> (\<forall>t v c. voted (net s) t v c \<longrightarrow> v \<in> set members \<and>
     holds_vote (persistent (nodes s v)) t c \<and> holds_vote (disks s v) t c)"

definition votes_unique :: "System \<Rightarrow> bool" where
  "votes_unique s \<longleftrightarrow> (\<forall>t v c d. voted (net s) t v c \<longrightarrow> voted (net s) t v d \<longrightarrow> c = d)"

text \<open>Votes are granted to candidates only, in terms from 1 on.\<close>

definition votes_asked :: "System \<Rightarrow> bool" where
  "votes_asked s \<longleftrightarrow> (\<forall>t v c. voted (net s) t v c \<longrightarrow> candidacy (net s) t c \<and> 0 < t)"

definition grants_received :: "NodeId list \<Rightarrow> System \<Rightarrow> bool" where
  "grants_received members s \<longleftrightarrow> (\<forall>i \<in> set members. role (nodes s i) = Candidate \<longrightarrow>
     (\<forall>v \<in> granted (nodes s i). v = i \<or> vote_grant (net s) (cterm (nodes s i)) v i))"

definition leaders_elected :: "NodeId list \<Rightarrow> System \<Rightarrow> bool" where
  "leaders_elected members s \<longleftrightarrow> (\<forall>i \<in> set members. role (nodes s i) = Leader \<longrightarrow>
     elected members s (cterm (nodes s i)) i)"

lemma votes_held_handled:
  assumes "nodes_ok members s" "votes_held members s" "node_step members s i ev r as"
  shows "votes_held members (handled s i r (take n as))"
  unfolding votes_held_def
proof (intro allI impI)
  fix t v c
  let ?s = "handled s i r (take n as)"
  assume v: "voted (net ?s) t v c"
  have i: "i \<in> set members" and st: "raft_step Debug (nodes s i) ev = Inr (r, as)"
    using assms(3) by (simp_all add: node_step_def)
  show "v \<in> set members \<and> holds_vote (persistent (nodes ?s v)) t c \<and> holds_vote (disks ?s v) t c"
  proof (cases "voted (net s) t v c")
    case True
    with assms(2) have h: "v \<in> set members" "holds_vote (persistent (nodes s v)) t c"
        "holds_vote (disks s v) t c"
      by (simp_all add: votes_held_def)
    with holds_vote_step [OF st, of t c] show ?thesis by auto
  next
    case False
    with new_vote [OF assms(1,3), of n t v c] v i show ?thesis by (auto simp: holds_vote_def)
  qed
qed

lemma votes_unique_handled:
  assumes "nodes_ok members s" "votes_held members s" "votes_unique s"
    and "node_step members s i ev r as"
  shows "votes_unique (handled s i r (take n as))"
  unfolding votes_unique_def
proof (intro allI impI)
  fix t v c d
  let ?s = "handled s i r (take n as)"
  assume v: "voted (net ?s) t v c" "voted (net ?s) t v d"
  have st: "raft_step Debug (nodes s i) ev = Inr (r, as)"
    using assms(4) by (simp add: node_step_def)
  have old: "voted (net s) t i x \<Longrightarrow> holds_vote (persistent r) t x" for x
    using assms(2) holds_vote_step [OF st] by (auto simp: votes_held_def)
  have new: "x = y" if "voted (net s) t v x" "v = i" "t = cterm r" "vote r = Some y" for x y
    using old that by (auto simp: holds_vote_def)
  from new_vote [OF assms(1,4), of n t v c] new_vote [OF assms(1,4), of n t v d] v new assms(3)
  show "c = d" by (auto simp: votes_unique_def)
qed

lemma candidacy_handled:
  assumes "candidacy (net s @ sends (take n as)) t c" "raft_step Debug (nodes s i) ev = Inr (r, as)"
  shows "candidacy (net s) t c \<or> 0 < t"
  using assms(1) raft_step_sends [OF assms(2)]
  by (fastforce simp: candidacy_def send_ok_def dest: in_set_takeD)

lemma grant_asked:
  assumes "node_step members s i ev r as" "Send c (MRequestVoteResponse g) \<in> set (take n as)"
    "vote_granted g"
  shows "candidacy (net s) (rvr_term g) c"
proof -
  from assms(1) have st: "raft_step Debug (nodes s i) ev = Inr (r, as)" and poss: "possible s i ev"
    by (auto simp: node_step_def)
  from raft_step_sends [OF st in_set_takeD [OF assms(2)]] assms(3)
  obtain m where "ev = EvMessage (MRequestVote m)" "c = candidate_id m" "rvr_term g = rv_term m"
    by (auto simp: send_ok_def)
  with poss show ?thesis by (auto simp: candidacy_def possible_def)
qed

lemma votes_asked_handled:
  assumes "votes_asked s" "node_step members s i ev r as"
  shows "votes_asked (handled s i r (take n as))"
  unfolding votes_asked_def
proof (intro allI impI)
  fix t v c
  let ?s = "handled s i r (take n as)"
  assume v: "voted (net ?s) t v c"
  have sub: "set (net s) \<subseteq> set (net ?s)" by simp
  have st: "raft_step Debug (nodes s i) ev = Inr (r, as)"
    using assms(2) by (simp add: node_step_def)
  have old: "0 < t" if "candidacy (net s) t c"
    using assms(1) that by (auto simp: votes_asked_def voted_def)
  have "candidacy (net ?s) t c"
  proof (cases "vote_grant (net s) t v c \<or> candidacy (net ?s) t c")
    case True
    with assms(1) candidacy_mono [OF _ sub] show ?thesis by (auto simp: votes_asked_def voted_def)
  next
    case False
    with v grant_asked [OF assms(2), of c _ n] candidacy_mono [OF _ sub] show ?thesis
      by (fastforce simp: voted_def vote_grant_def)
  qed
  then show "candidacy (net ?s) t c \<and> 0 < t"
    using candidacy_handled [OF _ st, of n t c] old by auto
qed


text \<open>The vote that an event brings is on the network.\<close>

lemma fresh_grant_on_net:
  assumes "possible s i ev" "v \<in> fresh_grant (nodes s i) ev"
  shows "vote_grant (net s) (cterm (nodes s i)) v i"
  using assms by (auto simp: fresh_grant_def possible_def vote_grant_def)

lemma granted_on_net:
  assumes "grants_received members s" "node_step members s i ev r as"
    and "role (nodes s i) = Candidate" "v \<in> granted (nodes s i) \<union> fresh_grant (nodes s i) ev"
  shows "v = i \<or> vote_grant (net s) (cterm (nodes s i)) v i"
  using assms fresh_grant_on_net [of s i ev v] by (auto simp: grants_received_def node_step_def)

lemma grants_received_handled:
  assumes "nodes_ok members s" "grants_received members s" "node_step members s i ev r as"
  shows "grants_received members (handled s i r (take n as))"
  unfolding grants_received_def
proof (intro ballI impI)
  fix j v
  let ?s = "handled s i r (take n as)"
  assume j: "j \<in> set members" "role (nodes ?s j) = Candidate" "v \<in> granted (nodes ?s j)"
  have sub: "set (net s) \<subseteq> set (net ?s)" by simp
  show "v = j \<or> vote_grant (net ?s) (cterm (nodes ?s j)) v j"
  proof (cases "j = i")
    case False
    with j have "v = j \<or> vote_grant (net s) (cterm (nodes s j)) v j"
      using assms(2) by (auto simp: grants_received_def)
    with False vote_grant_mono [OF _ sub] show ?thesis by fastforce
  next
    case True
    have st: "raft_step Debug (nodes s i) ev = Inr (r, as)" and i: "i \<in> set members"
      using assms(3) by (simp_all add: node_step_def)
    have wf: "node_wf (nodes s i)" and rid: "raft_id (nodes s i) = i"
      using assms(1) i by (simp_all add: nodes_ok_def)
    from raft_step_role_change [OF wf st] j True
    have "v = i \<or> (role (nodes s i) = Candidate \<and> cterm r = cterm (nodes s i) \<and>
        v \<in> granted (nodes s i) \<union> fresh_grant (nodes s i) ev)"
      by (auto simp: role_change_def rid)
    with granted_on_net [OF assms(2,3)] vote_grant_mono [OF _ sub] True show ?thesis by fastforce
  qed
qed

text \<open>A candidate whose granted votes are a majority is elected on the network.\<close>

lemma elected_by_grants:
  assumes "cluster_ok members" "i \<in> set members" "votes_asked s"
    and "majority members A" "\<And>v. v \<in> A \<Longrightarrow> v = i \<or> vote_grant (net s) t v i"
  shows "elected members s t i"
proof -
  have "2 \<le> card A"
    using assms(1,4) by (simp add: cluster_ok_def majority_def) linarith
  then obtain v where "v \<in> A" "v \<noteq> i"
    by (metis card_le_Suc0_iff_eq card.infinite not_less_eq_eq numeral_2_eq_2 zero_le
        not_less_eq_eq)
  with assms(3,5) have "candidacy (net s) t i"
    by (auto simp: votes_asked_def voted_def)
  with assms(4,5) show ?thesis by (auto simp: elected_def voted_def)
qed

lemma leader_after_step:
  assumes "cluster_ok members" "nodes_ok members s" "grants_received members s" "votes_asked s"
    "leaders_elected members s" "node_step members s i ev r as" "role r = Leader"
  shows "elected members s (cterm r) i \<and> cterm r = cterm (nodes s i) \<and>
    (role (nodes s i) = Leader \<or> role (nodes s i) = Candidate)"
proof -
  have st: "raft_step Debug (nodes s i) ev = Inr (r, as)" and i: "i \<in> set members"
    using assms(6) by (simp_all add: node_step_def)
  have wf: "node_wf (nodes s i)" and rid: "raft_id (nodes s i) = i"
    and ps: "peers (nodes s i) = others members i"
    using assms(2) i by (simp_all add: nodes_ok_def)
  have nonempty: "peers (nodes s i) \<noteq> []"
    using assms(1) length_others [of members i] i ps by (auto simp: cluster_ok_def)
  have q: "quorum (nodes s i) = length members div 2 + 1"
    using quorum_is_majority [OF _ i ps] assms(1) by (simp add: cluster_ok_def)
  from raft_step_role_change [OF wf st] assms(7) nonempty consider
      "role (nodes s i) = Leader" "cterm r = cterm (nodes s i)"
    | A where "role (nodes s i) = Candidate" "cterm r = cterm (nodes s i)"
        "A \<subseteq> insert i (set (peers (nodes s i)))" "quorum (nodes s i) \<le> card A"
        "A \<subseteq> granted (nodes s i) \<union> fresh_grant (nodes s i) ev"
    by (auto simp: role_change_def rid)
  then show ?thesis
  proof cases
    case 1
    with assms(5) i show ?thesis by (simp add: leaders_elected_def)
  next
    case (2 A)
    have "majority members A" using 2(3,4) i q ps by (auto simp: majority_def)
    from elected_by_grants [OF assms(1) i assms(4) this, of "cterm r"]
      granted_on_net [OF assms(3,6) 2(1)] 2(1,2,5) show ?thesis by auto
  qed
qed

lemma leaders_elected_handled:
  assumes "cluster_ok members" "nodes_ok members s" "grants_received members s" "votes_asked s"
    "leaders_elected members s" "node_step members s i ev r as"
  shows "leaders_elected members (handled s i r (take n as))"
  unfolding leaders_elected_def
proof (intro ballI impI)
  fix j
  let ?s = "handled s i r (take n as)"
  assume j: "j \<in> set members" "role (nodes ?s j) = Leader"
  have "elected members s (cterm (nodes ?s j)) j"
    using j assms(5) leader_after_step [OF assms] by (cases "j = i") (auto simp: leaders_elected_def)
  from elected_mono [OF this, of ?s] show "elected members ?s (cterm (nodes ?s j)) j" by simp
qed

section \<open>Reachable systems\<close>

definition election_inv :: "NodeId list \<Rightarrow> System \<Rightarrow> bool" where
  "election_inv members s \<longleftrightarrow> nodes_ok members s \<and> votes_held members s \<and> votes_unique s \<and>
     votes_asked s \<and> grants_received members s \<and> leaders_elected members s"

lemma election_inv_init:
  assumes "cluster_ok members"
  shows "election_inv members (sys_init members)"
  using reachable_nodes_ok [OF assms reachable.init]
  by (simp add: election_inv_def sys_init_def raft_init_def votes_held_def votes_unique_def
      votes_asked_def grants_received_def leaders_elected_def vote_defs)

lemma election_inv_handled:
  assumes "cluster_ok members" "election_inv members s" "node_step members s i ev r as"
  shows "election_inv members (handled s i r (take n as))"
proof -
  have wf: "node_wf (nodes s i)" and i: "i \<in> set members"
    using assms by (simp_all add: election_inv_def nodes_ok_def node_step_def)
  have "nodes_ok members (handled s i r (take n as))"
    using assms raft_step_node_wf [OF wf] raft_step_identity
    by (fastforce simp: election_inv_def nodes_ok_def node_step_def)
  with assms show ?thesis
    unfolding election_inv_def
    by (blast intro: votes_held_handled votes_unique_handled votes_asked_handled
        grants_received_handled leaders_elected_handled)
qed

definition restart_from_disk :: "NodeId list \<Rightarrow> NodeId \<Rightarrow> System \<Rightarrow> System" where
  "restart_from_disk members i s =
     s\<lparr>nodes := (nodes s)(i := (raft_init i (others members i))\<lparr>persistent := disks s i\<rparr>),
       apps := (apps s)(i := [])\<rparr>"

lemma restart_from_disk_simps [simp]:
  "nodes (restart_from_disk members i s) =
     (nodes s)(i := (raft_init i (others members i))\<lparr>persistent := disks s i\<rparr>)"
  "disks (restart_from_disk members i s) = disks s"
  "net (restart_from_disk members i s) = net s"
  "elected members (restart_from_disk members i s) = elected members s"
  by (simp_all add: restart_from_disk_def elected_def fun_eq_iff)

lemma election_inv_restart:
  assumes "cluster_ok members" "election_inv members s" "i \<in> set members"
  shows "election_inv members (restart_from_disk members i s)"
proof -
  let ?s = "restart_from_disk members i s"
  have "nodes_ok members ?s"
    using assms node_wf_restored [OF peers_ok_others [OF assms(1)]]
    by (auto simp: election_inv_def nodes_ok_def raft_init_def)
  then show ?thesis using assms(2)
    by (auto simp: election_inv_def raft_init_def votes_held_def votes_unique_def
        votes_asked_def grants_received_def leaders_elected_def)
qed

lemma reachable_election_inv:
  assumes "cluster_ok members" "reachable members s"
  shows "election_inv members s"
  using assms(2)
  by (induction rule: reachable_invariant)
     (auto intro: election_inv_init election_inv_handled election_inv_restart [unfolded restart_from_disk_def]
       assms(1))

lemma elected_unique:
  assumes "votes_unique s" "elected members s t c" "elected members s t d"
  shows "c = d"
  using assms maj.one_winner [of "voted (net s) t" members _ c _ d]
  unfolding elected_def votes_unique_def by blast

lemma single_leader:
  assumes "cluster_ok members" "reachable members s"
    and "i \<in> set members" "j \<in> set members"
    and "role (nodes s i) = Leader" "role (nodes s j) = Leader"
    and "cterm (nodes s i) = cterm (nodes s j)"
  shows "i = j"
proof -
  have inv: "votes_unique s" "leaders_elected members s"
    using reachable_election_inv [OF assms(1,2)] by (simp_all add: election_inv_def)
  have "elected members s (cterm (nodes s i)) i"
    using inv(2) assms(3,5) by (simp add: leaders_elected_def)
  moreover have "elected members s (cterm (nodes s j)) j"
    using inv(2) assms(4,6) by (simp add: leaders_elected_def)
  ultimately show ?thesis using elected_unique [OF inv(1)] assms(7) by simp
qed

text \<open>C1: election safety. In every reachable state of the cluster, two leaders of the same
  term are the same node; more generally, at most one node was ever elected in a term, and
  every leader was.\<close>

theorem election_safety:
  assumes "cluster_ok members" "reachable members s"
    and "i \<in> set members" "j \<in> set members"
    and "role (nodes s i) = Leader" "role (nodes s j) = Leader"
    and "cterm (nodes s i) = cterm (nodes s j)"
  shows "i = j"
  using assms by (rule single_leader)


theorem election_safety_witness:
  "\<exists>s. reachable members3 s \<and> role (nodes s 1) = Leader \<and>
     (\<forall>j \<in> set members3. role (nodes s j) = Leader \<and> cterm (nodes s j) = cterm (nodes s 1) \<longrightarrow> 1 = j)"
proof -
  obtain s where s: "reachable members3 s" "role (nodes s 1) = Leader"
    using one_election_reachable by blast
  have "1 \<in> set members3" by (simp add: members3_def)
  with election_safety [OF members3_ok s(1), of 1] s show ?thesis by fastforce
qed

end
