(* ===== verification/Replication.thy ===== *)
theory Replication
  imports NodeSafety LogProps
begin

text \<open>
  Functional correctness of log replication on one node: what an accepted and a rejected
  \<open>AppendEntries\<close> do to the log, what a leader sends, when its commit index moves, which
  commands are handed to the state machine and in which order, and how replies move the
  leader's bookkeeping. The logs are contiguous, which every reachable log is (theory
  \<open>LogMatching\<close>).
\<close>

section \<open>Applying committed entries\<close>

definition newly_applied :: "Raft \<Rightarrow> Command list" where
  "newly_applied r =
     map command (take (unat (rcommit r) - unat (rapplied r)) (drop (unat (rapplied r)) (rlog r)))"

lemma apply_committed_entries_eq:
  assumes "contiguous 0 (rlog r)" "unat (rcommit r) \<le> length (rlog r)"
  shows "apply_committed_entries r =
    (r\<lparr>volatile := (volatile r)\<lparr>last_applied := max (rapplied r) (rcommit r)\<rparr>\<rparr>,
     map ApplyCommand (newly_applied r))"
  using apply_loop_final [of "rlog r" "rcommit r" "rapplied r"]
    apply_loop_actions [OF assms, of "rapplied r"]
  by (simp add: apply_committed_entries_def newly_applied_def case_prod_beta comp_def)

text \<open>C40: applying emits the commands of exactly the entries between \<open>last_applied\<close> and
  \<open>commit_index\<close>, each once and in log order, and leaves \<open>last_applied\<close> at the commit index.\<close>

theorem applies_committed_in_order:
  assumes "contiguous 0 (rlog r)" "unat (rcommit r) \<le> length (rlog r)"
    and "apply_committed_entries r = (r', as)"
  shows "applied_commands as = map command
      (take (unat (rcommit r) - unat (rapplied r)) (drop (unat (rapplied r)) (rlog r))) \<and>
    as = map ApplyCommand (applied_commands as) \<and>
    rapplied r' = max (rapplied r) (rcommit r)"
  using assms(3) unfolding apply_committed_entries_eq [OF assms(1,2)]
  by (auto simp: newly_applied_def simp del: map_map)

definition sample_entry :: "u64 \<Rightarrow> u64 \<Rightarrow> string \<Rightarrow> LogEntry" where
  "sample_entry t i v = \<lparr>entry_term = t, index = i, command = command_set ''key'' v\<rparr>"

definition sample_follower :: Raft where
  "sample_follower = (raft_init 2 [1, 3])
     \<lparr>persistent := \<lparr>current_term = 2, voted_for = None,
        log = [sample_entry 1 1 ''a'', sample_entry 1 2 ''b'', sample_entry 1 3 ''c'']\<rparr>,
      volatile := \<lparr>commit_index = 2, last_applied = 0\<rparr>\<rparr>"

lemma sample_follower_simps [simp]:
  "rlog sample_follower = [sample_entry 1 1 ''a'', sample_entry 1 2 ''b'', sample_entry 1 3 ''c'']"
  "rcommit sample_follower = 2" "rapplied sample_follower = 0" "cterm sample_follower = 2"
  "role sample_follower = Follower" "raft_id sample_follower = 2" "peers sample_follower = [1, 3]"
  "contiguous 0 [sample_entry 1 1 ''a'', sample_entry 1 2 ''b'', sample_entry 1 3 ''c'']"
  by (simp_all add: sample_follower_def raft_init_def contiguous_Cons sample_entry_def)

theorem applies_committed_in_order_witness:
  "\<exists>r' as. apply_committed_entries sample_follower = (r', as) \<and>
     applied_commands as = [command_set ''key'' ''a'', command_set ''key'' ''b''] \<and> rapplied r' = 2"
proof -
  obtain r' as where ap: "apply_committed_entries sample_follower = (r', as)" by fastforce
  have "contiguous 0 (rlog sample_follower)" "unat (rcommit sample_follower) \<le> length (rlog sample_follower)"
    by simp_all
  from applies_committed_in_order [OF this ap] ap show ?thesis
    by (simp add: sample_entry_def max_def)
qed

section \<open>The receiver of AppendEntries\<close>

text \<open>The message is acceptable: its term is not stale and the previous entry is present.\<close>

definition acceptable :: "Raft \<Rightarrow> AppendEntries \<Rightarrow> bool" where
  "acceptable r m \<longleftrightarrow> cterm r \<le> ae_term m \<and> log_matches r (prev_log_index m) (prev_log_term m)"

definition last_new :: "AppendEntries \<Rightarrow> LogIndex" where
  "last_new m = (if entries m = [] then prev_log_index m else index (last (entries m)))"

text \<open>The state of an accepting node before it applies entries.\<close>

definition ae_accepted :: "Raft \<Rightarrow> AppendEntries \<Rightarrow> Raft" where
  "ae_accepted r m =
     (let s = (if cterm r < ae_term m then step_down r (ae_term m)
               else if role r = Candidate then r\<lparr>role := Follower, candidate_state := None\<rparr> else r) in
      s\<lparr>known_leader := Some (leader_id m),
        persistent := (persistent s)\<lparr>log := reconcile (rlog r) (entries m)\<rparr>,
        volatile := (volatile r)\<lparr>commit_index :=
          (if rcommit r < leader_commit m then min (leader_commit m) (last_new m) else rcommit r)\<rparr>\<rparr>)"

lemma log_matches_cong: "rlog r = rlog r' \<Longrightarrow> log_matches r i t = log_matches r' i t"
  by (simp add: log_matches_def)

lemma append_entries_accept:
  assumes "acceptable r m"
  shows "handle_append_entries r m =
    (let (r', as) = apply_committed_entries (ae_accepted r m) in
     (r', [PersistState, ResetElectionTimer, append_entries_response r' (leader_id m) True] @ as))"
proof -
  have cong: "log_matches r' (prev_log_index m) (prev_log_term m)" if "rlog r' = rlog r" for r'
    using assms log_matches_cong [OF that] by (simp add: acceptable_def)
  have last: "(case entries m of [] \<Rightarrow> prev_log_index m | es \<Rightarrow> index (last es)) = last_new m"
    by (simp add: last_new_def split: list.split)
  have vol: "r''\<lparr>volatile := (volatile r'')\<lparr>commit_index := rcommit r''\<rparr>\<rparr> = r''" for r'' :: Raft
    by simp
  from assms have "\<not> ae_term m < cterm r" by (simp add: acceptable_def not_less)
  with cong last show ?thesis
    unfolding handle_append_entries_def ae_accepted_def Let_def case_prod_beta
    by (auto simp: not_less step_down_def)
qed

lemma append_entries_reject:
  assumes "\<not> acceptable r m"
  shows "\<exists>r'. handle_append_entries r m = (r', [append_entries_response r' (leader_id m) False]) \<and>
    rlog r' = rlog r \<and> volatile r' = volatile r \<and> cterm r' = max (cterm r) (ae_term m) \<and>
    raft_id r' = raft_id r"
proof (cases "ae_term m < cterm r")
  case True
  then show ?thesis by (auto simp: handle_append_entries_def Let_def max_def)
next
  case False
  with assms have no: "\<not> log_matches r' (prev_log_index m) (prev_log_term m)"
    if "rlog r' = rlog r" for r'
    using log_matches_cong [OF that] by (simp add: acceptable_def)
  with False show ?thesis
    unfolding handle_append_entries_def Let_def by (auto simp: max_def)
qed

lemma ae_accepted_simps [simp]:
  "raft_id (ae_accepted r m) = raft_id r"
  "rlog (ae_accepted r m) = reconcile (rlog r) (entries m)"
  "known_leader (ae_accepted r m) = Some (leader_id m)"
  "rapplied (ae_accepted r m) = rapplied r"
  "rcommit (ae_accepted r m) =
     (if rcommit r < leader_commit m then min (leader_commit m) (last_new m) else rcommit r)"
  by (simp_all add: ae_accepted_def Let_def)

lemma cterm_ae_accepted: "acceptable r m \<Longrightarrow> cterm (ae_accepted r m) = ae_term m"
  by (auto simp: ae_accepted_def acceptable_def Let_def)

lemma append_entries_accepted_state:
  assumes "acceptable r m" "handle_append_entries r m = (r', as)"
  shows "persistent r' = persistent (ae_accepted r m) \<and> rcommit r' = rcommit (ae_accepted r m) \<and>
    rapplied r' = max (rapplied r) (rcommit r') \<and> raft_id r' = raft_id r \<and>
    known_leader r' = Some (leader_id m)"
proof -
  obtain s bs where ap: "apply_committed_entries (ae_accepted r m) = (s, bs)" by fastforce
  with assms(2) append_entries_accept [OF assms(1)] have "r' = s" by simp
  moreover have "rapplied s = max (rapplied r) (rcommit (ae_accepted r m))"
    using ap apply_loop_final by (auto simp: apply_committed_entries_def case_prod_beta)
  ultimately show ?thesis using apply_committed_entries_frame [OF ap] by simp
qed

text \<open>C12: an \<open>AppendEntries\<close> with the right previous entry leaves the receiver, whose entries
  agree with the new ones wherever the terms agree, with the log the protocol prescribes: its
  own log if it already holds all the new entries, otherwise the part up to the previous entry
  followed by the new entries. The log stays contiguous, the state is persisted before the
  success reply, and the commit index becomes the smaller of the leader's and the last new one
  when the leader's is ahead.\<close>

theorem append_entries_overwrites_suffix:
  assumes "contiguous 0 (rlog r)" "contiguous (unat (prev_log_index m)) (entries m)" "acceptable r m"
    and "\<And>j. j < length (entries m) \<Longrightarrow> unat (prev_log_index m) + j < length (rlog r) \<Longrightarrow>
      entry_term (rlog r ! (unat (prev_log_index m) + j)) = entry_term (entries m ! j) \<Longrightarrow>
      rlog r ! (unat (prev_log_index m) + j) = entries m ! j"
    and "handle_append_entries r m = (r', as)"
  shows "rlog r' =
      (if take (length (entries m)) (drop (unat (prev_log_index m)) (rlog r)) = entries m then rlog r
       else take (unat (prev_log_index m)) (rlog r) @ entries m) \<and>
    contiguous 0 (rlog r') \<and> cterm r' = ae_term m \<and>
    rcommit r' = (if rcommit r < leader_commit m then min (leader_commit m) (last_new m)
                  else rcommit r) \<and>
    (\<exists>bs. as = PersistState # ResetElectionTimer # Send (leader_id m) (MAppendEntriesResponse
      \<lparr>aer_term = ae_term m, success = True, aer_from = raft_id r,
       aer_match_index = last_log_index r'\<rparr>) # bs)"
proof -
  let ?k = "unat (prev_log_index m)"
  have le: "?k \<le> length (rlog r)"
    using assms(1,3) by (cases "prev_log_index m = 0")
      (auto simp: acceptable_def log_matches_contiguous)
  have st: "persistent r' = persistent (ae_accepted r m)" "rcommit r' = rcommit (ae_accepted r m)"
    "raft_id r' = raft_id r"
    using append_entries_accepted_state [OF assms(3,5)] by auto
  have log: "rlog r' = reconcile (rlog r) (entries m)" using st(1) by simp
  have t: "cterm r' = ae_term m" using st(1) cterm_ae_accepted [OF assms(3)] by simp
  have "\<exists>bs. as = [PersistState, ResetElectionTimer, append_entries_response r' (leader_id m) True] @ bs"
    using assms(5) append_entries_accept [OF assms(3)] by (auto split: prod.splits)
  then have acts: "\<exists>bs. as = PersistState # ResetElectionTimer # Send (leader_id m)
      (MAppendEntriesResponse \<lparr>aer_term = ae_term m, success = True, aer_from = raft_id r,
       aer_match_index = last_log_index r'\<rparr>) # bs"
    using t st(3) by (simp add: append_entries_response_def)
  have spec: "rlog r' =
      (if take (length (entries m)) (drop ?k (rlog r)) = entries m then rlog r
       else take ?k (rlog r) @ entries m)"
    unfolding log by (rule reconcile_agree [OF assms(1,2) le assms(4)])
  have cont: "contiguous 0 (rlog r')"
    unfolding log by (rule contiguous_reconcile [OF assms(1,2) le])
  have commit: "rcommit r' = (if rcommit r < leader_commit m then min (leader_commit m) (last_new m)
      else rcommit r)"
    using st(2) by simp
  from spec cont t commit acts show ?thesis by blast
qed

definition sample_append :: AppendEntries where
  "sample_append = \<lparr>ae_term = 2, leader_id = 1, prev_log_index = 2, prev_log_term = 1,
     entries = [sample_entry 2 3 ''x''], leader_commit = 3\<rparr>"

theorem append_entries_overwrites_suffix_witness:
  "\<exists>r' as. handle_append_entries sample_follower sample_append = (r', as) \<and>
     rlog r' = [sample_entry 1 1 ''a'', sample_entry 1 2 ''b'', sample_entry 2 3 ''x''] \<and>
     rcommit r' = 3"
proof -
  obtain r' as where h: "handle_append_entries sample_follower sample_append = (r', as)" by fastforce
  have h1: "contiguous 0 (rlog sample_follower)" by simp
  have h2: "contiguous (unat (prev_log_index sample_append)) (entries sample_append)"
    by (simp add: sample_append_def contiguous_Cons sample_entry_def)
  have h3: "acceptable sample_follower sample_append"
    by (simp add: sample_append_def sample_entry_def acceptable_def log_matches_def)
  have h4: "rlog sample_follower ! (unat (prev_log_index sample_append) + j) = entries sample_append ! j"
    if "j < length (entries sample_append)"
      "entry_term (rlog sample_follower ! (unat (prev_log_index sample_append) + j)) =
        entry_term (entries sample_append ! j)" for j
    using that by (simp add: sample_append_def sample_entry_def)
  from append_entries_overwrites_suffix [OF h1 h2 h3 h4 h] h show ?thesis
    by (simp add: sample_append_def sample_entry_def last_new_def)
qed

text \<open>An \<open>AppendEntries\<close> that is stale, or whose previous entry the receiver lacks, changes
  neither the log nor the commit and apply indices; the receiver answers with a failure that
  carries its term, which is the larger of the two. No election timer is reset.\<close>

theorem append_entries_rejected:
  assumes "ae_term m < cterm r \<or> \<not> log_matches r (prev_log_index m) (prev_log_term m)"
  shows "\<exists>r'. handle_append_entries r m = (r', [Send (leader_id m) (MAppendEntriesResponse
      \<lparr>aer_term = max (cterm r) (ae_term m), success = False, aer_from = raft_id r,
       aer_match_index = 0\<rparr>)]) \<and>
    rlog r' = rlog r \<and> volatile r' = volatile r \<and> cterm r' = max (cterm r) (ae_term m)"
proof -
  have "\<not> acceptable r m" using assms by (auto simp: acceptable_def not_le)
  from append_entries_reject [OF this] show ?thesis by (auto simp: append_entries_response_def)
qed

theorem append_entries_rejected_witness:
  "\<exists>r'. handle_append_entries sample_follower (sample_append\<lparr>ae_term := 1\<rparr>) =
     (r', [Send 1 (MAppendEntriesResponse \<lparr>aer_term = 2, success = False, aer_from = 2,
       aer_match_index = 0\<rparr>)]) \<and> rlog r' = rlog sample_follower"
proof -
  have "ae_term (sample_append\<lparr>ae_term := 1\<rparr>) < cterm sample_follower \<or>
    \<not> log_matches sample_follower (prev_log_index (sample_append\<lparr>ae_term := 1\<rparr>))
        (prev_log_term (sample_append\<lparr>ae_term := 1\<rparr>))"
    by (simp add: sample_append_def)
  from append_entries_rejected [OF this] obtain r' where
      "handle_append_entries sample_follower (sample_append\<lparr>ae_term := 1\<rparr>) =
        (r', [Send 1 (MAppendEntriesResponse \<lparr>aer_term = 2, success = False, aer_from = 2,
          aer_match_index = 0\<rparr>)])" "rlog r' = rlog sample_follower"
    by (auto simp: sample_append_def max_def)
  then show ?thesis by blast
qed

end
