(* ===== verification/LogMatching.thy ===== *)
theory LogMatching
  imports ElectionSafety Heartbeat Replication
begin

text \<open>
  Log matching in the cluster: two logs that agree on the term of an entry agree up to it.
  The invariant speaks of a family of logs, the \<^emph>\<open>versions\<close>: every log in memory and on disk
  is one of them, every \<open>AppendEntries\<close> on the network is the rest of a version from its
  previous entry on, and the versions match each other. A follower that accepts entries
  either keeps its log or takes over the sender's version; a leader adds a version when it
  appends a client's command.
\<close>

section \<open>Matching logs\<close>

definition logs_agree :: "LogEntry list \<Rightarrow> LogEntry list \<Rightarrow> bool" where
  "logs_agree xs ys \<longleftrightarrow> (\<forall>k. k < length xs \<longrightarrow> k < length ys \<longrightarrow>
     entry_term (xs ! k) = entry_term (ys ! k) \<longrightarrow> take (k + 1) xs = take (k + 1) ys)"

lemma logs_agreeD:
  "logs_agree xs ys \<Longrightarrow> k < length xs \<Longrightarrow> k < length ys \<Longrightarrow> entry_term (xs ! k) = entry_term (ys ! k) \<Longrightarrow>
     take (k + 1) xs = take (k + 1) ys"
  by (simp add: logs_agree_def)

lemma logs_agree_refl [simp]: "logs_agree xs xs"
  by (simp add: logs_agree_def)

lemma logs_agree_sym: "logs_agree xs ys \<Longrightarrow> logs_agree ys xs"
  by (simp add: logs_agree_def)

lemma logs_agree_nth:
  assumes "logs_agree xs ys" "k < length xs" "k < length ys" "entry_term (xs ! k) = entry_term (ys ! k)"
  shows "xs ! k = ys ! k"
proof -
  have "take (k + 1) xs ! k = take (k + 1) ys ! k"
    using logs_agreeD [OF assms] by simp
  then show ?thesis by simp
qed

text \<open>One more entry, of a term that the other log does not have at that index.\<close>

lemma logs_agree_snoc:
  assumes "logs_agree xs ys" "length xs < length ys \<Longrightarrow> entry_term (ys ! length xs) \<noteq> entry_term e"
  shows "logs_agree (xs @ [e]) ys"
  unfolding logs_agree_def
proof (intro allI impI)
  fix k
  assume k: "k < length (xs @ [e])" "k < length ys" "entry_term ((xs @ [e]) ! k) = entry_term (ys ! k)"
  have "k < length xs"
  proof (rule ccontr)
    assume "\<not> k < length xs"
    with k(1) have "k = length xs" by simp
    with assms(2) k(2,3) show False by simp
  qed
  with k assms(1) show "take (k + 1) (xs @ [e]) = take (k + 1) ys"
    by (simp add: logs_agree_def nth_append)
qed

section \<open>What a leader sends is the rest of its log\<close>

definition rest_of :: "LogEntry list \<Rightarrow> AppendEntries \<Rightarrow> bool" where
  "rest_of g m \<longleftrightarrow> (let k = unat (prev_log_index m) in
     (k \<le> length g \<and> entries m = drop k g \<and> (k = 0 \<or> entry_term (g ! (k - 1)) = prev_log_term m)) \<or>
     (length g < k \<and> prev_log_term m = 0 \<and> entries m = []))"

lemma rest_of_peer_append_entries:
  assumes "contiguous 0 (rlog r)"
  shows "rest_of (rlog r) (peer_append_entries r n)"
proof (cases "n \<le> 1")
  case True
  have "filter (\<lambda>e. n \<le> index e) (rlog r) = rlog r"
    using assms True by (auto simp: filter_id_conv in_set_conv_nth contiguous_nth word_le_nat_alt)
  with True show ?thesis
    by (simp add: rest_of_def peer_append_entries_def prev_log_info_def)
next
  case False
  then have n: "1 < unat n" by (simp add: word_le_nat_alt)
  have prev: "unat (n - 1) = unat n - 1"
    using False by (simp add: unat_sub word_le_nat_alt)
  have filter: "filter (\<lambda>e. n \<le> index e) (rlog r) = drop (unat n - 1) (rlog r)"
    using filter_index_ge [OF assms, of n] n by simp
  have find: "List.find (\<lambda>e. index e = n - 1) (rlog r) =
      (if unat n - 1 \<le> length (rlog r) then Some (rlog r ! (unat n - 2)) else None)"
    using find_index [OF assms, of "n - 1"] n prev by (simp add: numeral_2_eq_2)
  show ?thesis
    using False n filter find prev
    by (auto simp: rest_of_def peer_append_entries_def prev_log_info_def Let_def numeral_2_eq_2)
qed

section \<open>What a follower makes of it\<close>

text \<open>A log without entries of term 0 that matches the sender's version ends up with one of the two.\<close>

lemma reconcile_takes_version:
  assumes "contiguous 0 (rlog r)" "contiguous 0 g" "logs_agree (rlog r) g" "rest_of g m"
    and "log_matches r (prev_log_index m) (prev_log_term m)"
    and "\<And>e. e \<in> set (rlog r) \<Longrightarrow> 0 < entry_term e"
  shows "reconcile (rlog r) (entries m) = (if take (length g) (rlog r) = g then rlog r else g)"
proof -
  let ?k = "unat (prev_log_index m)"
  have pos: "prev_log_index m \<noteq> 0 \<longleftrightarrow> 0 < ?k" by (simp add: unat_gt_0)
  have matches: "?k = 0 \<or> (?k \<le> length (rlog r) \<and> entry_term (rlog r ! (?k - 1)) = prev_log_term m)"
    using assms(5) log_matches_contiguous [OF assms(1)] by auto
  have "\<not> length g < ?k \<or> prev_log_term m \<noteq> 0"
  proof (rule ccontr)
    assume "\<not> ?thesis"
    then have "0 < ?k" "prev_log_term m = 0" by auto
    with matches have "?k - 1 < length (rlog r)" "entry_term (rlog r ! (?k - 1)) = 0" by auto
    with assms(6) [OF nth_mem [of "?k - 1" "rlog r"]] show False by simp
  qed
  with assms(4) have le: "?k \<le> length g" and es: "entries m = drop ?k g"
    and term_g: "?k = 0 \<or> entry_term (g ! (?k - 1)) = prev_log_term m"
    by (auto simp: rest_of_def Let_def)
  have pre: "take ?k (rlog r) = take ?k g"
  proof (cases "?k = 0")
    case False
    with matches term_g le logs_agreeD [OF assms(3), of "?k - 1"] show ?thesis by auto
  qed simp
  have le_r: "?k \<le> length (rlog r)" using matches by auto
  have cont: "contiguous ?k (entries m)"
    using contiguous_drop [OF assms(2) le] es by simp
  have "reconcile (rlog r) (entries m) =
      (if take (length (entries m)) (drop ?k (rlog r)) = entries m then rlog r
       else take ?k (rlog r) @ entries m)"
  proof (rule reconcile_agree [OF assms(1) cont le_r])
    fix j
    assume "j < length (entries m)" "?k + j < length (rlog r)"
      "entry_term (rlog r ! (?k + j)) = entry_term (entries m ! j)"
    then show "rlog r ! (?k + j) = entries m ! j"
      using es le logs_agree_nth [OF assms(3), of "?k + j"] by simp
  qed
  moreover have "take (length (entries m)) (drop ?k (rlog r)) = entries m \<longleftrightarrow> take (length g) (rlog r) = g"
  proof -
    have "take (length g) (rlog r) = take ?k (rlog r) @ take (length g - ?k) (drop ?k (rlog r))"
      using le by (metis le_add_diff_inverse take_add)
    moreover have "g = take ?k g @ drop ?k g" by simp
    ultimately show ?thesis using pre es le_r le
      by (metis append_eq_append_conv length_drop)
  qed
  moreover have "take ?k (rlog r) @ entries m = g" using pre es by simp
  ultimately show ?thesis by simp
qed

lemma reconcile_version:
  assumes "contiguous 0 (rlog r)" "contiguous 0 g" "logs_agree (rlog r) g" "rest_of g m"
    and "log_matches r (prev_log_index m) (prev_log_term m)"
    and "\<And>e. e \<in> set (rlog r) \<Longrightarrow> 0 < entry_term e"
  shows "reconcile (rlog r) (entries m) \<in> {rlog r, g}"
  using reconcile_takes_version [OF assms] by simp


section \<open>The invariant\<close>

text \<open>The node elected in the term is past its candidacy for it.\<close>

definition settled :: "NodeId list \<Rightarrow> System \<Rightarrow> Term \<Rightarrow> bool" where
  "settled members s t \<longleftrightarrow> (\<exists>c. elected members s t c \<and> (t < cterm (nodes s c) \<or>
     (t = cterm (nodes s c) \<and> role (nodes s c) \<noteq> Candidate)))"

definition versions_ok :: "NodeId list \<Rightarrow> LogEntry list set \<Rightarrow> System \<Rightarrow> bool" where
  "versions_ok members F s \<longleftrightarrow> (\<forall>g \<in> F. contiguous 0 g) \<and> (\<forall>g \<in> F. \<forall>h \<in> F. logs_agree g h) \<and>
     (\<forall>g \<in> F. \<forall>e \<in> set g. settled members s (entry_term e))"

definition logs_in :: "NodeId list \<Rightarrow> LogEntry list set \<Rightarrow> System \<Rightarrow> bool" where
  "logs_in members F s \<longleftrightarrow> (\<forall>i \<in> set members. rlog (nodes s i) \<in> F \<and> log (disks s i) \<in> F)"

definition appends_ok :: "NodeId list \<Rightarrow> LogEntry list set \<Rightarrow> System \<Rightarrow> bool" where
  "appends_ok members F s \<longleftrightarrow> (\<forall>to m. (to, MAppendEntries m) \<in> set (net s) \<longrightarrow>
     to \<noteq> leader_id m \<and> elected members s (ae_term m) (leader_id m) \<and> (\<exists>g \<in> F. rest_of g m))"

text \<open>A leader's log holds every entry of its term that exists.\<close>

definition leader_owns :: "NodeId list \<Rightarrow> LogEntry list set \<Rightarrow> System \<Rightarrow> bool" where
  "leader_owns members F s \<longleftrightarrow> (\<forall>i \<in> set members. role (nodes s i) = Leader \<longrightarrow>
     (\<forall>g \<in> F. \<forall>k < length g. entry_term (g ! k) = cterm (nodes s i) \<longrightarrow>
        k < length (rlog (nodes s i)) \<and> entry_term (rlog (nodes s i) ! k) = cterm (nodes s i)))"

definition log_inv :: "NodeId list \<Rightarrow> LogEntry list set \<Rightarrow> System \<Rightarrow> bool" where
  "log_inv members F s \<longleftrightarrow> versions_ok members F s \<and> logs_in members F s \<and>
     appends_ok members F s \<and> leader_owns members F s"

lemmas log_inv_defs = log_inv_def versions_ok_def logs_in_def appends_ok_def leader_owns_def

lemma elected_member:
  assumes "election_inv members s" "elected members s t c"
  shows "c \<in> set members \<and> voted (net s) t c c \<and> 0 < t"
proof -
  from assms(2) obtain A where A: "majority members A" "\<forall>v \<in> A. voted (net s) t v c"
    by (auto simp: elected_def)
  from maj.quorum_nonempty [OF A(1)] A(2) obtain v where "voted (net s) t v c" by blast
  with assms(1) have "candidacy (net s) t c" "0 < t"
    by (auto simp: election_inv_def votes_asked_def)
  moreover from this have "voted (net s) t c c" by (simp add: voted_def)
  ultimately show ?thesis using assms(1) by (simp add: election_inv_def votes_held_def)
qed

lemma settled_pos: "election_inv members s \<Longrightarrow> settled members s t \<Longrightarrow> 0 < t"
  by (auto simp: settled_def dest: elected_member)

lemma settled_handled:
  assumes "election_inv members s" "node_step members s i ev r as" "settled members s t"
  shows "settled members (handled s i r (take n as)) t"
proof -
  let ?s = "handled s i r (take n as)"
  from assms(3) obtain c where c: "elected members s t c" "t < cterm (nodes s c) \<or>
      (t = cterm (nodes s c) \<and> role (nodes s c) \<noteq> Candidate)"
    by (auto simp: settled_def)
  have i: "i \<in> set members" and st: "raft_step Debug (nodes s i) ev = Inr (r, as)"
    using assms(2) by (simp_all add: node_step_def)
  have wf: "node_wf (nodes s i)" using assms(1) i by (simp add: election_inv_def nodes_ok_def)
  have "t < cterm r \<or> (t = cterm r \<and> role r \<noteq> Candidate)" if "c = i"
    using c(2) that term_vote_step [OF st] raft_step_role_change [OF wf st]
    by (auto simp: term_vote_le_def role_change_def)
  with c(2) have "t < cterm (nodes ?s c) \<or> (t = cterm (nodes ?s c) \<and> role (nodes ?s c) \<noteq> Candidate)"
    by simp
  with elected_mono [OF c(1), of ?s] show ?thesis by (auto simp: settled_def)
qed

lemma settled_restart:
  assumes "election_inv members s" "settled members s t"
  shows "settled members (restart_from_disk members i s) t"
proof -
  from assms(2) obtain c where c: "elected members s t c" "t < cterm (nodes s c) \<or>
      (t = cterm (nodes s c) \<and> role (nodes s c) \<noteq> Candidate)"
    by (auto simp: settled_def)
  have "holds_vote (disks s c) t c"
    using elected_member [OF assms(1) c(1)] assms(1) by (simp add: election_inv_def votes_held_def)
  with c show ?thesis
    by (auto simp: settled_def holds_vote_def raft_init_def intro!: exI [of _ c])
qed

text \<open>A newly elected leader finds no entry of its term.\<close>

lemma new_leader_no_entries:
  assumes "election_inv members s" "settled members s t" "elected members s t i"
    and "role (nodes s i) = Candidate" "t = cterm (nodes s i)"
  shows False
  using assms elected_unique [of s members t i] by (auto simp: settled_def election_inv_def)

text \<open>A leader never hears an \<open>AppendEntries\<close> of its own term.\<close>

lemma leader_hears_none:
  assumes "election_inv members s" "appends_ok members F s" "i \<in> set members"
    and "role (nodes s i) = Leader" "possible s i (EvMessage (MAppendEntries m))"
  shows "ae_term m \<noteq> cterm (nodes s i)"
proof
  assume t: "ae_term m = cterm (nodes s i)"
  have "(i, MAppendEntries m) \<in> set (net s)" using assms(5) by (simp add: possible_def)
  with assms(2) have m: "i \<noteq> leader_id m" "elected members s (ae_term m) (leader_id m)"
    by (auto simp: appends_ok_def)
  have "elected members s (ae_term m) i"
    using assms(1,3,4) t by (simp add: election_inv_def leaders_elected_def)
  with m assms(1) elected_unique show False by (auto simp: election_inv_def)
qed


section \<open>Steps that keep every log\<close>

lemma versions_ok_handled:
  assumes "election_inv members s" "node_step members s i ev r as" "versions_ok members F s"
  shows "versions_ok members F (handled s i r (take n as))"
  using assms settled_handled [OF assms(1,2)] by (simp add: versions_ok_def)

lemma logs_in_handled:
  assumes "logs_in members F s" "rlog r \<in> F"
  shows "logs_in members F (handled s i r (take n as))"
  using assms by (simp add: logs_in_def)

text \<open>The only \<open>AppendEntries\<close> a step sends carry the rest of the sender's log.\<close>

lemma appends_ok_handled:
  assumes "election_inv members s" "node_step members s i ev r as" "logs_in members F s"
    "versions_ok members F s" "appends_ok members F s"
  shows "appends_ok members F (handled s i r (take n as))"
  unfolding appends_ok_def
proof (intro allI impI)
  fix to m
  let ?s = "handled s i r (take n as)"
  assume m: "(to, MAppendEntries m) \<in> set (net ?s)"
  have i: "i \<in> set members" and st: "raft_step Debug (nodes s i) ev = Inr (r, as)"
    using assms(2) by (simp_all add: node_step_def)
  have elected: "elected members s t c \<Longrightarrow> elected members ?s t c" for t c
    by (rule elected_mono) auto
  show "to \<noteq> leader_id m \<and> elected members ?s (ae_term m) (leader_id m) \<and> (\<exists>g \<in> F. rest_of g m)"
  proof (cases "(to, MAppendEntries m) \<in> set (net s)")
    case True
    with assms(5) elected show ?thesis by (auto simp: appends_ok_def)
  next
    case False
    with m have "Send to (MAppendEntries m) \<in> set as" by (auto dest: in_set_takeD)
    from raft_step_sends [OF st this] obtain k where lead: "role (nodes s i) = Leader"
      and to: "to \<in> set (peers (nodes s i))" and k: "m = peer_append_entries (nodes s i) k"
      by (auto simp: send_ok_def)
    have ids: "raft_id (nodes s i) = i" "peers (nodes s i) = others members i"
      using assms(1) i by (simp_all add: election_inv_def nodes_ok_def)
    have F: "rlog (nodes s i) \<in> F" "contiguous 0 (rlog (nodes s i))"
      using assms(3,4) i by (simp_all add: logs_in_def versions_ok_def)
    have "elected members s (cterm (nodes s i)) i"
      using assms(1) i lead by (simp add: election_inv_def leaders_elected_def)
    with elected to k ids F rest_of_peer_append_entries [OF F(2)] show ?thesis
      by (auto simp: peer_append_entries_def)
  qed
qed

text \<open>
  Leadership after a step that keeps the node's log: the node was leader before, or it was
  just elected and its term has no entries yet.
\<close>

lemma leader_owns_handled:
  assumes "cluster_ok members" "election_inv members s" "node_step members s i ev r as"
    "versions_ok members F s" "leader_owns members F s"
    "role r = Leader \<Longrightarrow> rlog r = rlog (nodes s i)"
  shows "leader_owns members F (handled s i r (take n as))"
  unfolding leader_owns_def
proof (intro ballI allI impI)
  fix j g k
  let ?s = "handled s i r (take n as)"
  assume j: "j \<in> set members" "role (nodes ?s j) = Leader" and g: "g \<in> F" "k < length g"
    "entry_term (g ! k) = cterm (nodes ?s j)"
  have i: "i \<in> set members" using assms(3) by (simp add: node_step_def)
  show "k < length (rlog (nodes ?s j)) \<and> entry_term (rlog (nodes ?s j) ! k) = cterm (nodes ?s j)"
  proof (cases "j = i")
    case False
    with j g assms(5) show ?thesis by (simp add: leader_owns_def)
  next
    case True
    with j(2) have lead: "role r = Leader" by simp
    from assms(2) have inv: "nodes_ok members s" "grants_received members s" "votes_asked s"
        "leaders_elected members s"
      by (simp_all add: election_inv_def)
    from leader_after_step [OF assms(1) inv assms(3) lead]
    have after: "elected members s (cterm r) i" "cterm r = cterm (nodes s i)"
        "role (nodes s i) = Leader \<or> role (nodes s i) = Candidate"
      by blast+
    have "settled members s (entry_term (g ! k))"
      using assms(4) g(1) nth_mem [OF g(2)] by (auto simp: versions_ok_def)
    then have "settled members s (cterm r)" using g(3) True by simp
    with new_leader_no_entries [OF assms(2) _ after(1)] after(2,3)
    have "role (nodes s i) = Leader" by blast
    with assms(5,6) lead after(2) g i True show ?thesis by (simp add: leader_owns_def)
  qed
qed

lemma log_inv_same_log:
  assumes "cluster_ok members" "election_inv members s" "node_step members s i ev r as"
    "log_inv members F s" "rlog r \<in> F" "role r = Leader \<Longrightarrow> rlog r = rlog (nodes s i)"
  shows "log_inv members F (handled s i r (take n as))"
proof -
  from assms(4) have inv: "versions_ok members F s" "logs_in members F s" "appends_ok members F s"
      "leader_owns members F s"
    by (simp_all add: log_inv_def)
  from versions_ok_handled [OF assms(2,3) inv(1)] logs_in_handled [OF inv(2) assms(5)]
    appends_ok_handled [OF assms(2,3) inv(2,1,3)] leader_owns_handled [OF assms(1-3) inv(1,4) assms(6)]
  show ?thesis unfolding log_inv_def by blast
qed


section \<open>How a step changes the log\<close>

datatype log_change =
    Kept
  | Reconciled AppendEntries
  | Appended LogEntry

fun changes_log :: "Raft \<Rightarrow> Event \<Rightarrow> Raft \<Rightarrow> log_change \<Rightarrow> bool" where
  "changes_log r ev r' Kept = (rlog r' = rlog r)"
| "changes_log r ev r' (Reconciled m) =
     (ev = EvMessage (MAppendEntries m) \<and> log_matches r (prev_log_index m) (prev_log_term m) \<and>
      rlog r' = reconcile (rlog r) (entries m) \<and>
      (role r' = Leader \<longrightarrow> role r = Leader \<and> ae_term m = cterm r))"
| "changes_log r ev r' (Appended e) =
     (role r = Leader \<and> role r' = Leader \<and> cterm r' = cterm r \<and> rlog r' = rlog r @ [e] \<and>
      entry_term e = cterm r \<and> add_u64 Debug (last_log_index r) 1 = Inr (index e))"

lemma changes_log_append_entries:
  assumes "handle_append_entries r m = (r', as)"
  shows "\<exists>ch. changes_log r (EvMessage (MAppendEntries m)) r' ch"
proof (cases "acceptable r m")
  case False
  from append_entries_reject [OF this] assms have "rlog r' = rlog r" by auto
  then show ?thesis by (intro exI [of _ Kept]) simp
next
  case True
  have "role r' = Leader \<Longrightarrow> role r = Leader \<and> ae_term m = cterm r"
    using append_entries_frame [OF assms] True
    by (cases "ae_term m" "cterm r" rule: linorder_cases) (auto simp: acceptable_def split: if_splits)
  with append_entries_accepted_state [OF True assms] True show ?thesis
    by (intro exI [of _ "Reconciled m"]) (simp add: acceptable_def)
qed

lemma raft_step_changes_log:
  assumes "raft_step Debug r ev = Inr (r', as)"
  shows "\<exists>ch. changes_log r ev r' ch"
proof (cases ev rule: raft_event_cases)
  case (RV m)
  with assms have "rlog r' = rlog r"
    by (auto simp: handle_request_vote_def Let_def split: if_splits option.splits)
  then show ?thesis by (intro exI [of _ Kept]) simp
next
  case (RVR m)
  with assms have "rlog r' = rlog r"
    by (auto simp: handle_vote_response_def Let_def and_then_eq_Inr dest!: become_leader_frame
        split: if_splits)
  then show ?thesis by (intro exI [of _ Kept]) simp
next
  case (AE m)
  with assms changes_log_append_entries show ?thesis by simp
next
  case (AER m)
  with assms append_entries_response_frame [of Debug r m r' as] have "rlog r' = rlog r"
    by (cases "aer_term m > cterm r") auto
  then show ?thesis by (intro exI [of _ Kept]) simp
next
  case ElectionT
  with assms have "rlog r' = rlog r"
    by (auto simp: handle_election_timeout_def Let_def and_then_eq_Inr dest!: become_leader_frame
        split: if_splits)
  then show ?thesis by (intro exI [of _ Kept]) simp
next
  case HeartbeatT
  with assms heartbeat_actions(1) have "rlog r' = rlog r" by fastforce
  then show ?thesis by (intro exI [of _ Kept]) simp
next
  case (Client c)
  with assms have fr: "handle_client_request Debug r c = Inr (r', as)" by simp
  show ?thesis
  proof (cases "role r = Leader")
    case True
    with client_request_frame [OF fr] obtain i where i: "add_u64 Debug (last_log_index r) 1 = Inr i"
        "rlog r' = rlog r @ [\<lparr>entry_term = cterm r, index = i, command = c\<rparr>]"
        "role r' = role r" "cterm r' = cterm r"
      by auto
    with True show ?thesis
      by (intro exI [of _ "Appended \<lparr>entry_term = cterm r, index = i, command = c\<rparr>"]) simp
  next
    case False
    with client_request_frame [OF fr] show ?thesis by (intro exI [of _ Kept]) simp
  qed
qed

section \<open>Appending and accepting entries\<close>

lemma log_inv_accept:
  assumes "cluster_ok members" "election_inv members s" "node_step members s i ev r as"
    "log_inv members F s" "changes_log (nodes s i) ev r (Reconciled m)"
  shows "log_inv members F (handled s i r (take n as))"
proof -
  let ?r = "nodes s i"
  from assms(3,5) have i: "i \<in> set members" and ev: "ev = EvMessage (MAppendEntries m)"
    and poss: "possible s i (EvMessage (MAppendEntries m))"
    by (auto simp: node_step_def)
  from assms(4) have inv: "versions_ok members F s" "logs_in members F s" "appends_ok members F s"
    by (simp_all add: log_inv_def)
  have not_leader: "role r \<noteq> Leader"
    using leader_hears_none [OF assms(2) inv(3) i _ poss] assms(5) by auto
  have own: "rlog ?r \<in> F" using inv(2) i by (simp add: logs_in_def)
  from poss inv(3) obtain g where g: "g \<in> F" "rest_of g m"
    by (auto simp: appends_ok_def possible_def)
  have cont: "contiguous 0 (rlog ?r)" "contiguous 0 g" "logs_agree (rlog ?r) g"
    using inv(1) own g(1) by (simp_all add: versions_ok_def)
  have pos: "0 < entry_term e" if "e \<in> set (rlog ?r)" for e
    using inv(1) own that settled_pos [OF assms(2)] by (auto simp: versions_ok_def)
  have "log_matches ?r (prev_log_index m) (prev_log_term m)" using assms(5) by simp
  from reconcile_version [OF cont g(2) this pos] own g(1) assms(5) have "rlog r \<in> F" by auto
  with log_inv_same_log [OF assms(1-4)] not_leader show ?thesis by blast
qed


lemma versions_ok_insert:
  assumes "versions_ok members F s" "l \<in> F" "contiguous 0 (l @ [e])"
    "settled members s (entry_term e)"
    and "\<And>g. g \<in> F \<Longrightarrow> length l < length g \<Longrightarrow> entry_term (g ! length l) \<noteq> entry_term e"
  shows "versions_ok members (insert (l @ [e]) F) s"
proof -
  have agree: "logs_agree (l @ [e]) g" if "g \<in> F" for g
    using assms(1,2,5) that by (intro logs_agree_snoc) (auto simp: versions_ok_def)
  have "\<forall>g \<in> insert (l @ [e]) F. \<forall>h \<in> insert (l @ [e]) F. logs_agree g h"
    using agree logs_agree_sym assms(1) by (fastforce simp: versions_ok_def)
  moreover have "\<forall>x \<in> set (l @ [e]). settled members s (entry_term x)"
    using assms(1,2,4) by (auto simp: versions_ok_def)
  ultimately show ?thesis using assms(1,3) by (auto simp: versions_ok_def)
qed

lemma contiguous_snoc:
  assumes "contiguous 0 (rlog r)" "add_u64 Debug (last_log_index r) 1 = Inr (index e)"
  shows "contiguous 0 (rlog r @ [e])"
  using assms add_u64_Debug_unat [OF assms(2)]
  by (simp add: contiguous_append contiguous_Cons unat_last_log_index)

lemma log_inv_append:
  assumes "cluster_ok members" "election_inv members s" "node_step members s i ev r as"
    "log_inv members F s" "changes_log (nodes s i) ev r (Appended e)"
  shows "log_inv members (insert (rlog r) F) (handled s i r (take n as))"
proof -
  let ?s = "handled s i r (take n as)" and ?l = "rlog (nodes s i)"
  have i: "i \<in> set members" using assms(3) by (simp add: node_step_def)
  from assms(4) have inv: "versions_ok members F s" "logs_in members F s" "appends_ok members F s"
      "leader_owns members F s"
    by (simp_all add: log_inv_def)
  have lead: "role (nodes s i) = Leader" "role r = Leader" "cterm r = cterm (nodes s i)"
    and log: "rlog r = ?l @ [e]" and term_e: "entry_term e = cterm (nodes s i)"
    and idx: "add_u64 Debug (last_log_index (nodes s i)) 1 = Inr (index e)"
    using assms(5) by simp_all
  have own: "?l \<in> F" using inv(2) i by (simp add: logs_in_def)
  have elected: "elected members s (cterm (nodes s i)) i"
    using assms(2) i lead(1) by (simp add: election_inv_def leaders_elected_def)
  have fresh: "entry_term (g ! length ?l) \<noteq> entry_term e" if "g \<in> F" "length ?l < length g" for g
    using inv(4) i lead(1) term_e that by (fastforce simp: leader_owns_def)
  have cont: "contiguous 0 (?l @ [e])"
    using contiguous_snoc [OF _ idx] inv(1) own by (simp add: versions_ok_def)
  have settled: "settled members s (entry_term e)"
    using elected lead(1) term_e by (auto simp: settled_def)
  have vers: "versions_ok members (insert (rlog r) F) ?s"
    unfolding log
    by (rule versions_ok_handled [OF assms(2,3) versions_ok_insert [OF inv(1) own cont settled fresh]])
  have logs: "logs_in members (insert (rlog r) F) ?s"
    by (rule logs_in_handled) (use inv(2) in \<open>auto simp: logs_in_def\<close>)
  have apps: "appends_ok members (insert (rlog r) F) ?s"
    using appends_ok_handled [OF assms(2,3) inv(2,1,3), of n] by (auto simp: appends_ok_def)
  have "leader_owns members (insert (rlog r) F) ?s"
    unfolding leader_owns_def
  proof (intro ballI allI impI)
    fix j g k
    assume j: "j \<in> set members" "role (nodes ?s j) = Leader"
      and g: "g \<in> insert (rlog r) F" "k < length g" "entry_term (g ! k) = cterm (nodes ?s j)"
    show "k < length (rlog (nodes ?s j)) \<and> entry_term (rlog (nodes ?s j) ! k) = cterm (nodes ?s j)"
    proof (cases "j = i")
      case True
      show ?thesis
      proof (cases "g = rlog r")
        case True
        with \<open>j = i\<close> g show ?thesis by simp
      next
        case False
        with g(1) have "g \<in> F" by simp
        with inv(4) i lead g(2,3) True have "k < length ?l \<and> entry_term (?l ! k) = cterm (nodes s i)"
          by (simp add: leader_owns_def)
        with True lead(3) log show ?thesis by (simp add: nth_append)
      qed
    next
      case False
      then have lead_j: "role (nodes s j) = Leader" using j(2) by simp
      then have "elected members s (cterm (nodes s j)) j"
        using assms(2) j(1) by (simp add: election_inv_def leaders_elected_def)
      with elected assms(2) False have "cterm (nodes s j) \<noteq> cterm (nodes s i)"
        using elected_unique [of s members "cterm (nodes s j)" i j] by (auto simp: election_inv_def)
      then have "k < length ?l \<or> g \<noteq> rlog r"
        using g(2,3) log term_e False by (auto simp: nth_append split: if_splits)
      then obtain h where "h \<in> F" "k < length h" "entry_term (h ! k) = cterm (nodes s j)"
        using g own log False by (auto simp: nth_append)
      with inv(4) j(1) lead_j False show ?thesis by (simp add: leader_owns_def)
    qed
  qed
  with vers logs apps show ?thesis by (simp add: log_inv_def)
qed

lemma log_inv_handled:
  assumes "cluster_ok members" "election_inv members s" "node_step members s i ev r as"
    "log_inv members F s"
  shows "\<exists>F'. log_inv members F' (handled s i r (take n as))"
proof -
  have st: "raft_step Debug (nodes s i) ev = Inr (r, as)" and i: "i \<in> set members"
    using assms(3) by (simp_all add: node_step_def)
  have own: "rlog (nodes s i) \<in> F" using assms(4) i by (simp add: log_inv_def logs_in_def)
  from raft_step_changes_log [OF st] obtain ch where ch: "changes_log (nodes s i) ev r ch" by blast
  show ?thesis
  proof (cases ch)
    case Kept
    with ch own log_inv_same_log [OF assms] show ?thesis by fastforce
  next
    case (Reconciled m)
    with ch log_inv_accept [OF assms] show ?thesis by blast
  next
    case (Appended e)
    with ch log_inv_append [OF assms] show ?thesis by blast
  qed
qed

lemma log_inv_restart:
  assumes "election_inv members s" "log_inv members F s"
  shows "log_inv members F (restart_from_disk members i s)"
  using assms(2) settled_restart [OF assms(1)]
  by (auto simp: log_inv_defs raft_init_def)

section \<open>Reachable systems\<close>

lemma log_inv_init: "log_inv members {[]} (sys_init members)"
  by (auto simp: log_inv_defs sys_init_def raft_init_def persistent_default_def)

lemma reachable_log_inv:
  assumes "cluster_ok members" "reachable members s"
  shows "election_inv members s \<and> (\<exists>F. log_inv members F s)"
  using assms(2)
proof (induction rule: reachable_invariant)
  case init
  with election_inv_init [OF assms(1)] log_inv_init show ?case by blast
next
  case (handled s i ev r as n)
  with election_inv_handled [OF assms(1)] log_inv_handled [OF assms(1)] show ?case by blast
next
  case (restart s i)
  with election_inv_restart [OF assms(1)] log_inv_restart show ?case
    unfolding restart_from_disk_def by blast
qed

lemma matching_logs:
  assumes "cluster_ok members" "reachable members s" "i \<in> set members" "j \<in> set members"
    and "k < length (rlog (nodes s i))" "k < length (rlog (nodes s j))"
    and "entry_term (rlog (nodes s i) ! k) = entry_term (rlog (nodes s j) ! k)"
  shows "take (k + 1) (rlog (nodes s i)) = take (k + 1) (rlog (nodes s j))"
proof -
  from reachable_log_inv [OF assms(1,2)] obtain F where "log_inv members F s" by blast
  with assms(3,4) have "logs_agree (rlog (nodes s i)) (rlog (nodes s j))"
    by (simp add: log_inv_def logs_in_def versions_ok_def)
  from logs_agreeD [OF this assms(5-7)] show ?thesis .
qed

text \<open>C2: log matching. In every reachable state of the cluster, if the logs of two nodes have
  entries of the same term at the same place, then they are identical up to and including
  that entry.\<close>

theorem log_matching:
  assumes "cluster_ok members" "reachable members s" "i \<in> set members" "j \<in> set members"
    and "k < length (rlog (nodes s i))" "k < length (rlog (nodes s j))"
    and "entry_term (rlog (nodes s i) ! k) = entry_term (rlog (nodes s j) ! k)"
  shows "take (k + 1) (rlog (nodes s i)) = take (k + 1) (rlog (nodes s j))"
  using assms by (rule matching_logs)

text \<open>In every reachable state, the log of every node, in memory and on disk, has the
  indices 1, 2, 3, ... and entries of positive terms only: the shape on which the searches by
  index rely.\<close>

theorem reachable_logs_contiguous:
  assumes "cluster_ok members" "reachable members s" "i \<in> set members"
  shows "contiguous 0 (rlog (nodes s i)) \<and> contiguous 0 (log (disks s i)) \<and>
    (\<forall>e \<in> set (rlog (nodes s i)). 0 < entry_term e)"
proof -
  from reachable_log_inv [OF assms(1,2)] obtain F where
    "election_inv members s" "log_inv members F s" by blast
  with assms(3) settled_pos show ?thesis
    by (auto simp: log_inv_def logs_in_def versions_ok_def)
qed

lemma leader_keeps_log:
  assumes "cluster_ok members" "reachable members s" "node_step members s i ev r as"
    and "role (nodes s i) = Leader" "role r = Leader"
  shows "rlog r = rlog (nodes s i) \<or>
    (\<exists>e. rlog r = rlog (nodes s i) @ [e] \<and> entry_term e = cterm r)"
proof -
  from reachable_log_inv [OF assms(1,2)] obtain F where
    inv: "election_inv members s" "log_inv members F s" by blast
  have st: "raft_step Debug (nodes s i) ev = Inr (r, as)" and i: "i \<in> set members"
    and poss: "possible s i ev"
    using assms(3) by (simp_all add: node_step_def)
  from raft_step_changes_log [OF st] obtain ch where ch: "changes_log (nodes s i) ev r ch" by blast
  show ?thesis
  proof (cases ch)
    case (Reconciled m)
    with ch poss assms(5) leader_hears_none [OF inv(1) _ i assms(4)] inv(2) show ?thesis
      by (auto simp: log_inv_def)
  qed (use ch in auto)
qed

text \<open>C10: leader append-only. A step of a node that is leader before and after it never
  overwrites or deletes an entry of its log: it keeps the log or appends one entry of the
  current term at its end.\<close>

theorem leader_append_only:
  assumes "cluster_ok members" "reachable members s" "node_step members s i ev r as"
    and "role (nodes s i) = Leader" "role r = Leader"
  shows "rlog r = rlog (nodes s i) \<or>
    (\<exists>e. rlog r = rlog (nodes s i) @ [e] \<and> entry_term e = cterm r)"
  by (rule leader_keeps_log [OF assms])

section \<open>A run with a replicated entry\<close>

text \<open>After its election, node 1 takes a command and replicates it to node 3.\<close>

definition one_entry :: LogEntry where
  "one_entry = \<lparr>entry_term = 1, index = 1, command = command_default\<rparr>"

definition one_replication :: "Step list" where
  "one_replication = one_election @
     [Handle 1 (ClientRequest command_default),
      Handle 1 HeartbeatTimeout,
      Handle 3 (EvMessage (MAppendEntries \<lparr>ae_term = 1, leader_id = 1, prev_log_index = 0,
        prev_log_term = 0, entries = [one_entry], leader_commit = 0\<rparr>)),
      Handle 1 (EvMessage (MAppendEntriesResponse \<lparr>aer_term = 1, success = True, aer_from = 3,
        aer_match_index = 1\<rparr>))]"

lemma one_replication_run:
  "\<exists>s. sys_run members3 (sys_init members3) one_replication = Some s \<and>
     role (nodes s 1) = Leader \<and> rlog (nodes s 1) = [one_entry] \<and> rlog (nodes s 3) = [one_entry] \<and>
     rcommit (nodes s 1) = 1"
  by (simp add: members3_def one_replication_def one_election_def one_entry_def run_simps
      del: handle_Some handled_simps)

lemma one_replication_reachable:
  "\<exists>s. reachable members3 s \<and> role (nodes s 1) = Leader \<and> rlog (nodes s 1) = [one_entry] \<and>
     rlog (nodes s 3) = [one_entry]"
  using one_replication_run sys_run_reachable [OF reachable.init] by blast

theorem log_matching_witness:
  "\<exists>s. reachable members3 s \<and> length (rlog (nodes s 1)) = 1 \<and>
     take 1 (rlog (nodes s 1)) = take 1 (rlog (nodes s 3))"
proof -
  obtain s where s: "reachable members3 s" "rlog (nodes s 1) = [one_entry]"
      "rlog (nodes s 3) = [one_entry]"
    using one_replication_reachable by blast
  have m: "1 \<in> set members3" "3 \<in> set members3" by (simp_all add: members3_def)
  have "take (0 + 1) (rlog (nodes s 1)) = take (0 + 1) (rlog (nodes s 3))"
    by (rule log_matching [OF members3_ok s(1) m]) (simp_all add: s)
  with s show ?thesis by auto
qed

theorem reachable_logs_contiguous_witness:
  "\<exists>s. reachable members3 s \<and> rlog (nodes s 3) = [one_entry] \<and> contiguous 0 (rlog (nodes s 3)) \<and>
     contiguous 0 (log (disks s 3))"
proof -
  obtain s where s: "reachable members3 s" "rlog (nodes s 3) = [one_entry]"
    using one_replication_reachable by blast
  have "3 \<in> set members3" by (simp add: members3_def)
  from reachable_logs_contiguous [OF members3_ok s(1) this] s show ?thesis by blast
qed

theorem leader_append_only_witness:
  "\<exists>s r as. reachable members3 s \<and>
     node_step members3 s 1 (ClientRequest command_default) r as \<and>
     rlog (nodes s 1) = [one_entry] \<and>
     (rlog r = [one_entry] \<or> (\<exists>e. rlog r = [one_entry, e] \<and> entry_term e = cterm r))"
proof -
  obtain s where s: "reachable members3 s" "role (nodes s 1) = Leader" "rlog (nodes s 1) = [one_entry]"
    using one_replication_reachable by blast
  have "add_u64 Debug (last_log_index (nodes s 1)) 1 = Inr 2"
    using s(3) by (simp add: last_log_index_def one_entry_def add_u64_def)
  then have "\<exists>x. handle_client_request Debug (nodes s 1) command_default = Inr x"
    using s(2) by (cases "peers (nodes s 1) = []")
      (simp_all add: handle_client_request_def Let_def case_prod_beta)
  then obtain r as where h: "handle_client_request Debug (nodes s 1) command_default = Inr (r, as)"
    by fastforce
  then have st: "node_step members3 s 1 (ClientRequest command_default) r as"
    by (simp add: node_step_def possible_def members3_def)
  have "role r = Leader" using client_request_frame [OF h] s(2) by simp
  from leader_append_only [OF members3_ok s(1) st s(2) this] s st show ?thesis by auto
qed

end
