(* ===== verification/History.thy ===== *)
theory History
  imports LogMatching "HOL-Library.Sublist"
begin

text \<open>
  Leader completeness, abstractly. The history of a cluster records, for every term, the
  \<^emph>\<open>versions\<close> of the log that its leader had and the \<^emph>\<open>base\<close> it was elected with, and for every
  early vote a \<^emph>\<open>snapshot\<close> of the voter's log. A log prefix is committed in a term when its last
  entry is of that term and a majority acknowledged it there; the main lemma says that it is
  a prefix of every version of every later leader. The history is not part of the
  program: theory \<open>HistorySteps\<close> shows that one exists for every state that the nodes reach.
\<close>

section \<open>Versions\<close>

record History =
  versions :: "Term \<Rightarrow> LogEntry list set"
  base :: "Term \<Rightarrow> LogEntry list"
  snapshot :: "NodeId \<Rightarrow> Term \<Rightarrow> LogEntry list option"

text \<open>Every non-empty prefix of a log stems from a version of the term of its last entry.\<close>

definition traced :: "History \<Rightarrow> LogEntry list \<Rightarrow> bool" where
  "traced H l \<longleftrightarrow> (\<forall>q. prefix q l \<and> q \<noteq> [] \<longrightarrow> (\<exists>h \<in> versions H (entry_term (last q)). prefix q h))"

definition version_ok :: "History \<Rightarrow> Term \<Rightarrow> LogEntry list \<Rightarrow> bool" where
  "version_ok H t h \<longleftrightarrow> contiguous 0 h \<and> traced H h \<and> prefix (base H t) h \<and>
     (\<forall>e \<in> set h. entry_term e \<le> t) \<and> (\<forall>e \<in> set (base H t). entry_term e < t) \<and>
     (\<forall>e \<in> set (drop (length (base H t)) h). entry_term e = t)"

definition versions_wf :: "History \<Rightarrow> bool" where
  "versions_wf H \<longleftrightarrow> (\<forall>t. \<forall>h \<in> versions H t. version_ok H t h) \<and>
     (\<forall>t. \<forall>g \<in> versions H t. \<forall>h \<in> versions H t. prefix g h \<or> prefix h g)"

lemma traced_Nil [simp]: "traced H []"
  by (simp add: traced_def)

lemma traced_prefix: "traced H l \<Longrightarrow> prefix q l \<Longrightarrow> traced H q"
  unfolding traced_def by (meson prefix_order.trans)

lemma traced_last: "traced H l \<Longrightarrow> l \<noteq> [] \<Longrightarrow> \<exists>h \<in> versions H (entry_term (last l)). prefix l h"
  by (simp add: traced_def)

lemma traced_mono: "traced H l \<Longrightarrow> (\<And>t. versions H t \<subseteq> versions H' t) \<Longrightarrow> traced H' l"
  unfolding traced_def by (meson subsetD)

lemma traced_snoc:
  assumes "traced H l" "\<exists>h \<in> versions H (entry_term e). prefix (l @ [e]) h"
  shows "traced H (l @ [e])"
  using assms by (auto simp: traced_def)

lemma versions_chain:
  assumes "versions_wf H" "g \<in> versions H t" "h \<in> versions H t"
    and "prefix p g" "prefix q h" "length p \<le> length q"
  shows "prefix p q"
proof -
  from assms(1-3) consider "prefix g h" | "prefix h g" unfolding versions_wf_def by blast
  then show ?thesis
  proof cases
    case 1
    with assms(4) have "prefix p h" using prefix_order.trans by blast
    from prefix_length_prefix [OF this assms(5,6)] show ?thesis .
  next
    case 2
    with assms(5) have "prefix q g" using prefix_order.trans by blast
    with assms(4,6) show ?thesis using prefix_length_prefix by blast
  qed
qed

lemma version_term_le:
  "versions_wf H \<Longrightarrow> h \<in> versions H t \<Longrightarrow> prefix p h \<Longrightarrow> e \<in> set p \<Longrightarrow> entry_term e \<le> t"
  by (meson set_mono_prefix subsetD versions_wf_def version_ok_def)

text \<open>The terms of a traced log never decrease.\<close>

lemma traced_sorted:
  assumes "versions_wf H" "traced H l" "e \<in> set l"
  shows "entry_term e \<le> entry_term (last l)"
proof -
  have "l \<noteq> []" using assms(3) by auto
  with traced_last [OF assms(2)] version_term_le [OF assms(1)] assms(3) show ?thesis by blast
qed

lemma traced_agree:
  assumes "versions_wf H" "traced H xs" "traced H ys"
  shows "logs_agree xs ys"
  unfolding logs_agree_def
proof (intro allI impI)
  fix k assume k: "k < length xs" "k < length ys" "entry_term (xs ! k) = entry_term (ys ! k)"
  have last: "last (take (k + 1) zs) = zs ! k" if "k < length zs" for zs :: "LogEntry list"
    using that by (simp add: take_Suc_conv_app_nth)
  have ex: "\<exists>h \<in> versions H (entry_term (zs ! k)). prefix (take (k + 1) zs) h"
    if "traced H zs" "k < length zs" for zs
    using that last [OF that(2)] traced_last [OF traced_prefix [OF that(1) take_is_prefix], of "k + 1"]
    by fastforce
  from ex [OF assms(2) k(1)] ex [OF assms(3) k(2)] k(3) obtain g h where
    "g \<in> versions H (entry_term (ys ! k))" "prefix (take (k + 1) xs) g"
    "h \<in> versions H (entry_term (ys ! k))" "prefix (take (k + 1) ys) h"
    by auto
  with versions_chain [OF assms(1), of g _ h] k have "prefix (take (k + 1) xs) (take (k + 1) ys)"
    by auto
  moreover have "length (take (k + 1) xs) = length (take (k + 1) ys)" using k by simp
  ultimately show "take (k + 1) xs = take (k + 1) ys" by (metis append_eq_conv_conj append_Nil2 prefix_def take_all_iff order_refl)
qed

text \<open>A prefix that ends in an entry of the term is no longer than a traced log that ends in a later one.\<close>

lemma traced_longer:
  assumes "versions_wf H" "p \<noteq> []" "entry_term (last p) = t" "traced H b" "b \<noteq> []" "t < entry_term (last b)"
    and "prefix p h" "prefix b h" "traced H p"
  shows "prefix p b"
proof (rule ccontr)
  assume no: "\<not> prefix p b"
  have "prefix b p"
    using prefix_same_cases [OF assms(7,8)] no by blast
  then have "last b \<in> set p" using assms(5) by (meson last_in_set set_mono_prefix subsetD)
  from traced_sorted [OF assms(1,9) this] assms(3,6) show False by simp
qed

section \<open>Votes and acknowledgements\<close>

definition last_term :: "LogEntry list \<Rightarrow> Term" where
  "last_term l = (if l = [] then 0 else entry_term (last l))"

text \<open>The comparison of \<open>candidate_log_up_to_date\<close>, over logs.\<close>

definition up_to_date :: "LogEntry list \<Rightarrow> LogEntry list \<Rightarrow> bool" where
  "up_to_date b l \<longleftrightarrow> last_term l < last_term b \<or> (last_term b = last_term l \<and> length l \<le> length b)"

definition fields_up_to_date :: "RequestVote \<Rightarrow> LogEntry list \<Rightarrow> bool" where
  "fields_up_to_date m l \<longleftrightarrow> last_term l < rv_last_log_term m \<or>
     (rv_last_log_term m = last_term l \<and> length l \<le> unat (rv_last_log_index m))"

definition log_fields :: "RequestVote \<Rightarrow> LogEntry list \<Rightarrow> bool" where
  "log_fields m l \<longleftrightarrow> rv_last_log_term m = last_term l \<and> unat (rv_last_log_index m) = length l"

lemma fields_up_to_date_log: "log_fields m b \<Longrightarrow> fields_up_to_date m l \<longleftrightarrow> up_to_date b l"
  by (simp add: log_fields_def fields_up_to_date_def up_to_date_def)

lemma up_to_date_refl [simp]: "up_to_date l l"
  by (simp add: up_to_date_def)

lemma last_log_term_last_term: "last_log_term r = last_term (rlog r)"
  by (simp add: last_log_term_def last_term_def split: list.split)

text \<open>A success reply of the node for at least as many entries as the prefix has.\<close>

definition replied :: "(NodeId \<times> Message) list \<Rightarrow> NodeId \<Rightarrow> Term \<Rightarrow> nat \<Rightarrow> bool" where
  "replied ms v t k \<longleftrightarrow> (\<exists>to a. (to, MAppendEntriesResponse a) \<in> set ms \<and> success a \<and>
     aer_from a = v \<and> aer_term a = t \<and> k \<le> unat (aer_match_index a))"

definition acked :: "NodeId list \<Rightarrow> System \<Rightarrow> History \<Rightarrow> NodeId \<Rightarrow> Term \<Rightarrow> LogEntry list \<Rightarrow> bool" where
  "acked members s H v t p \<longleftrightarrow> (\<exists>h \<in> versions H t. prefix p h) \<and>
     (replied (net s) v t (length p) \<or> elected members s t v)"

definition committed :: "NodeId list \<Rightarrow> System \<Rightarrow> History \<Rightarrow> Term \<Rightarrow> LogEntry list \<Rightarrow> bool" where
  "committed members s H t p \<longleftrightarrow> p \<noteq> [] \<and> entry_term (last p) = t \<and>
     (\<exists>Q. majority members Q \<and> (\<forall>v \<in> Q. acked members s H v t p))"

text \<open>The leader of the term had a log without the prefix.\<close>

definition broken :: "History \<Rightarrow> Term \<Rightarrow> LogEntry list \<Rightarrow> bool" where
  "broken H w p \<longleftrightarrow> (\<exists>h \<in> versions H w. \<not> prefix p h)"

section \<open>The invariant\<close>

definition versions_settled :: "NodeId list \<Rightarrow> System \<Rightarrow> History \<Rightarrow> bool" where
  "versions_settled members s H \<longleftrightarrow> (\<forall>t. versions H t \<noteq> {} \<longrightarrow> settled members s t)"

definition node_logs_ok :: "NodeId list \<Rightarrow> System \<Rightarrow> History \<Rightarrow> bool" where
  "node_logs_ok members s H \<longleftrightarrow> (\<forall>i \<in> set members. traced H (rlog (nodes s i)) \<and>
     contiguous 0 (rlog (nodes s i)) \<and> log (disks s i) = rlog (nodes s i) \<and>
     current_term (disks s i) \<le> cterm (nodes s i) \<and>
     (\<forall>e \<in> set (rlog (nodes s i)). entry_term e \<le> current_term (disks s i)))"

definition leader_versions :: "NodeId list \<Rightarrow> System \<Rightarrow> History \<Rightarrow> bool" where
  "leader_versions members s H \<longleftrightarrow> (\<forall>i \<in> set members. role (nodes s i) = Leader \<longrightarrow>
     rlog (nodes s i) \<in> versions H (cterm (nodes s i)) \<and>
     (\<forall>h \<in> versions H (cterm (nodes s i)). prefix h (rlog (nodes s i))))"

definition sent_versions :: "System \<Rightarrow> History \<Rightarrow> bool" where
  "sent_versions s H \<longleftrightarrow> (\<forall>to m. (to, MAppendEntries m) \<in> set (net s) \<longrightarrow>
     (\<exists>g \<in> versions H (ae_term m). rest_of g m))"

definition replies_backed :: "NodeId list \<Rightarrow> System \<Rightarrow> History \<Rightarrow> bool" where
  "replies_backed members s H \<longleftrightarrow> (\<forall>to a. (to, MAppendEntriesResponse a) \<in> set (net s) \<longrightarrow> success a \<longrightarrow>
     aer_from a \<in> set members \<and> aer_term a \<le> current_term (disks s (aer_from a)) \<and>
     (\<exists>h \<in> versions H (aer_term a). unat (aer_match_index a) \<le> length h))"

definition acks_kept :: "NodeId list \<Rightarrow> System \<Rightarrow> History \<Rightarrow> bool" where
  "acks_kept members s H \<longleftrightarrow> (\<forall>v t p. acked members s H v t p \<longrightarrow>
     prefix p (log (disks s v)) \<or> (\<exists>w. t < w \<and> w \<le> current_term (disks s v) \<and> broken H w p))"

definition candidates_ask :: "NodeId list \<Rightarrow> System \<Rightarrow> bool" where
  "candidates_ask members s \<longleftrightarrow> (\<forall>i \<in> set members. role (nodes s i) = Candidate \<longrightarrow>
     (\<forall>to m. (to, MRequestVote m) \<in> set (net s) \<longrightarrow> candidate_id m = i \<longrightarrow>
        rv_term m = cterm (nodes s i) \<longrightarrow> log_fields m (rlog (nodes s i))))"

text \<open>The snapshot of a vote: the candidate's log was up to date with it, and it still holds what the voter acknowledged.\<close>

definition snapshot_ok :: "NodeId list \<Rightarrow> System \<Rightarrow> History \<Rightarrow> NodeId \<Rightarrow> Term \<Rightarrow> LogEntry list \<Rightarrow> bool" where
  "snapshot_ok members s H v u l \<longleftrightarrow> traced H l \<and>
     (\<exists>to m. (to, MRequestVote m) \<in> set (net s) \<and> rv_term m = u \<and>
        voted (net s) u v (candidate_id m) \<and> fields_up_to_date m l) \<and>
     (\<forall>t p. acked members s H v t p \<longrightarrow> t < u \<longrightarrow>
        prefix p l \<or> (\<exists>w. t < w \<and> w < u \<and> broken H w p))"

definition snapshots_ok :: "NodeId list \<Rightarrow> System \<Rightarrow> History \<Rightarrow> bool" where
  "snapshots_ok members s H \<longleftrightarrow>
     (\<forall>v u l. snapshot H v u = Some l \<longrightarrow> snapshot_ok members s H v u l)"

definition votes_recorded :: "System \<Rightarrow> History \<Rightarrow> bool" where
  "votes_recorded s H \<longleftrightarrow>
     (\<forall>u v c. versions H u = {} \<longrightarrow> voted (net s) u v c \<longrightarrow> snapshot H v u \<noteq> None)"

definition winners_up_to_date :: "NodeId list \<Rightarrow> History \<Rightarrow> bool" where
  "winners_up_to_date members H \<longleftrightarrow> (\<forall>u. versions H u \<noteq> {} \<longrightarrow>
     (\<exists>A. majority members A \<and> (\<forall>v \<in> A. \<exists>l. snapshot H v u = Some l \<and> up_to_date (base H u) l)))"

definition history_inv :: "NodeId list \<Rightarrow> System \<Rightarrow> History \<Rightarrow> bool" where
  "history_inv members s H \<longleftrightarrow> versions_wf H \<and> versions_settled members s H \<and>
     node_logs_ok members s H \<and> leader_versions members s H \<and> sent_versions s H \<and>
     replies_backed members s H \<and> acks_kept members s H \<and> candidates_ask members s \<and>
     snapshots_ok members s H \<and> votes_recorded s H \<and> winners_up_to_date members H"

section \<open>Leader completeness\<close>

lemma version_term_pos:
  assumes "election_inv members s" "versions_settled members s H" "h \<in> versions H t"
  shows "0 < t"
  using assms settled_pos unfolding versions_settled_def by blast

lemma version_prefix:
  assumes "versions_wf H" "h \<in> versions H u"
  shows "traced H h \<and> prefix (base H u) h \<and> traced H (base H u)"
  using assms unfolding versions_wf_def version_ok_def by (meson traced_prefix)

lemma base_term_less:
  assumes "versions_wf H" "h \<in> versions H u" "base H u \<noteq> []"
  shows "entry_term (last (base H u)) < u"
  using assms unfolding versions_wf_def version_ok_def by (meson last_in_set)

text \<open>The step of the induction: what a voter's snapshot holds, an up-to-date base holds too.\<close>

lemma up_to_date_holds:
  assumes wf: "versions_wf H" and p: "p \<noteq> []" "entry_term (last p) = t" "prefix p l" "0 < t"
    and l: "traced H l" and b: "traced H b" "up_to_date b l"
    and later: "\<And>y h. t < y \<Longrightarrow> y = last_term b \<Longrightarrow> h \<in> versions H y \<Longrightarrow> prefix p h"
  shows "prefix p b"
proof -
  have ne: "l \<noteq> []" using p(1,3) by auto
  have "last p \<in> set l" using p(1,3) by (meson last_in_set set_mono_prefix subsetD)
  from traced_sorted [OF wf l this] ne p(2) have lt: "t \<le> last_term l" by (simp add: last_term_def)
  then have nb: "b \<noteq> []" using b(2) p(4) by (auto simp: up_to_date_def last_term_def)
  from traced_last [OF b(1) nb] obtain hb where hb: "hb \<in> versions H (last_term b)" "prefix b hb"
    using nb by (auto simp: last_term_def)
  show ?thesis
  proof (cases "last_term l < last_term b")
    case False
    with b(2) have eq: "last_term b = last_term l" "length l \<le> length b" by (auto simp: up_to_date_def)
    from traced_last [OF l ne] obtain hl where "hl \<in> versions H (last_term l)" "prefix l hl"
      using ne by (auto simp: last_term_def)
    with versions_chain [OF wf, of hl _ hb l b] hb eq have "prefix l b" by simp
    with p(3) show ?thesis using prefix_order.trans by blast
  next
    case True
    with lt have y: "t < last_term b" by simp
    from later [OF y refl hb(1)] have "prefix p hb" .
    from traced_longer [OF wf p(1,2) b(1) nb _ this hb(2) traced_prefix [OF l p(3)]] y nb
    show ?thesis by (simp add: last_term_def)
  qed
qed

lemma committed_complete:
  assumes "election_inv members s" "history_inv members s H" "committed members s H t p"
  shows "t < u \<Longrightarrow> h \<in> versions H u \<Longrightarrow> prefix p h"
proof (induction u arbitrary: h rule: measure_induct_rule [of unat])
  case (less u)
  have wf: "versions_wf H" and snaps: "snapshots_ok members s H"
    and won: "winners_up_to_date members H" and settled: "versions_settled members s H"
    using assms(2) by (simp_all add: history_inv_def)
  from assms(3) obtain Q where p: "p \<noteq> []" "entry_term (last p) = t"
    and Q: "majority members Q" "\<forall>v \<in> Q. acked members s H v t p"
    by (auto simp: committed_def)
  have later: "prefix p g" if "t < w" "w < u" "g \<in> versions H w" for w g
    using less.IH [OF _ that(1,3)] that(2) by (simp add: word_less_nat_alt)
  from won less.prems(2) obtain A where A: "majority members A"
      "\<forall>v \<in> A. \<exists>l. snapshot H v u = Some l \<and> up_to_date (base H u) l"
    unfolding winners_up_to_date_def by blast
  from maj.quorums_meet [OF A(1) Q(1)] obtain v where v: "v \<in> A" "v \<in> Q" by blast
  with A(2) obtain l where l: "snapshot H v u = Some l" "up_to_date (base H u) l" by blast
  have ok: "snapshot_ok members s H v u l" using snaps l(1) by (simp add: snapshots_ok_def)
  have ack: "acked members s H v t p" using Q(2) v(2) by blast
  have "prefix p l"
    using ok ack less.prems(1) later unfolding snapshot_ok_def broken_def by blast
  moreover have "0 < t"
    using ack version_term_pos [OF assms(1) settled] by (auto simp: acked_def)
  moreover have "traced H l" using ok by (simp add: snapshot_ok_def)
  moreover have base: "prefix (base H u) h" "traced H (base H u)"
    using version_prefix [OF wf less.prems(2)] by auto
  moreover have "prefix p g" if "t < y" "y = last_term (base H u)" "g \<in> versions H y" for y g
  proof (rule later [OF that(1) _ that(3)])
    have "base H u \<noteq> []" using that(1,2) by (auto simp: last_term_def)
    from base_term_less [OF wf less.prems(2) this] show "y < u" using that(2) \<open>base H u \<noteq> []\<close>
      by (simp add: last_term_def)
  qed
  ultimately have "prefix p (base H u)"
    using up_to_date_holds [OF wf p _ _ _ _ l(2)] by blast
  with base(1) show ?case using prefix_order.trans by blast
qed

end
