(* ===== verification/TruthfulRuns.thy ===== *)
theory TruthfulRuns
  imports LogMatching
begin

text \<open>
  Truthful runs. A follower reports a \<^emph>\<open>stale tail\<close> when it accepts an \<open>AppendEntries\<close>, its log goes
  on beyond the entries sent, and what follows does not end in the sender's term: its success
  reply then claims entries that the leader may not have (theory \<open>CommitSafety\<close> shows where that
  leads). A run is truthful when no node reports one.
\<close>

section \<open>Truthful runs\<close>

definition stale_tail :: "AppendEntries \<Rightarrow> Raft \<Rightarrow> bool" where
  "stale_tail m r \<longleftrightarrow> unat (prev_log_index m) + length (entries m) < length (rlog r) \<and>
     last_log_term r \<noteq> ae_term m"

fun reports_stale_tail :: "Raft \<Rightarrow> Event \<Rightarrow> bool" where
  "reports_stale_tail r (EvMessage (MAppendEntries m)) =
     (acceptable r m \<and> stale_tail m (fst (handle_append_entries r m)))"
| "reports_stale_tail r _ = False"

fun truthful_step :: "System \<Rightarrow> Step \<Rightarrow> bool" where
  "truthful_step s (Handle i ev) = (\<not> reports_stale_tail (nodes s i) ev)"
| "truthful_step s (Crash i ev n) = (\<not> reports_stale_tail (nodes s i) ev)"
| "truthful_step s (Restart i) = True"

inductive truthful :: "NodeId list \<Rightarrow> System \<Rightarrow> bool" for members where
  init: "truthful members (sys_init members)"
| step: "truthful members s \<Longrightarrow> sys_step members s st = Some s' \<Longrightarrow> truthful_step s st \<Longrightarrow> truthful members s'"

lemma truthful_reachable: "truthful members s \<Longrightarrow> reachable members s"
  by (induction rule: truthful.induct) (auto intro: reachable.intros)

fun truthful_run :: "NodeId list \<Rightarrow> System \<Rightarrow> Step list \<Rightarrow> bool" where
  "truthful_run members s [] = True"
| "truthful_run members s (st # sts) = (truthful_step s st \<and>
     (case sys_step members s st of None \<Rightarrow> False | Some s' \<Rightarrow> truthful_run members s' sts))"

lemma truthful_run_truthful:
  "truthful members s \<Longrightarrow> sys_run members s sts = Some s' \<Longrightarrow> truthful_run members s sts \<Longrightarrow> truthful members s'"
  by (induction sts arbitrary: s) (auto split: option.splits intro: truthful.step)

text \<open>
  The induction over truthful runs. A crash that loses a new log entry before it was persisted
  is a plain restart; every other step changes the log only with what it persists.
\<close>

definition log_kept_or_saved :: "Raft \<Rightarrow> Raft \<Rightarrow> Action list \<Rightarrow> bool" where
  "log_kept_or_saved r r' as \<longleftrightarrow> rlog r' = rlog r \<or> PersistState \<in> set as"

lemma append_entries_saves:
  assumes "handle_append_entries r m = (r', as)" "rlog r' \<noteq> rlog r"
  shows "\<exists>bs. as = PersistState # bs"
proof (cases "acceptable r m")
  case False
  from append_entries_reject [OF this] assms show ?thesis by auto
next
  case True
  from append_entries_accept [OF True] assms(1) show ?thesis by (auto split: prod.splits)
qed

lemma client_request_saves:
  assumes "handle_client_request p r c = Inr (r', as)" "rlog r' \<noteq> rlog r"
  shows "\<exists>bs. as = ResetHeartbeatTimer # PersistState # bs"
  using assms
  by (auto simp: handle_client_request_def Let_def and_then_eq_Inr split: if_splits prod.splits)

lemma raft_step_saves:
  assumes "raft_step Debug r ev = Inr (r', as)" "rlog r' \<noteq> rlog r"
  shows "(\<exists>bs. as = PersistState # bs) \<or> (\<exists>bs. as = ResetHeartbeatTimer # PersistState # bs)"
proof (cases ev rule: raft_event_cases)
  case (RV m)
  with assms have False
    by (auto simp: handle_request_vote_def Let_def split: if_splits option.splits)
  then show ?thesis ..
next
  case (RVR m)
  with assms have False
    by (auto simp: handle_vote_response_def Let_def and_then_eq_Inr dest!: become_leader_frame
        split: if_splits)
  then show ?thesis ..
next
  case (AE m)
  with assms append_entries_saves show ?thesis by auto
next
  case (AER m)
  with assms append_entries_response_frame [of Debug r m r' as] have False
    by (cases "aer_term m > cterm r") auto
  then show ?thesis ..
next
  case ElectionT
  with assms have False
    by (auto simp: handle_election_timeout_def Let_def and_then_eq_Inr dest!: become_leader_frame
        split: if_splits)
  then show ?thesis ..
next
  case HeartbeatT
  with assms heartbeat_actions(1) have False by fastforce
  then show ?thesis ..
next
  case (Client c)
  with assms client_request_saves show ?thesis by auto
qed

lemma unsaved_sends_nothing:
  assumes "raft_step Debug r ev = Inr (r', as)" "\<not> log_kept_or_saved r r' (take n as)"
  shows "sends (take n as) = []"
proof -
  have no: "rlog r' \<noteq> rlog r" "PersistState \<notin> set (take n as)"
    using assms(2) by (auto simp: log_kept_or_saved_def)
  from raft_step_saves [OF assms(1) no(1)] no(2) show ?thesis
    by (cases n; cases "n - 1") auto
qed

lemma saved_in_full:
  "raft_step Debug r ev = Inr (r', as) \<Longrightarrow> log_kept_or_saved r r' as"
  using raft_step_saves by (fastforce simp: log_kept_or_saved_def)

lemma crash_unsaved:
  assumes "raft_step Debug (nodes s i) ev = Inr (r, as)" "\<not> log_kept_or_saved (nodes s i) r (take n as)"
  shows "restart_from_disk members i (handled s i r (take n as)) = restart_from_disk members i s"
proof -
  have "PersistState \<notin> set (take n as)" using assms(2) by (auto simp: log_kept_or_saved_def)
  then show ?thesis
    using unsaved_sends_nothing [OF assms]
    by (intro System.equality) (simp_all add: restart_from_disk_def)
qed

lemma truthful_induct [consumes 1, case_names init full crash restart]:
  assumes "truthful members s"
    and "P (sys_init members)"
    and "\<And>s i ev r as. P s \<Longrightarrow> node_step members s i ev r as \<Longrightarrow> \<not> reports_stale_tail (nodes s i) ev \<Longrightarrow>
      log_kept_or_saved (nodes s i) r as \<Longrightarrow> P (handled s i r as)"
    and "\<And>s i ev r as n. P s \<Longrightarrow> node_step members s i ev r as \<Longrightarrow> \<not> reports_stale_tail (nodes s i) ev \<Longrightarrow>
      log_kept_or_saved (nodes s i) r (take n as) \<Longrightarrow>
      P (restart_from_disk members i (handled s i r (take n as)))"
    and "\<And>s i. P s \<Longrightarrow> i \<in> set members \<Longrightarrow> P (restart_from_disk members i s)"
  shows "P s"
  using assms(1)
proof induction
  case init
  show ?case by (rule assms(2))
next
  case (step s st s')
  show ?case
  proof (cases st)
    case (Handle i ev)
    with step(2) obtain r as where st: "node_step members s i ev r as" "s' = handled s i r as"
      by (auto split: option.splits)
    then have "raft_step Debug (nodes s i) ev = Inr (r, as)" by (simp add: node_step_def)
    from saved_in_full [OF this] assms(3) [OF step(4) st(1)] step(3) Handle st(2) show ?thesis by simp
  next
    case (Crash i ev n)
    with step(2) obtain r as where st: "node_step members s i ev r as"
        "s' = restart_from_disk members i (handled s i r (take n as))"
      by (auto simp: restart_from_disk_def split: option.splits)
    have i: "i \<in> set members" and rs: "raft_step Debug (nodes s i) ev = Inr (r, as)"
      using st(1) by (simp_all add: node_step_def)
    show ?thesis
    proof (cases "log_kept_or_saved (nodes s i) r (take n as)")
      case True
      with assms(4) [OF step(4) st(1) _ True] step(3) Crash st(2) show ?thesis by simp
    next
      case False
      with crash_unsaved [OF rs False] assms(5) [OF step(4) i] st(2) show ?thesis by simp
    qed
  next
    case (Restart i)
    with step(2) have "i \<in> set members" "s' = restart_from_disk members i s"
      by (auto simp: restart_from_disk_def split: if_splits)
    with assms(5) [OF step(4)] show ?thesis by simp
  qed
qed

end
