(* ===== verification/HistorySteps.thy ===== *)
theory HistorySteps
  imports History TruthfulRuns
begin

text \<open>
  Every truthful run has a history: the invariant of theory \<open>History\<close> is kept by every step. The
  first part describes one step as far as it matters to the history; the second lets the history
  follow it: a leader's log becomes a version of its term, the log it is elected with the base,
  and a first vote leaves a snapshot.
\<close>

section \<open>One step\<close>

definition step_ok :: "NodeId list \<Rightarrow> System \<Rightarrow> History \<Rightarrow> NodeId \<Rightarrow> Event \<Rightarrow> Raft \<Rightarrow> Action list \<Rightarrow> nat \<Rightarrow> bool" where
  "step_ok members s H i ev r as n \<longleftrightarrow> cluster_ok members \<and> election_inv members s \<and>
     (\<exists>F. appends_ok members F s) \<and> history_inv members s H \<and> node_step members s i ev r as \<and>
     \<not> reports_stale_tail (nodes s i) ev \<and> log_kept_or_saved (nodes s i) r (take n as)"

lemma step_okD:
  assumes "step_ok members s H i ev r as n"
  shows "i \<in> set members" "raft_step Debug (nodes s i) ev = Inr (r, as)" "possible s i ev"
    "node_wf (nodes s i)" "raft_id (nodes s i) = i" "peers (nodes s i) = others members i"
    "peers (nodes s i) \<noteq> []" "versions_wf H" "traced H (rlog (nodes s i))"
    "contiguous 0 (rlog (nodes s i))" "log (disks s i) = rlog (nodes s i)"
    "cterm (nodes s i) \<le> cterm r" "current_term (disks s i) \<le> cterm (nodes s i)"
    "\<And>e. e \<in> set (rlog (nodes s i)) \<Longrightarrow> entry_term e \<le> current_term (disks s i)"
    "election_inv members (handled s i r (take n as))" "nodes_ok members s"
proof -
  note d = assms [unfolded step_ok_def]
  show i: "i \<in> set members" and st: "raft_step Debug (nodes s i) ev = Inr (r, as)"
    and "possible s i ev" using d by (simp_all add: node_step_def)
  show nodes: "nodes_ok members s" using d by (simp add: election_inv_def)
  with i show "node_wf (nodes s i)" "raft_id (nodes s i) = i" and ps: "peers (nodes s i) = others members i"
    by (simp_all add: nodes_ok_def)
  have "length (others members i) \<noteq> 0"
    using length_others [of members i] i d by (simp add: cluster_ok_def)
  with ps show "peers (nodes s i) \<noteq> []" by auto
  show "versions_wf H" using d by (simp add: history_inv_def)
  have logs: "node_logs_ok members s H" using d by (simp add: history_inv_def)
  then show "traced H (rlog (nodes s i))" "contiguous 0 (rlog (nodes s i))"
    "log (disks s i) = rlog (nodes s i)" "current_term (disks s i) \<le> cterm (nodes s i)"
    "\<And>e. e \<in> set (rlog (nodes s i)) \<Longrightarrow> entry_term e \<le> current_term (disks s i)"
    using i by (simp_all add: node_logs_ok_def)
  show "cterm (nodes s i) \<le> cterm r" using term_vote_step [OF st] by (auto simp: term_vote_le_def)
  show "election_inv members (handled s i r (take n as))"
    using d by (intro election_inv_handled) auto
qed

lemma entries_pos:
  assumes "step_ok members s H i ev r as n" "e \<in> set (rlog (nodes s i))"
  shows "0 < entry_term e"
proof -
  let ?l = "rlog (nodes s i)"
  from assms(2) obtain q z where l: "?l = q @ e # z" by (auto simp: in_set_conv_decomp)
  then have "prefix (q @ [e]) ?l" by simp
  with step_okD(9) [OF assms(1)] obtain h where "h \<in> versions H (entry_term e)"
    unfolding traced_def by fastforce
  with version_term_pos [of members s H] assms(1) show ?thesis
    by (auto simp: step_ok_def history_inv_def)
qed

text \<open>An entry of the term in a log means that the term has versions.\<close>

lemma traced_entry_version:
  assumes "traced H l" "e \<in> set l"
  shows "versions H (entry_term e) \<noteq> {}"
proof -
  from assms(2) obtain q z where "l = q @ e # z" by (auto simp: in_set_conv_decomp)
  then have "prefix (q @ [e]) l" by simp
  with assms(1) show ?thesis unfolding traced_def by fastforce
qed

lemma leader_cases:
  assumes "step_ok members s H i ev r as n" "role r = Leader"
  shows "elected members s (cterm r) i \<and> cterm r = cterm (nodes s i) \<and>
    (role (nodes s i) = Leader \<or> (role (nodes s i) = Candidate \<and> versions H (cterm r) = {} \<and>
       rlog r = rlog (nodes s i)))"
proof -
  note d = step_okD [OF assms(1)]
  have inv: "cluster_ok members" "election_inv members s" "node_step members s i ev r as"
      "versions_settled members s H"
    using assms(1) by (simp_all add: step_ok_def history_inv_def)
  then have e: "nodes_ok members s" "grants_received members s" "votes_asked s" "leaders_elected members s"
    by (simp_all add: election_inv_def)
  from leader_after_step [OF inv(1) e inv(3) assms(2)]
  have after: "elected members s (cterm r) i" "cterm r = cterm (nodes s i)"
      "role (nodes s i) = Leader \<or> role (nodes s i) = Candidate"
    by blast+
  show ?thesis
  proof (cases "role (nodes s i) = Leader")
    case True
    with after show ?thesis by simp
  next
    case False
    with after(3) have cand: "role (nodes s i) = Candidate" by simp
    have "versions H (cterm r) = {}"
      using new_leader_no_entries [OF inv(2) _ after(1) cand after(2)] inv(4)
      by (auto simp: versions_settled_def)
    moreover have "rlog r = rlog (nodes s i)"
      using raft_step_role_change [OF d(4) d(2)] assms(2) cand d(7) by (auto simp: role_change_def)
    ultimately show ?thesis using after cand by simp
  qed
qed

text \<open>An accepted \<open>AppendEntries\<close>: the receiver keeps its log if it extends the sender's version, and takes over the version otherwise.\<close>

lemma accept_log_of:
  assumes "step_ok members s H i ev r as n" "ev = EvMessage (MAppendEntries m)" "acceptable (nodes s i) m"
    and "g \<in> versions H (ae_term m)" "rest_of g m"
  shows "cterm r = ae_term m \<and> rlog r = (if prefix g (rlog (nodes s i)) then rlog (nodes s i) else g)"
proof -
  note d = step_okD [OF assms(1)]
  have h: "handle_append_entries (nodes s i) m = (r, as)" using d(2) assms(2) by simp
  have t: "cterm r = ae_term m" and log: "rlog r = reconcile (rlog (nodes s i)) (entries m)"
    using append_entries_accepted_state [OF assms(3) h] cterm_ae_accepted [OF assms(3)] by simp_all
  have v: "contiguous 0 g" "traced H g"
    using d(8) assms(4) by (auto simp: versions_wf_def version_ok_def)
  have "log_matches (nodes s i) (prev_log_index m) (prev_log_term m)"
    using assms(3) by (simp add: acceptable_def)
  from reconcile_takes_version [OF d(10) v(1) traced_agree [OF d(8,9) v(2)] assms(5) this
      entries_pos [OF assms(1)]] log
  have "rlog r = (if take (length g) (rlog (nodes s i)) = g then rlog (nodes s i) else g)" by simp
  moreover have "take (length g) (rlog (nodes s i)) = g \<longleftrightarrow> prefix g (rlog (nodes s i))"
    by (metis append_eq_conv_conj prefix_def take_is_prefix)
  ultimately show ?thesis using t by auto
qed

lemma accept_log:
  assumes "step_ok members s H i ev r as n" "ev = EvMessage (MAppendEntries m)" "acceptable (nodes s i) m"
  shows "\<exists>g \<in> versions H (cterm r). rest_of g m \<and>
    rlog r = (if prefix g (rlog (nodes s i)) then rlog (nodes s i) else g)"
proof -
  have "sent_versions s H" using assms(1) by (simp add: step_ok_def history_inv_def)
  with step_okD(3) [OF assms(1)] assms(2) obtain g where "g \<in> versions H (ae_term m)" "rest_of g m"
    by (auto simp: possible_def sent_versions_def)
  with accept_log_of [OF assms this] show ?thesis by auto
qed

text \<open>The previous entry of an acceptable message lies in the sender's version.\<close>

lemma accept_covers:
  assumes "step_ok members s H i ev r as n" "acceptable (nodes s i) m" "rest_of g m"
  shows "unat (prev_log_index m) \<le> length g \<and> entries m = drop (unat (prev_log_index m)) g"
proof -
  note d = step_okD [OF assms(1)]
  have "\<not> length g < unat (prev_log_index m)"
  proof
    assume lt: "length g < unat (prev_log_index m)"
    with assms(3) have z: "prev_log_term m = 0" by (auto simp: rest_of_def Let_def)
    have pos: "0 < unat (prev_log_index m)" using lt by simp
    from assms(2) have "log_matches (nodes s i) (prev_log_index m) 0" using z by (simp add: acceptable_def)
    then have "prev_log_index m = 0 \<or> (unat (prev_log_index m) \<le> length (rlog (nodes s i)) \<and>
        entry_term (rlog (nodes s i) ! (unat (prev_log_index m) - 1)) = 0)"
      by (simp add: log_matches_contiguous [OF d(10)])
    with pos have k: "unat (prev_log_index m) - 1 < length (rlog (nodes s i))"
      "entry_term (rlog (nodes s i) ! (unat (prev_log_index m) - 1)) = 0" by auto
    from entries_pos [OF assms(1) nth_mem [OF k(1)]] k(2) show False by simp
  qed
  with assms(3) show ?thesis by (auto simp: rest_of_def Let_def)
qed

lemma accept_role:
  assumes "step_ok members s H i ev r as n" "ev = EvMessage (MAppendEntries m)" "acceptable (nodes s i) m"
  shows "role r = Follower"
proof -
  note d = step_okD [OF assms(1)]
  have h: "handle_append_entries (nodes s i) m = (r, as)" using d(2) assms(2) by simp
  from assms(1) obtain F where F: "election_inv members s" "appends_ok members F s"
    by (auto simp: step_ok_def)
  have "role (nodes s i) = Leader \<Longrightarrow> ae_term m \<noteq> cterm (nodes s i)"
    using leader_hears_none [OF F d(1)] d(3) assms(2) by simp
  then show ?thesis
    using append_entries_frame [OF h] assms(3) unfolding acceptable_def
    by (cases "role (nodes s i)") (auto simp: le_less)
qed

text \<open>The three ways a log goes through a step.\<close>

lemma log_cases [consumes 1, case_names kept appended accepted]:
  assumes "step_ok members s H i ev r as n"
  obtains "rlog r = rlog (nodes s i)"
  | e where "role (nodes s i) = Leader" "role r = Leader" "cterm r = cterm (nodes s i)"
      "rlog r = rlog (nodes s i) @ [e]" "entry_term e = cterm r" "contiguous 0 (rlog r)"
      "PersistState \<in> set (take n as)"
  | m g where "ev = EvMessage (MAppendEntries m)" "role r = Follower" "g \<in> versions H (cterm r)"
      "\<not> prefix g (rlog (nodes s i))" "rlog r = g" "PersistState \<in> set (take n as)"
proof (cases "rlog r = rlog (nodes s i)")
  case True
  then show thesis by (rule that(1))
next
  case False
  note d = step_okD [OF assms]
  have saved: "PersistState \<in> set (take n as)"
    using assms False by (auto simp: step_ok_def log_kept_or_saved_def)
  from raft_step_changes_log [OF d(2)] obtain ch where ch: "changes_log (nodes s i) ev r ch" by blast
  show thesis
  proof (cases ch)
    case Kept
    with ch False show thesis by simp
  next
    case (Appended e)
    with ch have a: "role (nodes s i) = Leader" "role r = Leader" "cterm r = cterm (nodes s i)"
      "rlog r = rlog (nodes s i) @ [e]" "entry_term e = cterm r"
      "add_u64 Debug (last_log_index (nodes s i)) 1 = Inr (index e)"
      by simp_all
    have "contiguous 0 (rlog r)" using contiguous_snoc [OF d(10) a(6)] a(4) by simp
    with a saved show thesis by (intro that(2))
  next
    case (Reconciled m)
    with ch have ev: "ev = EvMessage (MAppendEntries m)" by simp
    have acc: "acceptable (nodes s i) m"
    proof (rule ccontr)
      assume "\<not> acceptable (nodes s i) m"
      from append_entries_reject [OF this] d(2) ev False show False by auto
    qed
    from accept_log [OF assms ev acc] False obtain g where "g \<in> versions H (cterm r)"
      "\<not> prefix g (rlog (nodes s i))" "rlog r = g"
      by (auto split: if_splits)
    with accept_role [OF assms ev acc] ev saved show thesis by (intro that(3))
  qed
qed

text \<open>A truthful acceptance leaves a log that is a prefix of a version of the sender's term.\<close>

lemma accept_traced:
  assumes "step_ok members s H i ev r as n" "ev = EvMessage (MAppendEntries m)" "acceptable (nodes s i) m"
  shows "\<exists>h \<in> versions H (cterm r). prefix (rlog r) h"
proof -
  note d = step_okD [OF assms(1)]
  have h: "handle_append_entries (nodes s i) m = (r, as)" using d(2) assms(2) by simp
  have t: "cterm r = ae_term m" using append_entries_accepted_state [OF assms(3) h]
      cterm_ae_accepted [OF assms(3)] by simp
  from accept_log [OF assms] obtain g where g: "g \<in> versions H (cterm r)" "rest_of g m"
    "rlog r = (if prefix g (rlog (nodes s i)) then rlog (nodes s i) else g)"
    by blast
  show ?thesis
  proof (cases "rlog r = g")
    case True
    with g(1) show ?thesis by auto
  next
    case False
    with g(3) have own: "rlog r = rlog (nodes s i)" "prefix g (rlog r)" by (auto split: if_splits)
    then have longer: "length g < length (rlog r)" using False by (auto simp: prefix_def)
    have "unat (prev_log_index m) + length (entries m) = length g"
      using accept_covers [OF assms(1,3) g(2)] by simp
    then have "last_log_term r = cterm r"
      using assms(1,2,3) h longer t by (auto simp: step_ok_def stale_tail_def)
    moreover have "rlog r \<noteq> []" using longer by auto
    ultimately show ?thesis
      using traced_last [of H "rlog r"] own d(9)
      by (simp add: last_log_term_last_term last_term_def)
  qed
qed

section \<open>What a step sends\<close>

text \<open>A success reply comes from an acceptance and reports the whole log, which is on disk.\<close>

lemma new_reply:
  assumes "step_ok members s H i ev r as n"
    and "(to, MAppendEntriesResponse a) \<in> set (sends (take n as))" "success a"
  shows "aer_from a = i \<and> aer_term a = cterm r \<and> unat (aer_match_index a) = length (rlog r) \<and>
    PersistState \<in> set (take n as) \<and> role r = Follower \<and> (\<exists>h \<in> versions H (cterm r). prefix (rlog r) h)"
proof -
  note d = step_okD [OF assms(1)]
  from assms(2) have sent: "Send to (MAppendEntriesResponse a) \<in> set (take n as)" by simp
  note sent' = in_set_takeD [OF this]
  from raft_step_sends [OF d(2) sent'] obtain m where ev: "ev = EvMessage (MAppendEntries m)"
    and a: "aer_from a = i" "aer_term a = cterm r"
    using d(5) by (auto simp: send_ok_def)
  have h: "handle_append_entries (nodes s i) m = (r, as)" using d(2) ev by simp
  have acc: "acceptable (nodes s i) m"
  proof (rule ccontr)
    assume "\<not> acceptable (nodes s i) m"
    from append_entries_reject [OF this] h sent' assms(3) show False
      by (auto simp: append_entries_response_def)
  qed
  from append_entries_sends [OF h sent'] obtain b where
    "Send to (MAppendEntriesResponse a) = append_entries_response r (leader_id m) b" by blast
  from append_entries_response_cases [OF this] assms(3) have "aer_match_index a = last_log_index r"
    by (cases b) auto
  moreover have "contiguous 0 (rlog r)"
    using assms(1)
  proof (cases rule: log_cases)
    case (accepted m g)
    with d(8) show ?thesis by (auto simp: versions_wf_def version_ok_def)
  qed (use d(10) in simp_all)
  moreover have "PersistState \<in> set (take n as)"
    using promise_persisted [OF persist_first_take [OF persist_first_step [OF d(2)]] sent] assms(3)
    by simp
  ultimately show ?thesis
    using a accept_role [OF assms(1) ev acc] accept_traced [OF assms(1) ev acc] unat_last_log_index
    by simp
qed

lemma new_append:
  assumes "step_ok members s H i ev r as n" "(to, MAppendEntries m) \<in> set (sends (take n as))"
  shows "role (nodes s i) = Leader \<and> r = nodes s i \<and> (\<exists>k. m = peer_append_entries (nodes s i) k)"
proof -
  from assms(2) have "Send to (MAppendEntries m) \<in> set as" by (auto dest: in_set_takeD)
  from raft_step_sends [OF step_okD(2) [OF assms(1)] this] show ?thesis by (auto simp: send_ok_def)
qed

text \<open>A request for votes carries the last index and term of the candidate's log.\<close>

lemma request_vote_fields:
  assumes "raft_step Debug r ev = Inr (r', as)" "Send to (MRequestVote m) \<in> set as"
  shows "ev = ElectionTimeout \<and> role r' = Candidate \<and> cterm r < cterm r' \<and>
    rv_last_log_index m = last_log_index r' \<and> rv_last_log_term m = last_log_term r'"
proof (cases ev rule: raft_event_cases)
  case ElectionT
  then have h: "handle_election_timeout Debug r = Inr (r', as)" using assms(1) by simp
  have lead: "role r \<noteq> Leader" and peers: "peers r \<noteq> []"
    using h assms(2) by (auto simp: handle_election_timeout_def and_then_eq_Inr Let_def split: if_splits)
  note c = election_timeout_candidate [OF lead peers h]
  from assms(2) c(10) have "rv_last_log_index m = last_log_index r' \<and> rv_last_log_term m = last_log_term r'"
    by (auto simp: create_vote_action_def)
  with c(1,2) add_u64_Debug_less ElectionT show ?thesis by auto
qed (use assms in \<open>auto simp: handle_request_vote_def handle_vote_response_def handle_client_request_def
      vote_response_def append_entries_response_def Let_def and_then_eq_Inr
    split: if_splits option.splits prod.splits
    dest: append_entries_sends append_entries_response_sends try_advance_sends heartbeat_action_cases\<close>)

lemma candidate_log:
  assumes "step_ok members s H i ev r as n" "role r \<noteq> Leader" "role r \<noteq> Follower"
  shows "rlog r = rlog (nodes s i)"
  using assms(1) by (cases rule: log_cases) (use assms(2,3) in simp_all)

lemma new_request_vote:
  assumes "step_ok members s H i ev r as n" "(to, MRequestVote m) \<in> set (sends (take n as))"
  shows "candidate_id m = i \<and> rv_term m = cterm r \<and> role r = Candidate \<and>
    cterm (nodes s i) < cterm r \<and> log_fields m (rlog (nodes s i))"
proof -
  note d = step_okD [OF assms(1)]
  from assms(2) have sent: "Send to (MRequestVote m) \<in> set as" by (auto dest: in_set_takeD)
  from raft_step_sends [OF d(2) sent] d(5) have "candidate_id m = i" "rv_term m = cterm r"
    by (simp_all add: send_ok_def)
  moreover note rv = request_vote_fields [OF d(2) sent]
  moreover have "rlog r = rlog (nodes s i)" using candidate_log [OF assms(1)] rv by simp
  moreover from this have "log_fields m (rlog (nodes s i))"
    using rv unat_last_log_index [of r] d(10) by (simp add: log_fields_def last_log_term_last_term)
  ultimately show ?thesis by simp
qed

lemma candidate_log_fields:
  assumes "contiguous 0 (rlog r)" "candidate_log_up_to_date r m"
  shows "fields_up_to_date m (rlog r)"
  using assms(2) unat_last_log_index [OF assms(1)]
  by (auto simp: candidate_log_up_to_date_def fields_up_to_date_def last_log_term_last_term
      word_le_nat_alt)

text \<open>A new vote is for a candidate whose request, on the network, is up to date with the voter's log.\<close>

lemma new_vote_request:
  assumes "step_ok members s H i ev r as n" "voted (net s @ sends (take n as)) u v c" "\<not> voted (net s) u v c"
  shows "v = i \<and> u = cterm r \<and> (\<exists>to m. (to, MRequestVote m) \<in> set (net s @ sends (take n as)) \<and>
    rv_term m = u \<and> candidate_id m = c \<and> fields_up_to_date m (rlog (nodes s i)))"
proof -
  note d = step_okD [OF assms(1)]
  have ns: "node_step members s i ev r as" using assms(1) by (simp add: step_ok_def)
  from new_vote [OF d(16) ns assms(2)] assms(3) have vi: "v = i" "u = cterm r" by auto
  from assms(2,3) consider
      to m where "(to, MRequestVote m) \<in> set (sends (take n as))" "rv_term m = u" "candidate_id m = c"
    | g where "Send c (MRequestVoteResponse g) \<in> set (take n as)" "rvr_term g = u" "vote_granted g"
        "vote_from g = v"
    by (auto simp: vote_defs)
  then show ?thesis
  proof cases
    case (1 to m)
    from new_request_vote [OF assms(1) 1(1)] have "log_fields m (rlog (nodes s i))" by simp
    with fields_up_to_date_log 1 vi show ?thesis by fastforce
  next
    case (2 g)
    from raft_step_sends [OF d(2) in_set_takeD [OF 2(1)]] 2(3) obtain m where
      m: "ev = EvMessage (MRequestVote m)" "c = candidate_id m" "rvr_term g = rv_term m"
      by (auto simp: send_ok_def)
    have h: "handle_request_vote (nodes s i) m = (r, as)" using d(2) m(1) by simp
    have "grants (nodes s i) m"
    proof (rule ccontr)
      assume "\<not> grants (nodes s i) m"
      from handle_request_vote_refuse [OF this] h in_set_takeD [OF 2(1)] 2(3) show False
        by (auto simp: Let_def vote_response_def)
    qed
    then have "fields_up_to_date m (rlog (nodes s i))"
      using candidate_log_fields [OF d(10)] by (simp add: grants_def)
    moreover have "(i, MRequestVote m) \<in> set (net s)" using d(3) m(1) by (simp add: possible_def)
    ultimately show ?thesis using vi m 2(2) by auto
  qed
qed

section \<open>The history follows\<close>

definition advance :: "System \<Rightarrow> NodeId \<Rightarrow> Raft \<Rightarrow> (NodeId \<times> Message) list \<Rightarrow> History \<Rightarrow> History" where
  "advance s i r ms H =
     (let u = cterm r in
      \<lparr>versions = (if role r = Leader then (versions H)(u := insert (rlog r) (versions H u)) else versions H),
       base = (if role r = Leader \<and> versions H u = {} then (base H)(u := rlog r) else base H),
       snapshot = (if versions H u = {} \<and> snapshot H i u = None \<and> (\<exists>c. voted ms u i c)
         then (snapshot H)(i := (snapshot H i)(u := Some (rlog (nodes s i)))) else snapshot H)\<rparr>)"

lemma versions_advance:
  "versions (advance s i r ms H) t =
     (if role r = Leader \<and> t = cterm r then insert (rlog r) (versions H t) else versions H t)"
  by (simp add: advance_def Let_def)

lemma versions_advance_mono: "versions H t \<subseteq> versions (advance s i r ms H) t"
  by (auto simp: versions_advance)

lemma base_advance:
  "base (advance s i r ms H) t =
     (if role r = Leader \<and> versions H t = {} \<and> t = cterm r then rlog r else base H t)"
  by (auto simp: advance_def Let_def)

lemma snapshot_advance:
  "snapshot (advance s i r ms H) v t =
     (if v = i \<and> t = cterm r \<and> versions H t = {} \<and> snapshot H i t = None \<and> (\<exists>c. voted ms t i c)
      then Some (rlog (nodes s i)) else snapshot H v t)"
  by (simp add: advance_def Let_def)

lemma snapshot_advance_mono:
  "snapshot H v t = Some l \<Longrightarrow> snapshot (advance s i r ms H) v t = Some l"
  by (auto simp: snapshot_advance)

lemma traced_advance: "traced H l \<Longrightarrow> traced (advance s i r ms H) l"
  using traced_mono versions_advance_mono by blast

lemma broken_advance: "broken H w p \<Longrightarrow> broken (advance s i r ms H) w p"
  using versions_advance_mono unfolding broken_def by blast

text \<open>The new log is a prefix-extension of every old version of a leader's term.\<close>

lemma leader_extends:
  assumes "step_ok members s H i ev r as n" "role r = Leader" "h \<in> versions H (cterm r)"
  shows "prefix h (rlog (nodes s i)) \<and> prefix h (rlog r) \<and> role (nodes s i) = Leader"
proof -
  have lead: "role (nodes s i) = Leader" "cterm r = cterm (nodes s i)"
    using leader_cases [OF assms(1,2)] assms(3) by auto
  have "leader_versions members s H" using assms(1) by (simp add: step_ok_def history_inv_def)
  with lead assms(3) step_okD(1) [OF assms(1)] have p: "prefix h (rlog (nodes s i))"
    by (simp add: leader_versions_def)
  from assms(1) have "prefix h (rlog r)"
    by (cases rule: log_cases) (use p assms(2) in simp_all)
  with p lead show ?thesis by simp
qed

lemma disk_after:
  assumes "step_ok members s H i ev r as n"
  shows "log (disks (handled s i r (take n as)) i) = rlog r \<and>
    current_term (disks s i) \<le> current_term (disks (handled s i r (take n as)) i) \<and>
    current_term (disks (handled s i r (take n as)) i) \<le> cterm r"
proof -
  note d = step_okD [OF assms]
  have "rlog r = rlog (nodes s i) \<or> PersistState \<in> set (take n as)"
    using assms by (simp add: step_ok_def log_kept_or_saved_def)
  with d(11-13) show ?thesis by auto
qed

end
