(* ===== verification/HistoryInvariant.thy ===== *)
theory HistoryInvariant
  imports HistorySteps
begin

text \<open>
  The invariant of theory \<open>History\<close> is kept by every step of a truthful run, one lemma per part.
  Throughout, a step of node \<open>i\<close> makes \<open>r\<close> of it and carries out the first \<open>n\<close> of its actions; the
  history advances with it.
\<close>

abbreviation after :: "System \<Rightarrow> NodeId \<Rightarrow> Raft \<Rightarrow> Action list \<Rightarrow> nat \<Rightarrow> System" where
  "after s i r as n \<equiv> handled s i r (take n as)"

abbreviation history_after :: "System \<Rightarrow> NodeId \<Rightarrow> Raft \<Rightarrow> Action list \<Rightarrow> nat \<Rightarrow> History \<Rightarrow> History" where
  "history_after s i r as n H \<equiv> advance s i r (net s @ sends (take n as)) H"

lemma step_ok_inv:
  assumes "step_ok members s H i ev r as n"
  shows "versions_wf H" "versions_settled members s H" "node_logs_ok members s H"
    "leader_versions members s H" "sent_versions s H" "replies_backed members s H"
    "acks_kept members s H" "candidates_ask members s" "snapshots_ok members s H"
    "votes_recorded s H" "winners_up_to_date members H" "election_inv members s" "cluster_ok members"
    "node_step members s i ev r as"
  using assms by (simp_all add: step_ok_def history_inv_def)

section \<open>Versions and logs\<close>

lemma versions_settled_after:
  assumes "step_ok members s H i ev r as n"
  shows "versions_settled members (after s i r as n) (history_after s i r as n H)"
  unfolding versions_settled_def
proof (intro allI impI)
  fix t assume t: "versions (history_after s i r as n H) t \<noteq> {}"
  note inv = step_ok_inv [OF assms]
  show "settled members (after s i r as n) t"
  proof (cases "versions H t = {}")
    case False
    with inv(2) settled_handled [OF inv(12,14)] show ?thesis by (simp add: versions_settled_def)
  next
    case True
    with t have lead: "role r = Leader" "t = cterm r" by (auto simp: versions_advance split: if_splits)
    with leader_cases [OF assms lead(1)] have "elected members s t i" by metis
    from elected_mono [OF this, of "after s i r as n"] lead show ?thesis
      by (auto simp: settled_def)
  qed
qed

lemma log_version:
  assumes "step_ok members s H i ev r as n"
  shows "traced (history_after s i r as n H) (rlog r) \<and> contiguous 0 (rlog r)"
  using assms
proof (cases rule: log_cases)
  case kept
  with step_okD(9,10) [OF assms] show ?thesis by (simp add: traced_advance)
next
  case (appended e)
  then have "\<exists>h \<in> versions (history_after s i r as n H) (entry_term e). prefix (rlog (nodes s i) @ [e]) h"
    by (auto simp: versions_advance)
  with appended traced_snoc [OF traced_advance [OF step_okD(9) [OF assms]]] show ?thesis by simp
next
  case (accepted m g)
  with step_ok_inv(1) [OF assms] have "version_ok H (cterm r) g" by (simp add: versions_wf_def)
  with accepted show ?thesis by (simp add: version_ok_def traced_advance)
qed

lemma node_logs_ok_after:
  assumes "step_ok members s H i ev r as n"
  shows "node_logs_ok members (after s i r as n) (history_after s i r as n H)"
  unfolding node_logs_ok_def
proof (intro ballI)
  fix j assume j: "j \<in> set members"
  let ?s = "after s i r as n" and ?H = "history_after s i r as n H"
  note inv = step_ok_inv [OF assms] and d = step_okD [OF assms]
  show "traced ?H (rlog (nodes ?s j)) \<and> contiguous 0 (rlog (nodes ?s j)) \<and>
    log (disks ?s j) = rlog (nodes ?s j) \<and> current_term (disks ?s j) \<le> cterm (nodes ?s j) \<and>
    (\<forall>e \<in> set (rlog (nodes ?s j)). entry_term e \<le> current_term (disks ?s j))"
  proof (cases "j = i")
    case False
    with inv(3) j show ?thesis by (auto simp: node_logs_ok_def traced_advance)
  next
    case True
    note disk = disk_after [OF assms]
    have "entry_term e \<le> current_term (disks ?s i)" if e: "e \<in> set (rlog r)" for e
      using assms
    proof (cases rule: log_cases)
      case kept
      with e d(14) disk show ?thesis by fastforce
    next
      case (appended x)
      then have disk_term: "current_term (disks ?s i) = cterm r" by simp
      from e appended have "e \<in> set (rlog (nodes s i)) \<or> e = x" by auto
      with appended(5) d(12,13,14) disk_term show ?thesis by fastforce
    next
      case (accepted m g)
      then have "current_term (disks ?s i) = cterm r" by simp
      with accepted(3,5) e version_term_le [OF inv(1), of g "cterm r" g e] show ?thesis by simp
    qed
    with True disk log_version [OF assms] show ?thesis by simp
  qed
qed

lemma version_ok_after:
  assumes "step_ok members s H i ev r as n" "h \<in> versions (history_after s i r as n H) t"
  shows "version_ok (history_after s i r as n H) t h"
proof (cases "h \<in> versions H t")
  case True
  with step_ok_inv(1) [OF assms(1)] have "version_ok H t h" by (simp add: versions_wf_def)
  with True show ?thesis by (auto simp: version_ok_def base_advance traced_advance)
next
  case False
  with assms(2) have h: "h = rlog r" "role r = Leader" "t = cterm r"
    by (auto simp: versions_advance split: if_splits)
  note d = step_okD [OF assms(1)] and inv = step_ok_inv [OF assms(1)]
  note lead = leader_cases [OF assms(1) h(2)]
  show ?thesis
  proof (cases "versions H t = {}")
    case True
    have "entry_term e < t" if "e \<in> set (rlog r)" for e
    proof -
      have "role (nodes s i) = Leader \<Longrightarrow> rlog (nodes s i) \<in> versions H (cterm (nodes s i))"
        using inv(4) d(1) by (simp add: leader_versions_def)
      with lead True h(3) have same: "rlog r = rlog (nodes s i)" by auto
      then have "entry_term e \<le> cterm r" using d(12-14) that by fastforce
      moreover have "entry_term e \<noteq> t"
        using traced_entry_version [OF d(9)] that same True by auto
      ultimately show ?thesis using h(3) by simp
    qed
    then show ?thesis using True h log_version [OF assms(1)]
      by (auto simp: version_ok_def base_advance less_imp_le)
  next
    case False
    then obtain g where g: "g \<in> versions H t" by blast
    from leader_extends [OF assms(1) h(2), of g] g h(3)
    have rl: "role (nodes s i) = Leader" "cterm r = cterm (nodes s i)" using lead by auto
    with inv(4) d(1) have own: "rlog (nodes s i) \<in> versions H t"
      using h(3) by (simp add: leader_versions_def)
    then have ok: "version_ok H t (rlog (nodes s i))" using inv(1) by (simp add: versions_wf_def)
    from assms(1) show ?thesis
    proof (cases rule: log_cases)
      case kept
      with \<open>h \<notin> versions H t\<close> own h(1) show ?thesis by simp
    next
      case (appended e)
      with ok h False log_version [OF assms(1)] show ?thesis
        by (auto simp: version_ok_def base_advance dest: prefix_length_le)
    qed (use h in simp)
  qed
qed

lemma versions_wf_after:
  assumes "step_ok members s H i ev r as n"
  shows "versions_wf (history_after s i r as n H)"
proof -
  note inv = step_ok_inv [OF assms]
  have "prefix g h \<or> prefix h g" if gh: "g \<in> versions (history_after s i r as n H) t"
    "h \<in> versions (history_after s i r as n H) t" for t g h
  proof (cases "role r = Leader \<and> t = cterm r")
    case True
    with leader_extends [OF assms] have "\<forall>h \<in> versions H t. prefix h (rlog r)" by simp
    moreover have "prefix g h \<or> prefix h g" if "g \<in> versions H t" "h \<in> versions H t"
      using that inv(1) unfolding versions_wf_def by blast
    ultimately show ?thesis using gh True by (auto simp: versions_advance)
  next
    case False
    with gh have "g \<in> versions H t" "h \<in> versions H t" by (auto simp: versions_advance split: if_splits)
    with inv(1) show ?thesis unfolding versions_wf_def by blast
  qed
  with version_ok_after [OF assms] show ?thesis by (simp add: versions_wf_def)
qed

lemma leader_versions_after:
  assumes "step_ok members s H i ev r as n"
  shows "leader_versions members (after s i r as n) (history_after s i r as n H)"
  unfolding leader_versions_def
proof (intro ballI impI)
  fix j
  let ?s = "after s i r as n" and ?H = "history_after s i r as n H"
  assume j: "j \<in> set members" "role (nodes ?s j) = Leader"
  note inv = step_ok_inv [OF assms]
  show "rlog (nodes ?s j) \<in> versions ?H (cterm (nodes ?s j)) \<and>
    (\<forall>h \<in> versions ?H (cterm (nodes ?s j)). prefix h (rlog (nodes ?s j)))"
  proof (cases "j = i")
    case True
    with j leader_extends [OF assms] show ?thesis by (auto simp: versions_advance)
  next
    case False
    with j have lead: "role (nodes s j) = Leader" by simp
    then have "elected members s (cterm (nodes s j)) j"
      using inv(12) j(1) by (simp add: election_inv_def leaders_elected_def)
    then have "\<not> (role r = Leader \<and> cterm r = cterm (nodes s j))"
      using leader_cases [OF assms] inv(12) False elected_unique [of s members "cterm r" i j]
      by (auto simp: election_inv_def)
    then have "versions ?H (cterm (nodes s j)) = versions H (cterm (nodes s j))"
      by (auto simp: versions_advance)
    with inv(4) j(1) lead False show ?thesis by (simp add: leader_versions_def)
  qed
qed

section \<open>Messages\<close>

lemma sent_versions_after:
  assumes "step_ok members s H i ev r as n"
  shows "sent_versions (after s i r as n) (history_after s i r as n H)"
  unfolding sent_versions_def
proof (intro allI impI)
  fix to m
  assume m: "(to, MAppendEntries m) \<in> set (net (after s i r as n))"
  note inv = step_ok_inv [OF assms] and d = step_okD [OF assms]
  have "\<exists>g \<in> versions H (ae_term m). rest_of g m"
  proof (cases "(to, MAppendEntries m) \<in> set (net s)")
    case True
    with inv(5) show ?thesis by (simp add: sent_versions_def)
  next
    case False
    with m have "(to, MAppendEntries m) \<in> set (sends (take n as))" by auto
    from new_append [OF assms this] obtain k where k: "role (nodes s i) = Leader"
      "m = peer_append_entries (nodes s i) k" by blast
    with inv(4) d(1) rest_of_peer_append_entries [OF d(10), of k] show ?thesis
      by (auto simp: leader_versions_def peer_append_entries_def)
  qed
  with versions_advance_mono show "\<exists>g \<in> versions (history_after s i r as n H) (ae_term m). rest_of g m"
    by blast
qed

lemma replies_backed_after:
  assumes "step_ok members s H i ev r as n"
  shows "replies_backed members (after s i r as n) (history_after s i r as n H)"
  unfolding replies_backed_def
proof (intro allI impI)
  fix to a
  let ?s = "after s i r as n" and ?H = "history_after s i r as n H"
  assume a: "(to, MAppendEntriesResponse a) \<in> set (net ?s)" "success a"
  note inv = step_ok_inv [OF assms] and d = step_okD [OF assms]
  show "aer_from a \<in> set members \<and> aer_term a \<le> current_term (disks ?s (aer_from a)) \<and>
    (\<exists>h \<in> versions ?H (aer_term a). unat (aer_match_index a) \<le> length h)"
  proof (cases "(to, MAppendEntriesResponse a) \<in> set (net s)")
    case True
    with inv(6) a(2) have old: "aer_from a \<in> set members"
      "aer_term a \<le> current_term (disks s (aer_from a))"
      "\<exists>h \<in> versions H (aer_term a). unat (aer_match_index a) \<le> length h"
      by (auto simp: replies_backed_def)
    moreover have "current_term (disks s (aer_from a)) \<le> current_term (disks ?s (aer_from a))"
      using disk_after [OF assms] by auto
    ultimately show ?thesis using versions_advance_mono by (meson order.trans subsetD)
  next
    case False
    with a(1) have "(to, MAppendEntriesResponse a) \<in> set (sends (take n as))" by auto
    from new_reply [OF assms this a(2)] obtain h where new: "aer_from a = i" "aer_term a = cterm r"
      "unat (aer_match_index a) = length (rlog r)" "PersistState \<in> set (take n as)"
      "h \<in> versions H (cterm r)" "prefix (rlog r) h" by blast
    moreover have "h \<in> versions ?H (cterm r)" using new(5) versions_advance_mono by blast
    ultimately show ?thesis using d(1) prefix_length_le by auto
  qed
qed

section \<open>Acknowledgements\<close>

lemma acked_term:
  assumes "election_inv members s" "replies_backed members s H" "acked members s H v t p"
  shows "v \<in> set members \<and> t \<le> current_term (disks s v)"
proof -
  from assms(3) consider "replied (net s) v t (length p)" | "elected members s t v"
    by (auto simp: acked_def)
  then show ?thesis
  proof cases
    case 1
    with assms(2) show ?thesis by (auto simp: replied_def replies_backed_def)
  next
    case 2
    with elected_member [OF assms(1)] have "v \<in> set members" "voted (net s) t v v" by auto
    with assms(1) show ?thesis unfolding election_inv_def votes_held_def holds_vote_def by (metis less_imp_le order.refl)
  qed
qed

lemma replied_append:
  "replied (net s @ sends as) v t k \<Longrightarrow> replied (net s) v t k \<or>
     (\<exists>to a. (to, MAppendEntriesResponse a) \<in> set (sends as) \<and> success a \<and> aer_from a = v \<and>
        aer_term a = t \<and> k \<le> unat (aer_match_index a))"
  unfolding replied_def by auto

text \<open>A step's new acknowledgements are the node's own, in its term, of what it has on disk.\<close>

lemma acked_after:
  assumes "step_ok members s H i ev r as n"
    and "acked members (after s i r as n) (history_after s i r as n H) v t p"
  shows "acked members s H v t p \<or> (v = i \<and> t = cterm r \<and> prefix p (rlog r))"
proof -
  let ?s = "after s i r as n" and ?H = "history_after s i r as n H"
  note inv = step_ok_inv [OF assms(1)] and d = step_okD [OF assms(1)]
  from assms(2) obtain h where h: "h \<in> versions ?H t" "prefix p h"
    and ack: "replied (net ?s) v t (length p) \<or> elected members ?s t v"
    by (auto simp: acked_def)
  have el: "elected members s t v" if "elected members ?s t v" "elected members s t c" for c
  proof -
    from that(2) have "elected members ?s t c" by (rule elected_mono) auto
    with elected_unique [of ?s members t c v] that d(15) show ?thesis by (simp add: election_inv_def)
  qed
  have new: "v = i \<and> t = cterm r \<and> length p \<le> length (rlog r) \<and> role r = Follower \<and>
      (\<exists>h \<in> versions H t. prefix (rlog r) h)"
    if "replied (net ?s) v t (length p)" "\<not> replied (net s) v t (length p)"
  proof -
    from that replied_append [of s "take n as" v t "length p"] obtain to a where a:
      "(to, MAppendEntriesResponse a) \<in> set (sends (take n as))" "success a" "aer_from a = v"
      "aer_term a = t" "length p \<le> unat (aer_match_index a)" by auto
    from new_reply [OF assms(1) a(1,2)] a(3-5) show ?thesis by auto
  qed
  show ?thesis
  proof (cases "\<exists>g \<in> versions H t. prefix p g")
    case True
    then obtain g where g: "g \<in> versions H t" "prefix p g" by blast
    show ?thesis
    proof (cases "replied (net s) v t (length p)")
      case True
      with g show ?thesis by (auto simp: acked_def)
    next
      case False
      with ack new consider "elected members ?s t v"
        | k where "v = i" "t = cterm r" "length p \<le> length (rlog r)" "k \<in> versions H t" "prefix (rlog r) k"
        by blast
      then show ?thesis
      proof cases
        case 1
        from inv(2) g(1) obtain c where "elected members s t c"
          by (auto simp: versions_settled_def settled_def)
        with el [OF 1] g show ?thesis by (auto simp: acked_def)
      next
        case (2 k)
        with versions_chain [OF inv(1) g(1) 2(4) g(2) 2(5,3)] show ?thesis by simp
      qed
    qed
  next
    case False
    with h have lead: "role r = Leader" "t = cterm r" "h = rlog r"
      by (auto simp: versions_advance split: if_splits)
    note lc = leader_cases [OF assms(1) lead(1)]
    have "v = i"
    proof (rule ccontr)
      assume ne: "v \<noteq> i"
      have "\<not> elected members ?s t v"
      proof
        assume "elected members ?s t v"
        moreover have "elected members ?s t i" by (rule elected_mono [of members s]) (use lc lead in auto)
        ultimately show False using elected_unique [of ?s members t i v] d(15) ne
          by (simp add: election_inv_def)
      qed
      with ack new lead(1) have "replied (net s) v t (length p)" by auto
      with inv(6) obtain g where g: "g \<in> versions H t" "length p \<le> length g"
        by (fastforce simp: replied_def replies_backed_def)
      have "prefix g (rlog r)" using leader_extends [OF assms(1) lead(1)] g(1) lead(2) by simp
      with h(2) lead(3) g(2) have "prefix p g" by (metis prefix_length_prefix)
      with False g(1) show False by blast
    qed
    with lead h(2) show ?thesis by simp
  qed
qed

lemma acks_kept_after:
  assumes "step_ok members s H i ev r as n"
  shows "acks_kept members (after s i r as n) (history_after s i r as n H)"
  unfolding acks_kept_def
proof (intro allI impI)
  fix v t p
  let ?s = "after s i r as n" and ?H = "history_after s i r as n H"
  assume ack: "acked members ?s ?H v t p"
  note inv = step_ok_inv [OF assms] and d = step_okD [OF assms] and disk = disk_after [OF assms]
  show "prefix p (log (disks ?s v)) \<or> (\<exists>w. t < w \<and> w \<le> current_term (disks ?s v) \<and> broken ?H w p)"
  proof (cases "acked members s H v t p")
    case False
    with acked_after [OF assms ack] disk show ?thesis by auto
  next
    case old: True
    from inv(7) old consider "prefix p (log (disks s v))"
      | w where "t < w" "w \<le> current_term (disks s v)" "broken H w p"
      unfolding acks_kept_def by blast
    then show ?thesis
    proof cases
      case (2 w)
      moreover have "current_term (disks s v) \<le> current_term (disks ?s v)" using disk by auto
      ultimately show ?thesis using broken_advance by (meson order.trans)
    next
      case 1
      show ?thesis
      proof (cases "v = i")
        case False
        with 1 show ?thesis by simp
      next
        case True
        with 1 d(11) have p: "prefix p (rlog (nodes s i))" by simp
        from assms have "prefix p (rlog r) \<or> (t < cterm r \<and> current_term (disks ?s i) = cterm r \<and>
            broken H (cterm r) p)"
        proof (cases rule: log_cases)
          case kept
          with p show ?thesis by simp
        next
          case (appended e)
          with p show ?thesis by auto
        next
          case (accepted m g)
          show ?thesis
          proof (cases "prefix p g")
            case True
            with accepted show ?thesis by simp
          next
            case no: False
            have "t \<le> cterm r" using acked_term [OF inv(12,6) old] True d(12,13) by (meson order.trans)
            moreover have "t \<noteq> cterm r"
            proof
              assume t: "t = cterm r"
              from old obtain h where h: "h \<in> versions H t" "prefix p h" by (auto simp: acked_def)
              have "prefix g p"
                using versions_chain [OF inv(1), of g t h g p] versions_chain [OF inv(1), of h t g p g]
                  accepted(3) h t no by (meson linear prefix_order.refl)
              with p have "prefix g (rlog (nodes s i))" using prefix_order.trans by blast
              with accepted(4) show False ..
            qed
            ultimately show ?thesis using accepted no by (auto simp: broken_def)
          qed
        qed
        with True disk broken_advance show ?thesis by auto
      qed
    qed
  qed
qed

section \<open>Votes\<close>

lemma voted_term:
  assumes "election_inv members s" "voted (net s) u v c"
  shows "u \<le> cterm (nodes s v)"
  using assms unfolding election_inv_def votes_held_def holds_vote_def
  by (metis less_imp_le order.refl)

lemma candidates_ask_after:
  assumes "step_ok members s H i ev r as n"
  shows "candidates_ask members (after s i r as n)"
  unfolding candidates_ask_def
proof (intro ballI allI impI)
  fix j to m
  let ?s = "after s i r as n"
  assume j: "j \<in> set members" "role (nodes ?s j) = Candidate"
    and m: "(to, MRequestVote m) \<in> set (net ?s)" "candidate_id m = j" "rv_term m = cterm (nodes ?s j)"
  note inv = step_ok_inv [OF assms] and d = step_okD [OF assms]
  have new: "candidate_id m = i \<and> log_fields m (rlog (nodes s i))"
    if "(to, MRequestVote m) \<notin> set (net s)"
    using that m(1) new_request_vote [OF assms, of to m] by auto
  show "log_fields m (rlog (nodes ?s j))"
  proof (cases "j = i")
    case False
    with m(2) new have "(to, MRequestVote m) \<in> set (net s)" by auto
    with False j m inv(8) show ?thesis by (simp add: candidates_ask_def)
  next
    case True
    with j(2) have cand: "role r = Candidate" by simp
    then have log: "rlog r = rlog (nodes s i)" using candidate_log [OF assms] by simp
    show ?thesis
    proof (cases "(to, MRequestVote m) \<in> set (net s)")
      case False
      with new log True show ?thesis by simp
    next
      case old: True
      then have "voted (net s) (cterm r) i i" using m(2,3) True by (auto simp: vote_defs)
      from voted_term [OF inv(12) this] have "cterm r \<le> cterm (nodes s i)" .
      with raft_step_role_change [OF d(4) d(2)] cand
      have "role (nodes s i) = Candidate" "cterm r = cterm (nodes s i)"
        by (auto simp: role_change_def)
      with inv(8) d(1) old m True log show ?thesis by (simp add: candidates_ask_def)
    qed
  qed
qed

lemma snapshot_kept:
  assumes "step_ok members s H i ev r as n" "snapshot_ok members s H v u l"
  shows "snapshot_ok members (after s i r as n) (history_after s i r as n H) v u l"
proof -
  let ?s = "after s i r as n" and ?H = "history_after s i r as n H"
  note inv = step_ok_inv [OF assms(1)] and d = step_okD [OF assms(1)]
  have sub: "set (net s) \<subseteq> set (net ?s)" by simp
  from assms(2) obtain to m where m: "(to, MRequestVote m) \<in> set (net s)" "rv_term m = u"
    "voted (net s) u v (candidate_id m)" "fields_up_to_date m l"
    unfolding snapshot_ok_def by blast
  have "prefix p l \<or> (\<exists>w. t < w \<and> w < u \<and> broken ?H w p)"
    if ack: "acked members ?s ?H v t p" and lt: "t < u" for t p
  proof -
    have "acked members s H v t p"
    proof (rule ccontr)
      assume "\<not> ?thesis"
      with acked_after [OF assms(1) ack] have "v = i" "t = cterm r" by auto
      with voted_term [OF inv(12) m(3)] d(12) lt show False by simp
    qed
    with assms(2) lt broken_advance show ?thesis unfolding snapshot_ok_def by blast
  qed
  moreover have "(to, MRequestVote m) \<in> set (net ?s)" using m(1) by simp
  moreover have "voted (net ?s) u v (candidate_id m)" by (rule voted_mono [OF m(3) sub])
  ultimately show ?thesis
    using assms(2) m(2,4) traced_advance unfolding snapshot_ok_def by blast
qed

lemma snapshot_taken:
  assumes "step_ok members s H i ev r as n" "versions H (cterm r) = {}" "snapshot H i (cterm r) = None"
    "voted (net (after s i r as n)) (cterm r) i c"
  shows "snapshot_ok members (after s i r as n) (history_after s i r as n H) i (cterm r) (rlog (nodes s i))"
proof -
  let ?s = "after s i r as n" and ?H = "history_after s i r as n H" and ?u = "cterm r"
  note inv = step_ok_inv [OF assms(1)] and d = step_okD [OF assms(1)]
  have "\<not> voted (net s) ?u i c"
    using inv(10) assms(2,3) unfolding votes_recorded_def by blast
  from new_vote_request [OF assms(1) _ this] assms(4) obtain to m where
    m: "(to, MRequestVote m) \<in> set (net ?s)" "rv_term m = ?u" "candidate_id m = c"
      "fields_up_to_date m (rlog (nodes s i))"
    by auto
  have "prefix p (rlog (nodes s i)) \<or> (\<exists>w. t < w \<and> w < ?u \<and> broken ?H w p)"
    if ack: "acked members ?s ?H i t p" and lt: "t < ?u" for t p
  proof -
    have "acked members s H i t p" using acked_after [OF assms(1) ack] lt by auto
    with inv(7) consider "prefix p (log (disks s i))"
      | w where "t < w" "w \<le> current_term (disks s i)" "broken H w p"
      unfolding acks_kept_def by blast
    then show ?thesis
    proof cases
      case 1
      with d(11) show ?thesis by simp
    next
      case (2 w)
      then have "w \<noteq> ?u" using assms(2) by (auto simp: broken_def)
      moreover have "w \<le> ?u" using 2(2) d(12,13) by simp
      ultimately show ?thesis using 2 broken_advance by fastforce
    qed
  qed
  with m assms(4) traced_advance [OF d(9)] show ?thesis unfolding snapshot_ok_def by blast
qed

lemma snapshots_ok_after:
  assumes "step_ok members s H i ev r as n"
  shows "snapshots_ok members (after s i r as n) (history_after s i r as n H)"
  unfolding snapshots_ok_def
proof (intro allI impI)
  fix v u l
  assume l: "snapshot (history_after s i r as n H) v u = Some l"
  note inv = step_ok_inv [OF assms]
  show "snapshot_ok members (after s i r as n) (history_after s i r as n H) v u l"
  proof (cases "snapshot H v u = Some l")
    case True
    with inv(9) snapshot_kept [OF assms] show ?thesis by (simp add: snapshots_ok_def)
  next
    case False
    with l obtain c where "v = i" "u = cterm r" "versions H u = {}" "snapshot H i u = None"
      "voted (net (after s i r as n)) u i c" "l = rlog (nodes s i)"
      by (auto simp: snapshot_advance split: if_splits)
    with snapshot_taken [OF assms] show ?thesis by simp
  qed
qed

lemma votes_recorded_after:
  assumes "step_ok members s H i ev r as n"
  shows "votes_recorded (after s i r as n) (history_after s i r as n H)"
  unfolding votes_recorded_def
proof (intro allI impI)
  fix u v c
  assume u: "versions (history_after s i r as n H) u = {}" and v: "voted (net (after s i r as n)) u v c"
  note inv = step_ok_inv [OF assms]
  have none: "versions H u = {}" using u versions_advance_mono by blast
  show "snapshot (history_after s i r as n H) v u \<noteq> None"
  proof (cases "voted (net s) u v c")
    case True
    with inv(10) none have "snapshot H v u \<noteq> None" unfolding votes_recorded_def by blast
    then show ?thesis by (auto simp: snapshot_advance)
  next
    case False
    with new_vote_request [OF assms] v have "v = i" "u = cterm r" by auto
    with none v show ?thesis by (auto simp: snapshot_advance)
  qed
qed

lemma winners_up_to_date_after:
  assumes "step_ok members s H i ev r as n"
  shows "winners_up_to_date members (history_after s i r as n H)"
  unfolding winners_up_to_date_def
proof (intro allI impI)
  fix u
  let ?H = "history_after s i r as n H"
  assume u: "versions ?H u \<noteq> {}"
  note inv = step_ok_inv [OF assms] and d = step_okD [OF assms]
  show "\<exists>A. majority members A \<and> (\<forall>v \<in> A. \<exists>l. snapshot ?H v u = Some l \<and> up_to_date (base ?H u) l)"
  proof (cases "versions H u = {}")
    case False
    with inv(11) obtain A where "majority members A"
      "\<forall>v \<in> A. \<exists>l. snapshot H v u = Some l \<and> up_to_date (base H u) l"
      unfolding winners_up_to_date_def by blast
    moreover have "base ?H u = base H u" using False by (simp add: base_advance)
    ultimately show ?thesis using snapshot_advance_mono by fastforce
  next
    case True
    with u have lead: "role r = Leader" "u = cterm r" by (auto simp: versions_advance split: if_splits)
    have base: "base ?H u = rlog r" using True lead by (simp add: base_advance)
    have "rlog (nodes s i) \<in> versions H (cterm (nodes s i))" if "role (nodes s i) = Leader"
      using inv(4) d(1) that by (simp add: leader_versions_def)
    with leader_cases [OF assms lead(1)] True lead(2)
    have lc: "elected members s u i" "role (nodes s i) = Candidate" "u = cterm (nodes s i)"
      "rlog r = rlog (nodes s i)"
      by auto
    from lc(1) obtain A where A: "majority members A" "\<forall>v \<in> A. voted (net s) u v i"
      by (auto simp: elected_def)
    have "\<exists>l. snapshot ?H v u = Some l \<and> up_to_date (rlog r) l" if v: "v \<in> A" for v
    proof -
      have vi: "voted (net s) u v i" using A(2) v by blast
      with inv(10) True obtain l where l: "snapshot H v u = Some l"
        unfolding votes_recorded_def by blast
      with inv(9) have "snapshot_ok members s H v u l" by (simp add: snapshots_ok_def)
      then obtain to m where m: "(to, MRequestVote m) \<in> set (net s)" "rv_term m = u"
        "voted (net s) u v (candidate_id m)" "fields_up_to_date m l"
        unfolding snapshot_ok_def by blast
      have "candidate_id m = i"
        using inv(12) m(3) vi by (auto simp: election_inv_def votes_unique_def)
      with inv(8) d(1) lc(2,3) m have "log_fields m (rlog (nodes s i))"
        by (auto simp: candidates_ask_def)
      with m(4) fields_up_to_date_log lc(4) have "up_to_date (rlog r) l" by simp
      with snapshot_advance_mono [OF l] show ?thesis by blast
    qed
    with A(1) base show ?thesis by auto
  qed
qed

section \<open>All steps\<close>

lemma history_inv_after:
  assumes "step_ok members s H i ev r as n"
  shows "history_inv members (after s i r as n) (history_after s i r as n H)"
  unfolding history_inv_def
  using versions_wf_after [OF assms] versions_settled_after [OF assms] node_logs_ok_after [OF assms]
    leader_versions_after [OF assms] sent_versions_after [OF assms] replies_backed_after [OF assms]
    acks_kept_after [OF assms] candidates_ask_after [OF assms] snapshots_ok_after [OF assms]
    votes_recorded_after [OF assms] winners_up_to_date_after [OF assms]
  by blast

lemma acked_restart [simp]:
  "acked members (restart_from_disk members i s) H = acked members s H"
  by (simp add: acked_def fun_eq_iff)

lemma history_inv_restart:
  assumes "election_inv members s" "history_inv members s H"
  shows "history_inv members (restart_from_disk members i s) H"
proof -
  have "snapshot_ok members (restart_from_disk members i s) H = snapshot_ok members s H"
    by (simp add: snapshot_ok_def fun_eq_iff)
  with assms(2) settled_restart [OF assms(1)] show ?thesis
    by (auto simp: history_inv_def versions_settled_def node_logs_ok_def leader_versions_def
        sent_versions_def replies_backed_def acks_kept_def candidates_ask_def snapshots_ok_def
        votes_recorded_def raft_init_def)
qed

lemma history_inv_init:
  "history_inv members (sys_init members) \<lparr>versions = (\<lambda>_. {}), base = (\<lambda>_. []), snapshot = (\<lambda>_ _. None)\<rparr>"
  by (auto simp: history_inv_def versions_wf_def versions_settled_def node_logs_ok_def
      leader_versions_def sent_versions_def replies_backed_def acks_kept_def candidates_ask_def
      snapshots_ok_def votes_recorded_def winners_up_to_date_def acked_def vote_defs sys_init_def
      raft_init_def persistent_default_def)

end
