(* ===== verification/Leadership.thy ===== *)
theory Leadership
  imports Replication RaftStep
begin

text \<open>
  The leader's side on one node: what a heartbeat sends to each peer, how replies move the
  replication bookkeeping, when the commit index advances, and what a client's command does.
\<close>

section \<open>The commit rule\<close>

lemma rcommit_try_advance:
  assumes "try_advance_commit_index r = (r', as)" "leader_state r = Some ls"
  shows "rcommit r' = max (rcommit r)
    (scan_commit (rcommit r) (cterm r) (match_index ls) (quorum r) (rev (rlog r)))"
  using assms
  by (auto simp: try_advance_commit_index_def Let_def max_def dest!: apply_committed_entries_frame
      split: if_splits)

text \<open>The commit index reaches every entry of the leader's term that a majority holds.\<close>

lemma commit_reaches:
  assumes "contiguous 0 (rlog r)" "leader_state r = Some ls" "try_advance_commit_index r = (r', as)"
    "e \<in> set (rlog r)" "entry_term e = cterm r" "quorum r \<le> replicated (match_index ls) (index e)"
  shows "index e \<le> rcommit r'"
proof (cases "rcommit r < index e")
  case True
  then have "committable (rcommit r) (cterm r) (match_index ls) (quorum r) e"
    using assms(5,6) by (simp add: committable_def)
  from scan_commit_max [OF contiguous_sorted [OF assms(1)] _ this] assms(4)
  show ?thesis using rcommit_try_advance [OF assms(3,2)] by (simp add: le_max_iff_disj)
next
  case False
  then have "index e \<le> rcommit r" by simp
  then show ?thesis using rcommit_try_advance [OF assms(3,2)] by (simp add: le_max_iff_disj)
qed

text \<open>C13: the commit rule. The leader's commit index never moves back; when it moves, it moves to an
  entry of the leader's own term that, by the recorded \<open>match_index\<close> values and the leader
  itself, a majority (more than half of the cluster) holds; and it moves to the highest such entry.\<close>

theorem leader_commit_rule:
  assumes "contiguous 0 (rlog r)" "leader_state r = Some ls"
    and "try_advance_commit_index r = (r', as)"
  shows "rcommit r \<le> rcommit r' \<and> length (peers r) + 1 < 2 * quorum r \<and>
    (rcommit r' \<noteq> rcommit r \<longrightarrow> (\<exists>e \<in> set (rlog r). index e = rcommit r' \<and> entry_term e = cterm r \<and>
       quorum r \<le> replicated (match_index ls) (index e))) \<and>
    (\<forall>e \<in> set (rlog r). entry_term e = cterm r \<and> quorum r \<le> replicated (match_index ls) (index e)
       \<longrightarrow> index e \<le> rcommit r')"
proof -
  let ?c = "scan_commit (rcommit r) (cterm r) (match_index ls) (quorum r) (rev (rlog r))"
  have c: "rcommit r' = max (rcommit r) ?c" by (rule rcommit_try_advance [OF assms(3,2)])
  have sound: "?c = rcommit r \<or> (\<exists>e \<in> set (rlog r).
      committable (rcommit r) (cterm r) (match_index ls) (quorum r) e \<and> ?c = index e)"
    using scan_commit_sound [of "rcommit r" "cterm r" "match_index ls" "quorum r" "rev (rlog r)"]
    by simp
  have "\<exists>e \<in> set (rlog r). index e = rcommit r' \<and> entry_term e = cterm r \<and>
      quorum r \<le> replicated (match_index ls) (index e)" if "rcommit r' \<noteq> rcommit r"
    using sound c that by (auto simp: committable_def max_def split: if_splits)
  then show ?thesis using commit_reaches [OF assms] c quorum_majority [of r] by auto
qed

text \<open>A leader of term 2 whose peer 2 has matched up to index 3.\<close>

definition sample_leader :: Raft where
  "sample_leader = (raft_init 1 [2, 3])
     \<lparr>role := Leader, known_leader := Some 1,
      persistent := \<lparr>current_term = 2, voted_for = Some 1,
        log = [sample_entry 1 1 ''a'', sample_entry 2 2 ''b'', sample_entry 2 3 ''c'']\<rparr>,
      leader_state := Some \<lparr>next_index = [4, 2], match_index = [3, 0]\<rparr>\<rparr>"

lemma sample_leader_simps [simp]:
  "rlog sample_leader = [sample_entry 1 1 ''a'', sample_entry 2 2 ''b'', sample_entry 2 3 ''c'']"
  "rcommit sample_leader = 0" "rapplied sample_leader = 0" "cterm sample_leader = 2"
  "role sample_leader = Leader" "raft_id sample_leader = 1" "peers sample_leader = [2, 3]"
  "known_leader sample_leader = Some 1"
  "leader_state sample_leader = Some \<lparr>next_index = [4, 2], match_index = [3, 0]\<rparr>"
  "contiguous 0 [sample_entry 1 1 ''a'', sample_entry 2 2 ''b'', sample_entry 2 3 ''c'']"
  by (simp_all add: sample_leader_def raft_init_def volatile_default_def contiguous_Cons
      sample_entry_def)

lemma sample_leader_wf: "node_wf sample_leader"
  by (simp add: sample_leader_def node_wf_defs raft_init_def)

theorem leader_commit_rule_witness:
  "\<exists>r' as. try_advance_commit_index sample_leader = (r', as) \<and> 3 \<le> rcommit r'"
proof -
  obtain r' as where st: "try_advance_commit_index sample_leader = (r', as)" by fastforce
  have "\<forall>e \<in> set (rlog sample_leader). entry_term e = cterm sample_leader \<and>
      quorum sample_leader \<le> replicated (match_index \<lparr>next_index = [4, 2], match_index = [3, 0]\<rparr>) (index e)
      \<longrightarrow> index e \<le> rcommit r'"
    using leader_commit_rule [OF _ _ st] by simp
  then show ?thesis using st by (simp add: sample_entry_def replicated_def quorum_def div_ceil_def)
qed

section \<open>Heartbeats\<close>

text \<open>C19: a heartbeat of a well-formed leader sends exactly one \<open>AppendEntries\<close> to each peer, in
  order. It carries the leader's term, id and commit index, all entries from the peer's
  \<open>next_index\<close> \<open>n\<close> on, the previous index \<open>n - 1\<close> and the term of the previous entry (0 when there is
  none). The leader's state does not change.\<close>

theorem heartbeat_sends_rest_of_log:
  assumes "node_wf r" "role r = Leader" "contiguous 0 (rlog r)" "leader_state r = Some ls"
    and "\<forall>n \<in> set (next_index ls). 1 \<le> n"
  shows "handle_heartbeat_timeout r = Inr (r, ResetHeartbeatTimer # map (\<lambda>i.
      (let n = next_index ls ! i; k = unat n - 1 in
       Send (peers r ! i) (MAppendEntries
         \<lparr>ae_term = cterm r, leader_id = raft_id r, prev_log_index = n - 1,
          prev_log_term = (if 0 < k \<and> k \<le> length (rlog r) then entry_term (rlog r ! (k - 1)) else 0),
          entries = drop k (rlog r), leader_commit = rcommit r\<rparr>))) [0..<length (peers r)])"
proof -
  have len: "length (next_index ls) = length (peers r)"
    using assms(1,4) by (simp add: node_wf_defs)
  have one: "append_entries_for_peer r i = Inr (let n = next_index ls ! i; k = unat n - 1 in
       Send (peers r ! i) (MAppendEntries
         \<lparr>ae_term = cterm r, leader_id = raft_id r, prev_log_index = n - 1,
          prev_log_term = (if 0 < k \<and> k \<le> length (rlog r) then entry_term (rlog r ! (k - 1)) else 0),
          entries = drop k (rlog r), leader_commit = rcommit r\<rparr>))" if "i < length (peers r)" for i
  proof -
    let ?n = "next_index ls ! i"
    have n: "1 \<le> ?n" using assms(5) len that by simp
    have un: "0 < unat ?n" using n by (simp add: word_le_nat_alt)
    have prev: "unat (?n - 1) = unat ?n - 1" using n by (simp add: unat_sub)
    have es: "filter (\<lambda>e. ?n \<le> index e) (rlog r) = drop (unat ?n - 1) (rlog r)"
      using filter_index_ge [OF assms(3), of ?n] un by simp
    have info: "prev_log_info r ?n = (?n - 1, if 0 < unat ?n - 1 \<and> unat ?n - 1 \<le> length (rlog r)
        then entry_term (rlog r ! (unat ?n - 1 - 1)) else 0)"
    proof (cases "?n \<le> 1")
      case True
      with n have "?n = 1" by simp
      then show ?thesis by (simp add: prev_log_info_def)
    next
      case False
      then show ?thesis
        by (auto simp: prev_log_info_def find_index [OF assms(3)] prev)
    qed
    show ?thesis
      using append_entries_for_peer_ok [OF that assms(4) len] es info
      by (simp add: peer_append_entries_def Let_def)
  qed
  have "collect (append_entries_for_peer r) [0..<length (peers r)] = Inr (map (\<lambda>i.
      (let n = next_index ls ! i; k = unat n - 1 in
       Send (peers r ! i) (MAppendEntries
         \<lparr>ae_term = cterm r, leader_id = raft_id r, prev_log_index = n - 1,
          prev_log_term = (if 0 < k \<and> k \<le> length (rlog r) then entry_term (rlog r ! (k - 1)) else 0),
          entries = drop k (rlog r), leader_commit = rcommit r\<rparr>))) [0..<length (peers r)])"
    by (rule collect_map) (use one in simp)
  with assms(2) show ?thesis by (simp add: handle_heartbeat_timeout_def)
qed

theorem heartbeat_sends_rest_of_log_witness:
  "handle_heartbeat_timeout sample_leader = Inr (sample_leader,
     [ResetHeartbeatTimer,
      Send 2 (MAppendEntries \<lparr>ae_term = 2, leader_id = 1, prev_log_index = 3, prev_log_term = 2,
        entries = [], leader_commit = 0\<rparr>),
      Send 3 (MAppendEntries \<lparr>ae_term = 2, leader_id = 1, prev_log_index = 1, prev_log_term = 1,
        entries = [sample_entry 2 2 ''b'', sample_entry 2 3 ''c''], leader_commit = 0\<rparr>)])"
proof -
  have h: "handle_heartbeat_timeout sample_leader = Inr (sample_leader, ResetHeartbeatTimer # map (\<lambda>i.
      (let n = next_index \<lparr>next_index = [4, 2], match_index = [3, 0]\<rparr> ! i; k = unat n - 1 in
       Send (peers sample_leader ! i) (MAppendEntries
         \<lparr>ae_term = cterm sample_leader, leader_id = raft_id sample_leader, prev_log_index = n - 1,
          prev_log_term = (if 0 < k \<and> k \<le> length (rlog sample_leader)
            then entry_term (rlog sample_leader ! (k - 1)) else 0),
          entries = drop k (rlog sample_leader), leader_commit = rcommit sample_leader\<rparr>)))
      [0..<length (peers sample_leader)])"
    by (rule heartbeat_sends_rest_of_log [OF sample_leader_wf])
       (simp_all del: sample_leader_simps(1) add: sample_leader_simps(2-9) word_le_nat_alt,
        simp add: sample_leader_simps)
  show ?thesis unfolding h by (simp add: upt_rec sample_entry_def)
qed


section \<open>Replies\<close>

lemma position_peer:
  assumes "distinct ps" "i < length ps"
  shows "position (\<lambda>x. x = ps ! i) ps = Some i"
  using assms by (auto simp: position_Some_iff nth_eq_iff_index_eq)

text \<open>The bookkeeping after a reply from peer number \<open>i\<close>.\<close>

definition after_reply :: "LeaderState \<Rightarrow> nat \<Rightarrow> AppendEntriesResponse \<Rightarrow> LeaderState" where
  "after_reply ls i m =
     (if \<not> success m
        then ls\<lparr>next_index := (next_index ls)[i := max (saturating_sub (next_index ls ! i) 1) 1]\<rparr>
      else if match_index ls ! i < aer_match_index m
        then ls\<lparr>match_index := (match_index ls)[i := aer_match_index m],
                next_index := (next_index ls)[i := aer_match_index m + 1]\<rparr>
      else ls)"

lemma after_reply_match:
  assumes "i < length (match_index ls)"
  shows "success m \<Longrightarrow> aer_match_index m \<le> match_index (after_reply ls i m) ! i"
    and "match_index ls ! k \<le> match_index (after_reply ls i m) ! k"
    and "length (match_index (after_reply ls i m)) = length (match_index ls)"
  using assms by (auto simp: after_reply_def nth_list_update)

lemma reply_effect:
  assumes "node_wf r" "role r = Leader" "leader_state r = Some ls" "i < length (peers r)"
    "aer_from m = peers r ! i" "aer_term m = cterm r"
    "handle_append_entries_response p r m = Inr (r', as)"
  shows "(success m \<longrightarrow> (r', as) = try_advance_commit_index (r\<lparr>leader_state := Some (after_reply ls i m)\<rparr>)) \<and>
    (\<not> success m \<longrightarrow> (r', as) = (r\<lparr>leader_state := Some (after_reply ls i m)\<rparr>, [])) \<and>
    (success m \<and> match_index ls ! i < aer_match_index m \<longrightarrow>
       add_u64 p (aer_match_index m) 1 = Inr (aer_match_index m + 1))"
proof -
  have len: "i < length (next_index ls)" "i < length (match_index ls)" and "distinct (peers r)"
    using assms(1,3,4) by (simp_all add: node_wf_defs)
  from position_peer [OF this(3) assms(4)] have pos: "position (\<lambda>x. x = aer_from m) (peers r) = Some i"
    using assms(5) by simp
  have add: "add_u64 p a 1 = Inr b \<Longrightarrow> b = a + 1" for a b
    by (auto simp: add_u64_def split: if_splits)
  have same: "r\<lparr>leader_state := Some ls\<rparr> = r" using assms(3) by simp
  show ?thesis
    using assms(2,3,6,7) len pos
    by (auto simp: handle_append_entries_response_def after_reply_def and_then_eq_Inr get_at_def
        set_at_def same split: if_splits dest: add)
qed

text \<open>A reply of the current term to a leader changes the bookkeeping of its sender only. A
  failure lowers the sender's \<open>next_index\<close> by one, not below 1, and leaves everything else as it
  was; a success raises \<open>match_index\<close>, never lowers it, and keeps \<open>next_index\<close> one past it when it
  raises it.\<close>

theorem reply_bookkeeping:
  assumes "node_wf r" "role r = Leader" "leader_state r = Some ls" "i < length (peers r)"
    "aer_from m = peers r ! i" "aer_term m = cterm r"
    "handle_append_entries_response p r m = Inr (r', as)"
  shows "\<exists>ls'. leader_state r' = Some ls' \<and> persistent r' = persistent r \<and>
    match_index ls' = (if success m then (match_index ls)[i := max (match_index ls ! i) (aer_match_index m)]
      else match_index ls) \<and>
    next_index ls' = (if \<not> success m then (next_index ls)[i := max (saturating_sub (next_index ls ! i) 1) 1]
      else if match_index ls ! i < aer_match_index m then (next_index ls)[i := aer_match_index m + 1]
      else next_index ls) \<and>
    (\<not> success m \<longrightarrow> volatile r' = volatile r \<and> as = [])"
proof -
  note eff = reply_effect [OF assms]
  have ls': "leader_state r' = Some (after_reply ls i m) \<and> persistent r' = persistent r"
  proof (cases "success m")
    case True
    with eff have "try_advance_commit_index (r\<lparr>leader_state := Some (after_reply ls i m)\<rparr>) = (r', as)"
      by simp
    from try_advance_frame [OF this] show ?thesis by simp
  next
    case False
    with eff show ?thesis by simp
  qed
  have "i < length (match_index ls)" using assms(1,3,4) by (simp add: node_wf_defs)
  with ls' eff show ?thesis
    by (auto simp: after_reply_def max_def)
qed

theorem reply_bookkeeping_witness:
  "\<exists>r' as ls'. handle_append_entries_response Debug sample_leader
       \<lparr>aer_term = 2, success = True, aer_from = 3, aer_match_index = 3\<rparr> = Inr (r', as) \<and>
     leader_state r' = Some ls' \<and> match_index ls' = [3, 3] \<and> next_index ls' = [4, 4]"
proof -
  let ?m = "\<lparr>aer_term = 2, success = True, aer_from = 3, aer_match_index = 3\<rparr>"
  obtain r' as where h: "handle_append_entries_response Debug sample_leader ?m = Inr (r', as)"
    by (cases "try_advance_commit_index (sample_leader\<lparr>leader_state := Some
        \<lparr>next_index = [4, 4], match_index = [3, 3]\<rparr>\<rparr>)")
       (simp add: handle_append_entries_response_def get_at_def set_at_def add_u64_def)
  from reply_bookkeeping [OF sample_leader_wf _ _ _ _ _ h, of _ 1] h show ?thesis by auto
qed

definition next_positive :: "Raft \<Rightarrow> bool" where
  "next_positive r \<longleftrightarrow> (\<forall>ls. leader_state r = Some ls \<longrightarrow> (\<forall>n \<in> set (next_index ls). 1 \<le> n))"

lemma next_positive_become_leader:
  "become_leader Debug r = Inr r' \<Longrightarrow> next_positive r'"
  by (drule become_leader_frame) (auto simp: next_positive_def dest!: add_u64_Debug_unat
      simp: word_le_nat_alt)

lemma next_positive_same: "next_positive r \<Longrightarrow> leader_state r' = leader_state r \<Longrightarrow> next_positive r'"
  by (simp add: next_positive_def)

lemma next_positive_None: "leader_state r = None \<Longrightarrow> next_positive r"
  by (simp add: next_positive_def)

lemma in_set_update: "x \<in> set (xs[i := n]) \<Longrightarrow> x = n \<or> x \<in> set xs"
  using set_update_subset_insert [of xs i n] by auto

lemma next_positive_response:
  assumes "next_positive r" "handle_append_entries_response Debug r m = Inr (r', as)"
  shows "next_positive r'"
proof (cases "leader_state r' = leader_state r \<or> leader_state r' = None")
  case True
  with assms(1) show ?thesis by (auto intro: next_positive_same next_positive_None)
next
  case False
  have one: "1 \<le> b" if "add_u64 Debug a 1 = Inr b" for a b
    using add_u64_Debug_unat [OF that] by (simp add: word_le_nat_alt)
  from assms(2) False obtain ls i n ms where "leader_state r = Some ls" "1 \<le> n"
      "leader_state r' = Some (ls\<lparr>match_index := ms, next_index := (next_index ls)[i := n]\<rparr>)"
  proof (cases "success m")
    case True
    with assms(2) False have "\<exists>ls i n. leader_state r = Some ls \<and>
        add_u64 Debug (aer_match_index m) 1 = Inr n \<and> leader_state r' = Some (ls
          \<lparr>match_index := (match_index ls)[i := aer_match_index m], next_index := (next_index ls)[i := n]\<rparr>)"
      by (auto simp: handle_append_entries_response_def and_then_eq_Inr get_at_def set_at_def
          dest!: try_advance_frame split: if_splits option.splits)
    with that one show ?thesis by blast
  next
    case nosuccess: False
    then obtain ls i where "leader_state r = Some ls" "leader_state r' =
        Some (ls\<lparr>match_index := match_index ls,
          next_index := (next_index ls)[i := max (saturating_sub (next_index ls ! i) 1) 1]\<rparr>)"
      using assms(2) False
      by (auto simp: handle_append_entries_response_def and_then_eq_Inr get_at_def set_at_def
          split: if_splits option.splits)
    with that show ?thesis by (metis max.cobounded2)
  qed
  with assms(1) show ?thesis by (auto simp: next_positive_def dest!: in_set_update)
qed

lemma next_positive_step:
  assumes "next_positive r" "raft_step Debug r ev = Inr (r', as)"
  shows "next_positive r'"
proof (cases ev rule: raft_event_cases)
  case (RV m)
  with assms show ?thesis
    by (auto simp: handle_request_vote_def Let_def intro: next_positive_same next_positive_None
        split: if_splits option.splits)
next
  case (RVR m)
  with assms show ?thesis
    by (auto simp: handle_vote_response_def Let_def and_then_eq_Inr
        intro: next_positive_same next_positive_None next_positive_become_leader split: if_splits)
next
  case (AE m)
  with assms append_entries_frame [of r m r' as] show ?thesis
    by (cases "ae_term m" "cterm r" rule: linorder_cases)
       (auto intro: next_positive_same next_positive_None)
next
  case (AER m)
  with assms next_positive_response show ?thesis by simp
next
  case ElectionT
  with assms show ?thesis
    by (auto simp: handle_election_timeout_def Let_def and_then_eq_Inr
        intro: next_positive_None next_positive_become_leader split: if_splits)
next
  case HeartbeatT
  with assms heartbeat_actions(1) show ?thesis by fastforce
next
  case (Client c)
  with assms client_request_frame [of Debug r c r' as] show ?thesis
    by (auto intro: next_positive_same)
qed

text \<open>In every step of a debug build the \<open>next_index\<close> values of a leader stay at least 1: no
  heartbeat computes a previous index below 0.\<close>

theorem next_index_stays_positive:
  assumes "next_positive r" "raft_step Debug r ev = Inr (r', as)"
  shows "next_positive r'"
  by (rule next_positive_step [OF assms])

theorem next_index_stays_positive_witness:
  "\<exists>r' as. raft_step Debug sample_leader (EvMessage (MAppendEntriesResponse
       \<lparr>aer_term = 2, success = False, aer_from = 3, aer_match_index = 0\<rparr>)) = Inr (r', as) \<and>
     next_positive r'"
proof -
  let ?m = "\<lparr>aer_term = 2, success = False, aer_from = 3, aer_match_index = 0\<rparr>"
  obtain r' as where h: "raft_step Debug sample_leader (EvMessage (MAppendEntriesResponse ?m)) = Inr (r', as)"
    by (simp add: handle_append_entries_response_def get_at_def set_at_def)
  have "next_positive sample_leader" by (simp add: next_positive_def)
  from next_index_stays_positive [OF this h] h show ?thesis by blast
qed

section \<open>Client commands\<close>

text \<open>A leader of several nodes appends a client's command at the end of its log, with its term
  and the next index, and commits nothing; a node that is not the leader changes nothing and
  names the leader it knows.\<close>

theorem client_command_appended:
  assumes "peers r \<noteq> []" "handle_client_request p r c = Inr (r', as)"
  shows "if role r = Leader
    then r' = r\<lparr>persistent := (persistent r)\<lparr>log := rlog r @
           [\<lparr>entry_term = cterm r, index = last_log_index r + 1, command = c\<rparr>]\<rparr>\<rparr> \<and>
         as = [ResetHeartbeatTimer, PersistState] \<and>
         (p = Debug \<longrightarrow> unat (last_log_index r) + 1 < 2 ^ 64)
    else r' = r \<and> as = [NotLeader (known_leader r)]"
  using assms by (auto simp: handle_client_request_def and_then_eq_Inr add_u64_def Let_def
      split: if_splits)

theorem client_command_appended_witness:
  "\<exists>r' as. handle_client_request Debug sample_leader command_default = Inr (r', as) \<and>
     rlog r' = rlog sample_leader @ [\<lparr>entry_term = 2, index = 4, command = command_default\<rparr>] \<and>
     as = [ResetHeartbeatTimer, PersistState]"
proof -
  have ne: "peers sample_leader \<noteq> []" by simp
  have idx: "last_log_index sample_leader = 3" by (simp add: last_log_index_def sample_entry_def)
  obtain r' as where h: "handle_client_request Debug sample_leader command_default = Inr (r', as)"
    using idx by (simp add: handle_client_request_def add_u64_def Let_def)
  from client_command_appended [OF ne h] h idx show ?thesis by simp
qed

end
