(* ===== verification/Commits.thy ===== *)
theory Commits
  imports HistoryInvariant Leadership
begin

text \<open>
  Commit indices and state machines in truthful runs: what a node marks as committed is
  committed in the sense of theory \<open>History\<close>, stays in its log, and is what its state machine has
  applied. The first part says, for one node, which events move the commit index and what they
  apply.
\<close>

section \<open>How a step commits and applies\<close>

definition idle :: "Raft \<Rightarrow> Raft \<Rightarrow> Action list \<Rightarrow> bool" where
  "idle r r' as \<longleftrightarrow> volatile r' = volatile r \<and> applied_commands as = []"

definition applies :: "Raft \<Rightarrow> Raft \<Rightarrow> Action list \<Rightarrow> bool" where
  "applies r r' as \<longleftrightarrow> rapplied r' = max (rapplied r) (rcommit r') \<and>
     applied_commands as = applied_commands (snd (apply_loop (rlog r') (rcommit r') (rapplied r)))"

text \<open>The commit index a leader moves to, given the match indices it has after the event.\<close>

definition leader_commits :: "Raft \<Rightarrow> Raft \<Rightarrow> bool" where
  "leader_commits r r' \<longleftrightarrow> role r' = Leader \<and> (\<exists>ls'. leader_state r' = Some ls' \<and> rcommit r' = max (rcommit r)
     (scan_commit (rcommit r) (cterm r') (match_index ls') (quorum r') (rev (rlog r'))))"

definition follower_commits :: "Raft \<Rightarrow> AppendEntries \<Rightarrow> Raft \<Rightarrow> bool" where
  "follower_commits r m r' \<longleftrightarrow> rcommit r' =
     (if rcommit r < leader_commit m then min (leader_commit m) (last_new m) else rcommit r)"

lemma applies_committed:
  "apply_committed_entries r = (r', as) \<Longrightarrow> applies r r' as"
  using apply_loop_final by (auto simp: applies_def apply_committed_entries_def case_prod_beta)

lemma applies_frame:
  "applies q r' as \<Longrightarrow> rapplied q = rapplied r \<Longrightarrow> applies r r' as"
  by (simp add: applies_def)

lemma try_advance_applies:
  assumes "try_advance_commit_index r = (r', as)"
  shows "applies r r' as"
proof -
  obtain q where q: "apply_committed_entries q = (r', as)" "rapplied q = rapplied r"
    using assms by (auto simp: try_advance_commit_index_def Let_def split: if_splits)
  from applies_frame [OF applies_committed [OF q(1)] q(2)] show ?thesis .
qed

lemma quorum_cong: "peers r = peers r' \<Longrightarrow> quorum r = quorum r'"
  by (simp add: quorum_def)

lemma position_member: "position (\<lambda>i. i = a) ps = Some k \<Longrightarrow> a \<in> set ps"
  by (auto dest: position_SomeD)

lemma reply_commits:
  assumes "node_wf r" "handle_append_entries_response Debug r a = Inr (r', as)"
  shows "idle r r' as \<or> (applies r r' as \<and> leader_commits r r')"
proof (cases "aer_term a = cterm r \<and> role r = Leader \<and> aer_from a \<in> set (peers r) \<and> success a")
  case False
  with assms(2) show ?thesis
    by (auto simp: handle_append_entries_response_def idle_def and_then_eq_Inr dest: position_member
        split: if_splits option.splits)
next
  case True
  with assms(1) obtain ls where ls: "leader_state r = Some ls" by (auto simp: node_wf_defs)
  from True obtain k where k: "k < length (peers r)" "aer_from a = peers r ! k"
    by (auto simp: in_set_conv_nth)
  let ?q = "r\<lparr>leader_state := Some (after_reply ls k a)\<rparr>"
  have adv: "try_advance_commit_index ?q = (r', as)"
    using reply_effect [OF assms(1) _ ls k _ assms(2)] True by simp
  note fr = try_advance_frame [OF adv]
  have "applies r r' as" by (rule applies_frame [OF try_advance_applies [OF adv]]) simp
  moreover have "leader_commits r r'"
    using rcommit_try_advance [OF adv] fr True quorum_cong [of r' ?q] by (simp add: leader_commits_def)
  ultimately show ?thesis by blast
qed

lemma accept_commits:
  assumes "acceptable r m" "handle_append_entries r m = (r', as)"
  shows "applies r r' as \<and> follower_commits r m r'"
proof -
  obtain q bs where ap: "apply_committed_entries (ae_accepted r m) = (q, bs)" by fastforce
  with append_entries_accept [OF assms(1)] assms(2) have eq: "r' = q"
    "applied_commands as = applied_commands bs"
    by (auto simp: append_entries_response_def)
  have "applies r q bs" by (rule applies_frame [OF applies_committed [OF ap]]) simp
  then have "applies r r' as" using eq by (simp add: applies_def)
  moreover have "follower_commits r m r'"
    using append_entries_accepted_state [OF assms] by (simp add: follower_commits_def)
  ultimately show ?thesis by blast
qed

lemma applied_commands_Nil_iff: "applied_commands as = [] \<longleftrightarrow> (\<forall>c. ApplyCommand c \<notin> set as)"
  by (induction as rule: applied_commands.induct) auto

lemma heartbeat_idle:
  assumes "handle_heartbeat_timeout r = Inr (r', as)"
  shows "idle r r' as"
  using heartbeat_actions(1) [OF assms] heartbeat_action_cases [OF assms]
  by (fastforce simp: idle_def applied_commands_Nil_iff)

lemma election_idle:
  assumes "handle_election_timeout Debug r = Inr (r', as)"
  shows "idle r r' as"
  using assms
  by (auto simp: handle_election_timeout_def Let_def and_then_eq_Inr idle_def
      applied_commands_Nil_iff create_vote_action_def dest!: become_leader_frame split: if_splits)

text \<open>With at least one peer, only an accepted \<open>AppendEntries\<close> and a reply move the commit index.\<close>

lemma step_commits:
  assumes "node_wf r" "peers r \<noteq> []" "raft_step Debug r ev = Inr (r', as)"
  shows "idle r r' as \<or> (applies r r' as \<and> leader_commits r r') \<or>
    (\<exists>m. ev = EvMessage (MAppendEntries m) \<and> acceptable r m \<and> applies r r' as \<and> follower_commits r m r')"
proof (cases ev rule: raft_event_cases)
  case (RV m)
  with assms(3) have "idle r r' as"
    by (auto simp: handle_request_vote_def Let_def idle_def vote_response_def split: if_splits option.splits)
  then show ?thesis ..
next
  case (RVR m)
  with assms(3) have "idle r r' as"
    by (auto simp: handle_vote_response_def Let_def and_then_eq_Inr idle_def dest!: become_leader_frame
        split: if_splits)
  then show ?thesis ..
next
  case (AE m)
  with assms(3) have h: "handle_append_entries r m = (r', as)" by simp
  show ?thesis
  proof (cases "acceptable r m")
    case True
    with AE accept_commits [OF True h] show ?thesis by blast
  next
    case False
    from append_entries_reject [OF this] h have "idle r r' as"
      by (auto simp: idle_def append_entries_response_def)
    then show ?thesis ..
  qed
next
  case (AER a)
  with assms reply_commits [OF assms(1)] show ?thesis by auto
next
  case ElectionT
  with assms(3) election_idle show ?thesis by auto
next
  case HeartbeatT
  with assms(3) heartbeat_idle show ?thesis by auto
next
  case (Client c)
  with assms(2,3) have "idle r r' as"
    by (auto simp: handle_client_request_def Let_def and_then_eq_Inr idle_def split: if_splits)
  then show ?thesis ..
qed

section \<open>Match indices come from replies\<close>

text \<open>A leader's match indices after an event: those before, with at most one raised by a reply; or all 0.\<close>

definition match_step :: "Raft \<Rightarrow> Event \<Rightarrow> LeaderState \<Rightarrow> bool" where
  "match_step r ev ls' \<longleftrightarrow> (\<forall>x \<in> set (match_index ls'). x = 0) \<or>
     (\<exists>ls. leader_state r = Some ls \<and> role r = Leader \<and> (match_index ls' = match_index ls \<or>
        (\<exists>a k. ev = EvMessage (MAppendEntriesResponse a) \<and> success a \<and> aer_term a = cterm r \<and>
           k < length (peers r) \<and> aer_from a = peers r ! k \<and>
           match_index ls' = (match_index ls)[k := aer_match_index a])))"

lemma match_step_same:
  "role r = Leader \<Longrightarrow> leader_state r = Some ls' \<Longrightarrow> match_step r ev ls'"
  by (auto simp: match_step_def)

lemma match_step_new:
  "become_leader p r = Inr r' \<Longrightarrow> leader_state r' = Some ls' \<Longrightarrow> match_step q ev ls'"
  by (auto dest!: become_leader_frame simp: match_step_def)

lemma match_step_reply:
  assumes "node_wf r" "handle_append_entries_response Debug r a = Inr (r', as)" "role r' = Leader"
    "leader_state r' = Some ls'"
  shows "match_step r (EvMessage (MAppendEntriesResponse a)) ls'"
proof (cases "aer_term a = cterm r \<and> aer_from a \<in> set (peers r)")
  case False
  with assms(2-4) show ?thesis
    by (auto simp: handle_append_entries_response_def match_step_same dest: position_member
        split: if_splits option.splits)
next
  case True
  have lead: "role r = Leader" using append_entries_response_frame [OF assms(2)] assms(3) True by simp
  with assms(1) obtain ls where ls: "leader_state r = Some ls" by (auto simp: node_wf_defs)
  from True obtain k where k: "k < length (peers r)" "aer_from a = peers r ! k"
    by (auto simp: in_set_conv_nth)
  note eff = reply_effect [OF assms(1) lead ls k _ assms(2)]
  have "ls' = after_reply ls k a"
  proof (cases "success a")
    case True
    with eff \<open>aer_term a = cterm r \<and> _\<close>
    have "try_advance_commit_index (r\<lparr>leader_state := Some (after_reply ls k a)\<rparr>) = (r', as)" by simp
    from try_advance_frame [OF this] assms(4) show ?thesis by simp
  next
    case False
    with eff \<open>aer_term a = cterm r \<and> _\<close> assms(4) show ?thesis by simp
  qed
  with ls lead k True show ?thesis by (auto simp: match_step_def after_reply_def)
qed

lemma step_match:
  assumes "node_wf r" "raft_step Debug r ev = Inr (r', as)" "role r' = Leader" "leader_state r' = Some ls'"
  shows "match_step r ev ls'"
proof (cases ev rule: raft_event_cases)
  case (RV m)
  with assms(2-4) show ?thesis
    by (auto simp: handle_request_vote_def Let_def intro!: match_step_same split: if_splits option.splits)
next
  case (RVR m)
  with assms(2-4) show ?thesis
    by (auto simp: handle_vote_response_def Let_def and_then_eq_Inr intro: match_step_same match_step_new
        split: if_splits)
next
  case (AE m)
  then have h: "handle_append_entries r m = (r', as)" using assms(2) by simp
  from append_entries_frame [OF h] assms(3,4) show ?thesis
    by (cases "ae_term m" "cterm r" rule: linorder_cases)
       (auto intro!: match_step_same split: if_splits)
next
  case (AER a)
  with assms match_step_reply show ?thesis by auto
next
  case ElectionT
  with assms(2-4) show ?thesis
    by (auto simp: handle_election_timeout_def Let_def and_then_eq_Inr intro: match_step_same match_step_new
        split: if_splits)
next
  case HeartbeatT
  with assms(2-4) show ?thesis by (auto dest: heartbeat_actions(1) intro: match_step_same)
next
  case (Client c)
  then have "handle_client_request Debug r c = Inr (r', as)" using assms(2) by simp
  from client_request_frame [OF this] assms(3,4) show ?thesis by (auto intro: match_step_same)
qed

end
