(* ===== verification/StateMachineSafety.thy ===== *)
theory StateMachineSafety
  imports Commits
begin

text \<open>
  State machine safety in truthful runs: what a node marks as committed a majority acknowledged,
  every later leader has it, it is never removed from the node's log, and the state machines
  of any two nodes have applied a prefix of one sequence of commands.
\<close>

section \<open>The invariant\<close>

text \<open>The log prefix is part of a prefix that is committed in a term up to the given one.\<close>

definition commit_ok :: "NodeId list \<Rightarrow> System \<Rightarrow> History \<Rightarrow> Term \<Rightarrow> LogEntry list \<Rightarrow> bool" where
  "commit_ok members s H t l \<longleftrightarrow> l = [] \<or> (\<exists>u p. committed members s H u p \<and> u \<le> t \<and> prefix l p)"

abbreviation commit_prefix :: "Raft \<Rightarrow> LogEntry list" where
  "commit_prefix r \<equiv> take (unat (rcommit r)) (rlog r)"

definition node_commits :: "NodeId list \<Rightarrow> System \<Rightarrow> History \<Rightarrow> bool" where
  "node_commits members s H \<longleftrightarrow> (\<forall>i \<in> set members. unat (rcommit (nodes s i)) \<le> length (rlog (nodes s i)) \<and>
     commit_ok members s H (cterm (nodes s i)) (commit_prefix (nodes s i)))"

definition sent_commits :: "NodeId list \<Rightarrow> System \<Rightarrow> History \<Rightarrow> bool" where
  "sent_commits members s H \<longleftrightarrow> (\<forall>to m. (to, MAppendEntries m) \<in> set (net s) \<longrightarrow>
     (\<exists>g \<in> versions H (ae_term m). rest_of g m \<and> unat (leader_commit m) \<le> length g \<and>
        commit_ok members s H (ae_term m) (take (unat (leader_commit m)) g)))"

definition match_backed :: "NodeId list \<Rightarrow> System \<Rightarrow> bool" where
  "match_backed members s \<longleftrightarrow> (\<forall>i \<in> set members. \<forall>ls. role (nodes s i) = Leader \<longrightarrow>
     leader_state (nodes s i) = Some ls \<longrightarrow> (\<forall>k < length (match_index ls). match_index ls ! k \<noteq> 0 \<longrightarrow>
        replied (net s) (peers (nodes s i) ! k) (cterm (nodes s i)) (unat (match_index ls ! k))))"

definition commit_inv :: "NodeId list \<Rightarrow> System \<Rightarrow> History \<Rightarrow> bool" where
  "commit_inv members s H \<longleftrightarrow> node_commits members s H \<and> sent_commits members s H \<and> match_backed members s"

section \<open>Commitments last\<close>

lemma replied_mono: "replied ms v t k \<Longrightarrow> set ms \<subseteq> set ms' \<Longrightarrow> replied ms' v t k"
  by (auto simp: replied_def)

lemma replied_less: "replied ms v t k \<Longrightarrow> j \<le> k \<Longrightarrow> replied ms v t j"
  unfolding replied_def by (elim exE conjE, intro exI conjI) (assumption+, simp)

lemma acked_mono:
  assumes "acked members s H v t p" "set (net s) \<subseteq> set (net s')" "\<And>t. versions H t \<subseteq> versions H' t"
  shows "acked members s' H' v t p"
  using assms elected_mono replied_mono unfolding acked_def by (meson subsetD)

lemma committed_mono:
  assumes "committed members s H t p" "set (net s) \<subseteq> set (net s')" "\<And>t. versions H t \<subseteq> versions H' t"
  shows "committed members s' H' t p"
  using assms(1) acked_mono [OF _ assms(2,3)] unfolding committed_def by blast

lemma commit_ok_mono:
  assumes "commit_ok members s H t l" "set (net s) \<subseteq> set (net s')" "\<And>t. versions H t \<subseteq> versions H' t" "t \<le> t'"
  shows "commit_ok members s' H' t' l"
  using assms(1,4) committed_mono [OF _ assms(2,3)] unfolding commit_ok_def by (meson order.trans)

lemma commit_ok_after:
  "commit_ok members s H t l \<Longrightarrow> t \<le> t' \<Longrightarrow>
     commit_ok members (after s i r as n) (history_after s i r as n H) t' l"
  by (rule commit_ok_mono) (auto simp: versions_advance)

text \<open>A committed prefix stems from a version of its term.\<close>

lemma committed_version:
  assumes "committed members s H t p"
  shows "\<exists>h \<in> versions H t. prefix p h"
proof -
  from assms obtain Q where "majority members Q" "\<forall>v \<in> Q. acked members s H v t p"
    by (auto simp: committed_def)
  with maj.quorum_nonempty show ?thesis unfolding acked_def by blast
qed

text \<open>A step keeps the committed part of the node's log.\<close>

lemma commit_prefix_kept:
  assumes "step_ok members s H i ev r as n" "node_commits members s H"
  shows "take (unat (rcommit (nodes s i))) (rlog r) = commit_prefix (nodes s i) \<and>
    unat (rcommit (nodes s i)) \<le> length (rlog r)"
  using assms(1)
proof (cases rule: log_cases)
  case kept
  with assms(2) step_okD(1) [OF assms(1)] show ?thesis by (simp add: node_commits_def)
next
  case (appended e)
  with assms(2) step_okD(1) [OF assms(1)] show ?thesis by (simp add: node_commits_def le_SucI)
next
  case (accepted m g)
  note d = step_okD [OF assms(1)] and inv = step_ok_inv [OF assms(1)]
  let ?c = "unat (rcommit (nodes s i))" and ?l = "rlog (nodes s i)"
  from assms(2) d(1) have c: "?c \<le> length ?l"
    "commit_ok members s H (cterm (nodes s i)) (take ?c ?l)"
    by (simp_all add: node_commits_def)
  show ?thesis
  proof (cases "take ?c ?l = []")
    case True
    with c(1) show ?thesis by auto
  next
    case False
    with c(2) obtain u p where p: "committed members s H u p" "u \<le> cterm (nodes s i)" "prefix (take ?c ?l) p"
      by (auto simp: commit_ok_def)
    from committed_version [OF p(1)] obtain h where h: "h \<in> versions H u" "prefix p h" by blast
    have "prefix (take ?c ?l) g"
    proof (cases "u = cterm r")
      case False
      with p(2) d(12) have "u < cterm r" by (simp add: le_neq_trans)
      from committed_complete [OF inv(12) _ p(1) this accepted(3)] assms(1) have "prefix p g"
        by (simp add: step_ok_def)
      with p(3) show ?thesis using prefix_order.trans by blast
    next
      case True
      have pl: "prefix (take ?c ?l) h" using p(3) h(2) prefix_order.trans by blast
      show ?thesis
      proof (rule ccontr)
        assume no: "\<not> ?thesis"
        then have "prefix g (take ?c ?l)"
          using versions_chain [OF inv(1), of g u h g "take ?c ?l"]
            versions_chain [OF inv(1), of h u g "take ?c ?l" g] accepted(3) h(1) pl True
          by (meson linear prefix_order.refl)
        then have "prefix g ?l" using take_is_prefix prefix_order.trans by blast
        with accepted(4) show False ..
      qed
    qed
    then obtain z where "g = take ?c ?l @ z" by (auto simp: prefix_def)
    with accepted(5) c(1) show ?thesis by simp
  qed
qed

section \<open>Every step keeps it\<close>

lemma match_backed_after:
  assumes "step_ok members s H i ev r as n" "match_backed members s"
  shows "match_backed members (after s i r as n)"
  unfolding match_backed_def
proof (intro ballI allI impI)
  fix j ls k
  let ?s = "after s i r as n"
  assume j: "j \<in> set members" "role (nodes ?s j) = Leader" "leader_state (nodes ?s j) = Some ls"
    and k: "k < length (match_index ls)" "match_index ls ! k \<noteq> 0"
  note d = step_okD [OF assms(1)]
  have mono: "replied (net s) v t x \<Longrightarrow> replied (net ?s) v t x" for v t x
    by (rule replied_mono) auto
  show "replied (net ?s) (peers (nodes ?s j) ! k) (cterm (nodes ?s j)) (unat (match_index ls ! k))"
  proof (cases "j = i")
    case False
    with assms(2) j k mono show ?thesis by (simp add: match_backed_def)
  next
    case True
    with j have lead: "role r = Leader" "leader_state r = Some ls" by simp_all
    have same: "cterm r = cterm (nodes s i)" "peers r = peers (nodes s i)"
      using leader_cases [OF assms(1) lead(1)] raft_step_identity [OF d(2)] by auto
    have "x = 0" if "\<forall>x \<in> set (match_index ls). x = 0" "x = match_index ls ! k" for x
      using that k(1) by simp
    with step_match [OF d(4,2) lead] k(2) obtain ls0 where ls0: "leader_state (nodes s i) = Some ls0"
      "role (nodes s i) = Leader" and upd: "match_index ls = match_index ls0 \<or>
        (\<exists>a k. ev = EvMessage (MAppendEntriesResponse a) \<and> success a \<and> aer_term a = cterm (nodes s i) \<and>
           k < length (peers (nodes s i)) \<and> aer_from a = peers (nodes s i) ! k \<and>
           match_index ls = (match_index ls0)[k := aer_match_index a])"
      unfolding match_step_def by blast
    have old: "replied (net s) (peers (nodes s i) ! q) (cterm (nodes s i)) (unat (match_index ls0 ! q))"
      if "q < length (match_index ls0)" "match_index ls0 ! q \<noteq> 0" for q
      using assms(2) d(1) ls0 that by (simp add: match_backed_def)
    have "replied (net s) (peers (nodes s i) ! k) (cterm (nodes s i)) (unat (match_index ls ! k))"
      using upd
    proof (elim disjE exE conjE)
      assume "match_index ls = match_index ls0"
      with old k show ?thesis by simp
    next
      fix a q
      assume a: "ev = EvMessage (MAppendEntriesResponse a)" "success a" "aer_term a = cterm (nodes s i)"
        "aer_from a = peers (nodes s i) ! q" "match_index ls = (match_index ls0)[q := aer_match_index a]"
      have "(i, MAppendEntriesResponse a) \<in> set (net s)" using d(3) a(1) by (simp add: possible_def)
      with a(2-4) have "replied (net s) (peers (nodes s i) ! q) (cterm (nodes s i)) (unat (aer_match_index a))"
        by (auto simp: replied_def)
      with old [of k] a(5) k show ?thesis by (cases "q = k") auto
    qed
    with True same mono show ?thesis by simp
  qed
qed

text \<open>The scan of a leader commits: the entry it finds is acknowledged by a majority.\<close>

lemma leader_commits_ok:
  assumes "step_ok members s H i ev r as n" "node_commits members s H"
    "match_backed members (after s i r as n)" "leader_commits (nodes s i) r"
  shows "unat (rcommit r) \<le> length (rlog r) \<and>
    commit_ok members (after s i r as n) (history_after s i r as n H) (cterm r) (commit_prefix r)"
proof -
  let ?s = "after s i r as n" and ?H = "history_after s i r as n H"
  note d = step_okD [OF assms(1)] and inv = step_ok_inv [OF assms(1)]
  from assms(4) obtain ls where lead: "role r = Leader" and ls: "leader_state r = Some ls"
    and c: "rcommit r = max (rcommit (nodes s i))
       (scan_commit (rcommit (nodes s i)) (cterm r) (match_index ls) (quorum r) (rev (rlog r)))"
    by (auto simp: leader_commits_def)
  show ?thesis
  proof (cases "rcommit r = rcommit (nodes s i)")
    case True
    with commit_prefix_kept [OF assms(1,2)] assms(2) d(1,12) show ?thesis
      by (auto simp: node_commits_def intro!: commit_ok_after)
  next
    case False
    with c scan_commit_sound [of "rcommit (nodes s i)" "cterm r" "match_index ls" "quorum r" "rev (rlog r)"]
    obtain e where e: "e \<in> set (rlog r)" "index e = rcommit r" "entry_term e = cterm r"
      "quorum r \<le> replicated (match_index ls) (rcommit r)"
      by (auto simp: committable_def max_def split: if_splits)
    have cont: "contiguous 0 (rlog r)" using log_version [OF assms(1)] by simp
    from e(1) obtain k where k: "k < length (rlog r)" "rlog r ! k = e" by (auto simp: in_set_conv_nth)
    with cont e(2) have uc: "unat (rcommit r) = k + 1" by (auto simp: contiguous_nth)
    let ?p = "commit_prefix r"
    have p: "?p \<noteq> []" "last ?p = e" "length ?p = k + 1"
      using k uc by (auto simp: take_Suc_conv_app_nth)
    have ps: "peers r = others members i" "raft_id r = i"
      using raft_step_identity [OF d(2)] d(5,6) by simp_all
    have wf: "node_wf r" by (rule raft_step_node_wf [OF d(4,2)])
    then have len: "length (match_index ls) = length (peers r)" and dist: "distinct (peers r)" "i \<notin> set (peers r)"
      using ls ps(2) by (auto simp: node_wf_defs)
    define K where "K = {q. q < length (match_index ls) \<and> rcommit r \<le> match_index ls ! q}"
    define Q where "Q = insert i ((!) (peers r) ` K)"
    have sub: "(!) (peers r) ` K \<subseteq> set (peers r)" using len by (auto simp: K_def)
    have "inj_on ((!) (peers r)) K"
      using dist(1) len by (auto simp: inj_on_def K_def nth_eq_iff_index_eq)
    moreover have "card K = length (filter (\<lambda>m. rcommit r \<le> m) (match_index ls))"
      by (simp add: K_def length_filter_conv_card)
    moreover have "finite K" by (simp add: K_def)
    ultimately have card: "card Q = replicated (match_index ls) (rcommit r)"
      using sub dist(2) by (auto simp: Q_def replicated_def card_image card_insert_if)
    have "quorum r = length members div 2 + 1"
      using quorum_is_majority [OF _ d(1) ps(1)] inv(13) by (simp add: cluster_ok_def)
    with card e(4) sub ps(1) d(1) have maj: "majority members Q"
      by (auto simp: majority_def Q_def)
    have ver: "rlog r \<in> versions ?H (cterm r)" using lead by (simp add: versions_advance)
    have "acked members ?s ?H v (cterm r) ?p" if v: "v \<in> Q" for v
    proof (cases "v = i")
      case True
      have "elected members ?s (cterm r) i"
        by (rule elected_mono [of members s]) (use leader_cases [OF assms(1) lead] in auto)
      with True ver take_is_prefix show ?thesis unfolding acked_def by blast
    next
      case False
      with v obtain q where q: "q < length (match_index ls)" "rcommit r \<le> match_index ls ! q" "v = peers r ! q"
        by (auto simp: Q_def K_def)
      have "rcommit r \<noteq> 0" using uc by auto
      with q(2) have nz: "match_index ls ! q \<noteq> 0" by auto
      have "replied (net ?s) v (cterm r) (unat (match_index ls ! q))"
        using assms(3) d(1) lead ls q(1,3) nz unfolding match_backed_def by fastforce
      moreover have "length ?p \<le> unat (match_index ls ! q)"
        using q(2) uc p(3) by (simp add: word_le_nat_alt)
      ultimately have "replied (net ?s) v (cterm r) (length ?p)" by (rule replied_less)
      with ver take_is_prefix show ?thesis unfolding acked_def by blast
    qed
    with p e(3) maj have "committed members ?s ?H (cterm r) ?p" unfolding committed_def by blast
    with uc k(1) show ?thesis unfolding commit_ok_def by auto
  qed
qed

lemma last_new_version:
  assumes "contiguous 0 g" "unat (prev_log_index m) \<le> length g" "entries m = drop (unat (prev_log_index m)) g"
  shows "unat (last_new m) = length g"
  using assms contiguous_last [OF assms(1)] by (cases "g = []") (auto simp: last_new_def)

text \<open>A follower's commit index follows the leader's.\<close>

lemma follower_commits_ok:
  assumes "step_ok members s H i ev r as n" "node_commits members s H" "sent_commits members s H"
    and "ev = EvMessage (MAppendEntries m)" "acceptable (nodes s i) m" "follower_commits (nodes s i) m r"
  shows "unat (rcommit r) \<le> length (rlog r) \<and> rcommit (nodes s i) \<le> rcommit r \<and>
    commit_ok members (after s i r as n) (history_after s i r as n H) (cterm r) (commit_prefix r)"
proof -
  note d = step_okD [OF assms(1)] and inv = step_ok_inv [OF assms(1)]
  show ?thesis
  proof (cases "rcommit (nodes s i) < leader_commit m")
    case False
    with assms(6) have "rcommit r = rcommit (nodes s i)" by (simp add: follower_commits_def)
    with commit_prefix_kept [OF assms(1,2)] assms(2) d(1,12) show ?thesis
      by (auto simp: node_commits_def intro!: commit_ok_after)
  next
    case True
    have "(i, MAppendEntries m) \<in> set (net s)" using d(3) assms(4) by (simp add: possible_def)
    with assms(3) obtain g where g: "g \<in> versions H (ae_term m)" "rest_of g m"
      "unat (leader_commit m) \<le> length g"
      "commit_ok members s H (ae_term m) (take (unat (leader_commit m)) g)"
      unfolding sent_commits_def by blast
    from accept_log_of [OF assms(1,4,5) g(1,2)] have t: "cterm r = ae_term m"
      and pre: "prefix g (rlog r)" by (auto split: if_splits)
    have "contiguous 0 g" using inv(1) g(1) by (auto simp: versions_wf_def version_ok_def)
    with accept_covers [OF assms(1,5) g(2)] have "unat (last_new m) = length g"
      by (simp add: last_new_version)
    with g(3) have "min (leader_commit m) (last_new m) = leader_commit m"
      by (simp add: min_def word_le_nat_alt)
    with True assms(6) have c: "rcommit r = leader_commit m" by (simp add: follower_commits_def)
    from pre g(3) c have "commit_prefix r = take (unat (leader_commit m)) g"
      "unat (rcommit r) \<le> length (rlog r)"
      by (auto simp: prefix_def)
    with g(4) t c True commit_ok_after show ?thesis by simp
  qed
qed

text \<open>The node's own commit index: it never moves back, and what it covers is committed.\<close>

lemma own_commits_ok:
  assumes "step_ok members s H i ev r as n" "commit_inv members s H"
  shows "unat (rcommit r) \<le> length (rlog r) \<and> rcommit (nodes s i) \<le> rcommit r \<and>
    commit_ok members (after s i r as n) (history_after s i r as n H) (cterm r) (commit_prefix r)"
proof -
  note d = step_okD [OF assms(1)]
  have nc: "node_commits members s H" and sc: "sent_commits members s H"
    and mb: "match_backed members (after s i r as n)"
    using assms match_backed_after by (simp_all add: commit_inv_def)
  from step_commits [OF d(4,7,2)] consider "idle (nodes s i) r as" | "leader_commits (nodes s i) r"
    | m where "ev = EvMessage (MAppendEntries m)" "acceptable (nodes s i) m" "follower_commits (nodes s i) m r"
    by blast
  then show ?thesis
  proof cases
    case 1
    with commit_prefix_kept [OF assms(1) nc] nc d(1,12) show ?thesis
      by (auto simp: idle_def node_commits_def intro!: commit_ok_after)
  next
    case 2
    with leader_commits_ok [OF assms(1) nc mb 2] show ?thesis by (auto simp: leader_commits_def)
  next
    case (3 m)
    from follower_commits_ok [OF assms(1) nc sc 3] show ?thesis .
  qed
qed

lemma node_commits_after:
  assumes "step_ok members s H i ev r as n" "commit_inv members s H"
  shows "node_commits members (after s i r as n) (history_after s i r as n H)"
  unfolding node_commits_def
proof (intro ballI)
  fix j assume j: "j \<in> set members"
  have "node_commits members s H" using assms(2) by (simp add: commit_inv_def)
  with own_commits_ok [OF assms] j commit_ok_after [OF _ order.refl] show
    "unat (rcommit (nodes (after s i r as n) j)) \<le> length (rlog (nodes (after s i r as n) j)) \<and>
     commit_ok members (after s i r as n) (history_after s i r as n H) (cterm (nodes (after s i r as n) j))
       (commit_prefix (nodes (after s i r as n) j))"
    by (cases "j = i") (auto simp: node_commits_def)
qed

lemma sent_commits_after:
  assumes "step_ok members s H i ev r as n" "commit_inv members s H"
  shows "sent_commits members (after s i r as n) (history_after s i r as n H)"
  unfolding sent_commits_def
proof (intro allI impI)
  fix to m
  assume m: "(to, MAppendEntries m) \<in> set (net (after s i r as n))"
  note d = step_okD [OF assms(1)] and inv = step_ok_inv [OF assms(1)]
  have nc: "node_commits members s H" and sc: "sent_commits members s H"
    using assms(2) by (simp_all add: commit_inv_def)
  have "\<exists>g \<in> versions H (ae_term m). rest_of g m \<and> unat (leader_commit m) \<le> length g \<and>
      commit_ok members s H (ae_term m) (take (unat (leader_commit m)) g)"
  proof (cases "(to, MAppendEntries m) \<in> set (net s)")
    case True
    with sc show ?thesis unfolding sent_commits_def by blast
  next
    case False
    with m have "(to, MAppendEntries m) \<in> set (sends (take n as))" by auto
    from new_append [OF assms(1) this] obtain k where k: "role (nodes s i) = Leader"
      "m = peer_append_entries (nodes s i) k" by blast
    then have f: "ae_term m = cterm (nodes s i)" "leader_commit m = rcommit (nodes s i)"
      by (simp_all add: peer_append_entries_def)
    have "rlog (nodes s i) \<in> versions H (cterm (nodes s i))"
      using inv(4) d(1) k(1) by (simp add: leader_versions_def)
    with f k(2) rest_of_peer_append_entries [OF d(10), of k] nc d(1) show ?thesis
      by (auto simp: node_commits_def)
  qed
  with commit_ok_after versions_advance_mono show
    "\<exists>g \<in> versions (history_after s i r as n H) (ae_term m). rest_of g m \<and>
       unat (leader_commit m) \<le> length g \<and>
       commit_ok members (after s i r as n) (history_after s i r as n H) (ae_term m)
         (take (unat (leader_commit m)) g)"
    by (meson order.refl subsetD)
qed

lemma commit_inv_after:
  assumes "step_ok members s H i ev r as n" "commit_inv members s H"
  shows "commit_inv members (after s i r as n) (history_after s i r as n H)"
  using node_commits_after [OF assms] sent_commits_after [OF assms] match_backed_after [OF assms(1)] assms(2)
  by (simp add: commit_inv_def)

section \<open>State machines\<close>

text \<open>A state machine has applied exactly the log up to \<open>last_applied\<close>, and nothing uncommitted.\<close>

definition apps_ok :: "NodeId list \<Rightarrow> System \<Rightarrow> bool" where
  "apps_ok members s \<longleftrightarrow> (\<forall>i \<in> set members. rapplied (nodes s i) \<le> rcommit (nodes s i) \<and>
     apps s i = map command (take (unat (rapplied (nodes s i))) (rlog (nodes s i))))"

lemma applies_commands:
  assumes "contiguous 0 (rlog r')" "unat (rcommit r') \<le> length (rlog r')" "applies r r' as"
    "rapplied r \<le> rcommit r'"
  shows "rapplied r' = rcommit r' \<and> applied_commands as =
    map command (take (unat (rcommit r') - unat (rapplied r)) (drop (unat (rapplied r)) (rlog r')))"
proof -
  have "applied_commands (map (\<lambda>e. ApplyCommand (command e)) es) = map command es" for es
    by (induction es) simp_all
  with assms apply_loop_actions [OF assms(1,2)] show ?thesis by (simp add: applies_def max_absorb2)
qed

lemma apps_after:
  assumes "step_ok members s H i ev r as n" "commit_inv members s H" "apps_ok members s"
  shows "rapplied r \<le> rcommit r \<and>
    apps s i @ applied_commands as = map command (take (unat (rapplied r)) (rlog r))"
proof -
  note d = step_okD [OF assms(1)] and own = own_commits_ok [OF assms(1,2)]
  have nc: "node_commits members s H" using assms(2) by (simp add: commit_inv_def)
  let ?a = "unat (rapplied (nodes s i))" and ?c = "unat (rcommit (nodes s i))"
  from assms(3) d(1) have a: "rapplied (nodes s i) \<le> rcommit (nodes s i)" "?a \<le> ?c"
    "apps s i = map command (take ?a (rlog (nodes s i)))"
    by (simp_all add: apps_ok_def word_le_nat_alt)
  have "take ?a (take ?c (rlog r)) = take ?a (take ?c (rlog (nodes s i)))"
    using commit_prefix_kept [OF assms(1) nc] by simp
  with a(2) have same: "take ?a (rlog r) = take ?a (rlog (nodes s i))" by (simp add: min_absorb1)
  from step_commits [OF d(4,7,2)] have "idle (nodes s i) r as \<or> applies (nodes s i) r as" by blast
  then show ?thesis
  proof
    assume "idle (nodes s i) r as"
    with a same show ?thesis by (simp add: idle_def)
  next
    assume ap: "applies (nodes s i) r as"
    have le: "rapplied (nodes s i) \<le> rcommit r" using a(1) own by (meson order.trans)
    have cont: "contiguous 0 (rlog r)" using log_version [OF assms(1)] by simp
    from applies_commands [OF cont _ ap le] own
    have r: "rapplied r = rcommit r" "applied_commands as =
        map command (take (unat (rcommit r) - ?a) (drop ?a (rlog r)))"
      by auto
    have "take (unat (rcommit r)) (rlog r) = take ?a (rlog r) @ take (unat (rcommit r) - ?a) (drop ?a (rlog r))"
      using le by (simp add: take_add [symmetric] word_le_nat_alt)
    with r a(3) same show ?thesis by simp
  qed
qed

section \<open>Truthful runs\<close>

definition run_inv :: "NodeId list \<Rightarrow> System \<Rightarrow> bool" where
  "run_inv members s \<longleftrightarrow> election_inv members s \<and> (\<exists>F. log_inv members F s) \<and>
     (\<exists>H. history_inv members s H \<and> commit_inv members s H)"

lemma run_inv_step_ok:
  assumes "cluster_ok members" "run_inv members s" "node_step members s i ev r as"
    "\<not> reports_stale_tail (nodes s i) ev" "log_kept_or_saved (nodes s i) r (take n as)"
  obtains H where "step_ok members s H i ev r as n" "commit_inv members s H"
  using assms by (auto simp: run_inv_def step_ok_def log_inv_def)

lemma run_inv_after:
  assumes "cluster_ok members" "run_inv members s" "node_step members s i ev r as"
    "\<not> reports_stale_tail (nodes s i) ev" "log_kept_or_saved (nodes s i) r (take n as)"
  shows "run_inv members (after s i r as n)"
proof -
  from run_inv_step_ok [OF assms] obtain H where ok: "step_ok members s H i ev r as n" "commit_inv members s H" .
  from assms(2) obtain F where "election_inv members s" "log_inv members F s" by (auto simp: run_inv_def)
  with log_inv_handled [OF assms(1) _ assms(3)] step_okD(15) [OF ok(1)] history_inv_after [OF ok(1)]
    commit_inv_after [OF ok]
  show ?thesis unfolding run_inv_def by blast
qed

lemma committed_restart [simp]:
  "committed members (restart_from_disk members i s) H = committed members s H"
  by (simp add: committed_def fun_eq_iff)

lemma run_inv_restart:
  assumes "run_inv members s" "cluster_ok members" "i \<in> set members"
  shows "run_inv members (restart_from_disk members i s)"
proof -
  from assms(1) obtain F H where inv: "election_inv members s" "log_inv members F s"
    "history_inv members s H" "commit_inv members s H"
    by (auto simp: run_inv_def)
  have logs: "node_logs_ok members s H" using inv(3) by (simp add: history_inv_def)
  have "commit_ok members (restart_from_disk members i s) H = commit_ok members s H"
    by (simp add: commit_ok_def fun_eq_iff)
  then have "commit_inv members (restart_from_disk members i s) H"
    using inv(4) assms(3) logs
    by (auto simp: commit_inv_def node_commits_def sent_commits_def match_backed_def raft_init_def
        volatile_default_def commit_ok_def [of _ _ _ _ "[]"])
  with election_inv_restart [OF assms(2) inv(1) assms(3)] log_inv_restart [OF inv(1,2)]
    history_inv_restart [OF inv(1,3)]
  show ?thesis unfolding run_inv_def by blast
qed

lemma run_inv_init:
  assumes "cluster_ok members"
  shows "run_inv members (sys_init members)"
proof -
  have "commit_inv members (sys_init members) \<lparr>versions = (\<lambda>_. {}), base = (\<lambda>_. []), snapshot = (\<lambda>_ _. None)\<rparr>"
    by (simp add: commit_inv_def node_commits_def sent_commits_def match_backed_def commit_ok_def
        sys_init_def raft_init_def persistent_default_def volatile_default_def)
  with election_inv_init [OF assms] log_inv_init history_inv_init show ?thesis
    unfolding run_inv_def by blast
qed

lemma apps_ok_restart:
  "apps_ok members s \<Longrightarrow> apps_ok members (restart_from_disk members i s)"
  by (auto simp: apps_ok_def restart_from_disk_def raft_init_def volatile_default_def)

lemma truthful_inv:
  assumes "cluster_ok members" "truthful members s"
  shows "run_inv members s \<and> apps_ok members s"
  using assms(2)
proof (induction rule: truthful_induct)
  case init
  show ?case using run_inv_init [OF assms(1)]
    by (simp add: apps_ok_def sys_init_def raft_init_def volatile_default_def)
next
  case (full s i ev r as)
  then have kept: "log_kept_or_saved (nodes s i) r (take (length as) as)" by simp
  have inv: "run_inv members s" "apps_ok members s" using full(1) by simp_all
  from run_inv_step_ok [OF assms(1) inv(1) full(2,3) kept] obtain H where
    ok: "step_ok members s H i ev r as (length as)" "commit_inv members s H" .
  have "apps_ok members (handled s i r as)"
    using apps_after [OF ok inv(2)] inv(2) by (auto simp: apps_ok_def)
  with run_inv_after [OF assms(1) inv(1) full(2,3) kept] show ?case by simp
next
  case (crash s i ev r as n)
  then have inv: "run_inv members s" "apps_ok members s" by simp_all
  have i: "i \<in> set members" using crash(2) by (simp add: node_step_def)
  have "apps_ok members (restart_from_disk members i (handled s i r (take n as)))"
    using inv(2) by (auto simp: apps_ok_def restart_from_disk_def raft_init_def volatile_default_def)
  with run_inv_restart [OF run_inv_after [OF assms(1) inv(1) crash(2,3,4)] assms(1) i] show ?case by simp
next
  case (restart s i)
  with run_inv_restart [OF _ assms(1)] apps_ok_restart show ?case by blast
qed

section \<open>The properties\<close>

text \<open>The committed part of a node's log is in the log of every leader of the same or a later term.\<close>

lemma leader_has_committed:
  assumes "run_inv members s" "i \<in> set members" "j \<in> set members" "role (nodes s j) = Leader"
    "cterm (nodes s i) \<le> cterm (nodes s j)"
  shows "prefix (commit_prefix (nodes s i)) (rlog (nodes s j))"
proof -
  from assms(1) obtain H where inv: "election_inv members s" "history_inv members s H" "commit_inv members s H"
    by (auto simp: run_inv_def)
  let ?l = "commit_prefix (nodes s i)" and ?t = "cterm (nodes s j)"
  have lv: "rlog (nodes s j) \<in> versions H ?t" "\<forall>h \<in> versions H ?t. prefix h (rlog (nodes s j))"
    using inv(2) assms(3,4) by (simp_all add: history_inv_def leader_versions_def)
  have "commit_ok members s H (cterm (nodes s i)) ?l"
    using inv(3) assms(2) by (simp add: commit_inv_def node_commits_def)
  then consider "?l = []" | u p where "committed members s H u p" "u \<le> cterm (nodes s i)" "prefix ?l p"
    by (auto simp: commit_ok_def)
  then show ?thesis
  proof cases
    case (2 u p)
    have "prefix p (rlog (nodes s j))"
    proof (cases "u = ?t")
      case True
      with committed_version [OF 2(1)] lv(2) show ?thesis using prefix_order.trans by blast
    next
      case False
      with 2(2) assms(5) have "u < ?t" by simp
      from committed_complete [OF inv(1,2) 2(1) this lv(1)] show ?thesis .
    qed
    with 2(3) show ?thesis using prefix_order.trans by blast
  qed auto
qed

text \<open>Two committed prefixes are prefixes of one log.\<close>

lemma committed_comparable:
  assumes "election_inv members s" "history_inv members s H" "committed members s H t p"
    "committed members s H u q"
  shows "prefix p q \<or> prefix q p"
proof -
  have wf: "versions_wf H" using assms(2) by (simp add: history_inv_def)
  have le: "prefix p q \<or> prefix q p" if t: "t \<le> u" and c: "committed members s H t p" "committed members s H u q"
    for t u p q
  proof -
    from committed_version [OF c(2)] obtain h where h: "h \<in> versions H u" "prefix q h" by blast
    have "\<exists>g \<in> versions H u. prefix p g"
    proof (cases "t = u")
      case True
      with committed_version [OF c(1)] show ?thesis by simp
    next
      case False
      with t have "t < u" by simp
      from committed_complete [OF assms(1,2) c(1) this h(1)] h(1) show ?thesis by blast
    qed
    then obtain g where "g \<in> versions H u" "prefix p g" by blast
    with versions_chain [OF wf, of g u h p q] versions_chain [OF wf, of h u g q p] h show ?thesis
      by (meson linear)
  qed
  show ?thesis
  proof (cases "t \<le> u")
    case True
    from le [OF True assms(3,4)] show ?thesis .
  next
    case False
    then have "u \<le> t" by simp
    from le [OF this assms(4,3)] show ?thesis by blast
  qed
qed

lemma commit_prefixes_comparable:
  assumes "run_inv members s" "i \<in> set members" "j \<in> set members"
  shows "prefix (commit_prefix (nodes s i)) (commit_prefix (nodes s j)) \<or>
    prefix (commit_prefix (nodes s j)) (commit_prefix (nodes s i))"
proof -
  from assms(1) obtain H where inv: "election_inv members s" "history_inv members s H" "commit_inv members s H"
    by (auto simp: run_inv_def)
  have ok: "commit_ok members s H (cterm (nodes s k)) (commit_prefix (nodes s k))" if "k \<in> set members" for k
    using inv(3) that by (simp add: commit_inv_def node_commits_def)
  show ?thesis
  proof (cases "commit_prefix (nodes s i) = [] \<or> commit_prefix (nodes s j) = []")
    case False
    with ok [OF assms(2)] ok [OF assms(3)] obtain t p u q where
      "committed members s H t p" "prefix (commit_prefix (nodes s i)) p"
      "committed members s H u q" "prefix (commit_prefix (nodes s j)) q"
      unfolding commit_ok_def by blast
    with committed_comparable [OF inv(1,2)] show ?thesis
      by (meson prefix_order.trans prefix_same_cases)
  qed auto
qed

text \<open>C4: leader completeness. In every run in which no follower reports a stale tail, the log of a
  leader contains everything that any node of the same or an earlier term has marked as
  committed, at the same places.\<close>

theorem leader_completeness:
  assumes "cluster_ok members" "truthful members s" "i \<in> set members" "j \<in> set members"
    "role (nodes s j) = Leader" "cterm (nodes s i) \<le> cterm (nodes s j)"
  shows "take (unat (rcommit (nodes s i))) (rlog (nodes s j)) = take (unat (rcommit (nodes s i))) (rlog (nodes s i)) \<and>
    unat (rcommit (nodes s i)) \<le> length (rlog (nodes s i)) \<and>
    unat (rcommit (nodes s i)) \<le> length (rlog (nodes s j))"
proof -
  have inv: "run_inv members s" using truthful_inv [OF assms(1,2)] by simp
  then have len: "unat (rcommit (nodes s i)) \<le> length (rlog (nodes s i))"
    using assms(3) by (auto simp: run_inv_def commit_inv_def node_commits_def)
  from leader_has_committed [OF inv assms(3-6)] obtain z where
    "rlog (nodes s j) = commit_prefix (nodes s i) @ z" by (auto simp: prefix_def)
  with len show ?thesis by simp
qed

lemma applied_agree:
  assumes "cluster_ok members" "truthful members s" "i \<in> set members" "j \<in> set members"
  shows "(prefix (apps s i) (apps s j) \<or> prefix (apps s j) (apps s i)) \<and>
    apps s i = map command (take (unat (rapplied (nodes s i))) (rlog (nodes s i))) \<and>
    rapplied (nodes s i) \<le> rcommit (nodes s i)"
proof -
  note inv = truthful_inv [OF assms(1,2)]
  have app: "rapplied (nodes s k) \<le> rcommit (nodes s k)"
    "apps s k = map command (take (unat (rapplied (nodes s k))) (rlog (nodes s k)))"
    if "k \<in> set members" for k
    using inv that by (simp_all add: apps_ok_def)
  have pre: "prefix (apps s k) (map command (commit_prefix (nodes s k)))" if "k \<in> set members" for k
  proof -
    have "unat (rapplied (nodes s k)) \<le> unat (rcommit (nodes s k))"
      using app(1) [OF that] by (simp add: word_le_nat_alt)
    then have "take (unat (rapplied (nodes s k))) (rlog (nodes s k)) =
        take (unat (rapplied (nodes s k))) (commit_prefix (nodes s k))"
      by (simp add: min_absorb1)
    then have "apps s k = take (unat (rapplied (nodes s k))) (map command (commit_prefix (nodes s k)))"
      using app(2) [OF that] by (simp only: take_map)
    then show ?thesis by (simp only: take_is_prefix)
  qed
  from commit_prefixes_comparable [OF _ assms(3,4)] inv have
    "prefix (map command (commit_prefix (nodes s i))) (map command (commit_prefix (nodes s j))) \<or>
     prefix (map command (commit_prefix (nodes s j))) (map command (commit_prefix (nodes s i)))"
    by (meson map_mono_prefix)
  with pre [OF assms(3)] pre [OF assms(4)] have "prefix (apps s i) (apps s j) \<or> prefix (apps s j) (apps s i)"
    by (meson prefix_order.trans prefix_same_cases)
  with app [OF assms(3)] show ?thesis by simp
qed

text \<open>C3: state machine safety. In every run in which no follower reports a stale tail, whatever is
  lost, repeated, reordered, crashed and restarted, the state machines of any two nodes have
  applied the same commands in the same order, one possibly further than the other; a node
  applied exactly the commands of its log up to \<open>last_applied\<close>, which does not exceed the
  commit index.\<close>

theorem state_machine_safety:
  assumes "cluster_ok members" "truthful members s" "i \<in> set members" "j \<in> set members"
  shows "(prefix (apps s i) (apps s j) \<or> prefix (apps s j) (apps s i)) \<and>
    apps s i = map command (take (unat (rapplied (nodes s i))) (rlog (nodes s i))) \<and>
    rapplied (nodes s i) \<le> rcommit (nodes s i)"
  using assms by (rule applied_agree)

text \<open>C9: commitment is permanent. In a run without stale tails, an event never lowers a node's commit
  index, and never changes or removes the entries of its log that the commit index covers.\<close>

theorem committed_entries_permanent:
  assumes "cluster_ok members" "truthful members s" "node_step members s i ev r as"
    "\<not> reports_stale_tail (nodes s i) ev"
  shows "rcommit (nodes s i) \<le> rcommit r \<and> unat (rcommit r) \<le> length (rlog r) \<and>
    take (unat (rcommit (nodes s i))) (rlog r) = take (unat (rcommit (nodes s i))) (rlog (nodes s i))"
proof -
  have inv: "run_inv members s" using truthful_inv [OF assms(1,2)] by simp
  have "raft_step Debug (nodes s i) ev = Inr (r, as)" using assms(3) by (simp add: node_step_def)
  from saved_in_full [OF this] have "log_kept_or_saved (nodes s i) r (take (length as) as)" by simp
  from run_inv_step_ok [OF assms(1) inv assms(3,4) this] obtain H where
    ok: "step_ok members s H i ev r as (length as)" "commit_inv members s H" .
  have "node_commits members s H" using ok(2) by (simp add: commit_inv_def)
  from commit_prefix_kept [OF ok(1) this] own_commits_ok [OF ok] show ?thesis by simp
qed

section \<open>A truthful run\<close>

text \<open>The run that replicates one entry, and the heartbeat that tells node 3 of the commit.\<close>

definition one_commit :: "Step list" where
  "one_commit = one_replication @
     [Handle 1 HeartbeatTimeout,
      Handle 3 (EvMessage (MAppendEntries \<lparr>ae_term = 1, leader_id = 1, prev_log_index = 1,
        prev_log_term = 1, entries = [], leader_commit = 1\<rparr>))]"

lemma one_commit_run:
  "truthful_run members3 (sys_init members3) one_commit \<and>
   (\<exists>s. sys_run members3 (sys_init members3) one_commit = Some s \<and>
     role (nodes s 1) = Leader \<and> cterm (nodes s 1) = 1 \<and> cterm (nodes s 3) = 1 \<and>
     rlog (nodes s 1) = [one_entry] \<and> rcommit (nodes s 3) = 1 \<and>
     apps s 3 = [command_default] \<and> apps s 1 = [command_default])"
  by (simp add: members3_def one_commit_def one_replication_def one_election_def one_entry_def run_simps
      stale_tail_def acceptable_def del: handle_Some handled_simps)

lemma one_commit_truthful:
  "\<exists>s. truthful members3 s \<and> role (nodes s 1) = Leader \<and> cterm (nodes s 1) = 1 \<and> cterm (nodes s 3) = 1 \<and>
     rlog (nodes s 1) = [one_entry] \<and> rcommit (nodes s 3) = 1 \<and>
     apps s 3 = [command_default] \<and> apps s 1 = [command_default]"
  using one_commit_run truthful_run_truthful [OF truthful.init] by blast

theorem leader_completeness_witness:
  "\<exists>s. truthful members3 s \<and> rcommit (nodes s 3) = 1 \<and> 1 \<le> length (rlog (nodes s 1)) \<and>
     take 1 (rlog (nodes s 1)) = take 1 (rlog (nodes s 3))"
proof -
  obtain s where s: "truthful members3 s" "role (nodes s 1) = Leader" "cterm (nodes s 1) = 1"
    "cterm (nodes s 3) = 1" "rcommit (nodes s 3) = 1"
    using one_commit_truthful by blast
  have m: "3 \<in> set members3" "1 \<in> set members3" by (simp_all add: members3_def)
  have "cterm (nodes s 3) \<le> cterm (nodes s 1)" using s by simp
  from leader_completeness [OF members3_ok s(1) m s(2) this] s show ?thesis by auto
qed

theorem state_machine_safety_witness:
  "\<exists>s. truthful members3 s \<and> apps s 3 = [command_default] \<and>
     (prefix (apps s 1) [command_default] \<or> prefix [command_default] (apps s 1))"
proof -
  obtain s where s: "truthful members3 s" "apps s 3 = [command_default]"
    using one_commit_truthful by blast
  have m: "1 \<in> set members3" "3 \<in> set members3" by (simp_all add: members3_def)
  from state_machine_safety [OF members3_ok s(1) m] s show ?thesis by auto
qed

theorem committed_entries_permanent_witness:
  "\<exists>s r as. truthful members3 s \<and> rcommit (nodes s 3) = 1 \<and>
     node_step members3 s 3 ElectionTimeout r as \<and> 1 \<le> rcommit r \<and> take 1 (rlog r) = take 1 (rlog (nodes s 3))"
proof -
  obtain s where s: "truthful members3 s" "cterm (nodes s 3) = 1" "rcommit (nodes s 3) = 1"
    using one_commit_truthful by blast
  have "add_u64 Debug (cterm (nodes s 3)) 1 = Inr 2" using s(2) by (simp add: add_u64_def)
  moreover have "peers (nodes s 3) = others members3 3"
    using reachable_nodes_ok [OF members3_ok truthful_reachable [OF s(1)]]
    by (simp add: nodes_ok_def members3_def)
  ultimately have "\<exists>x. handle_election_timeout Debug (nodes s 3) = Inr x"
    by (cases "role (nodes s 3) = Leader")
       (simp_all add: handle_election_timeout_def members3_def others_def Let_def)
  then obtain r as where st: "handle_election_timeout Debug (nodes s 3) = Inr (r, as)" by fastforce
  then have ns: "node_step members3 s 3 ElectionTimeout r as"
    by (simp add: node_step_def possible_def members3_def)
  have "\<not> reports_stale_tail (nodes s 3) ElectionTimeout" by simp
  from committed_entries_permanent [OF members3_ok s(1) ns this] s ns show ?thesis by auto
qed

end
