(* ===== verification/LogRepair.thy ===== *)
theory LogRepair
  imports LogMatching Leadership
begin

text \<open>
  The repair of a follower's log ends. A leader that exchanges heartbeats and replies with one
  follower lowers the follower's \<open>next_index\<close> by one for every rejection, until the previous entry
  matches, at the latest at the start of the log; then the follower takes over the rest.
\<close>

section \<open>One exchange\<close>

definition reply_of :: "Action list \<Rightarrow> AppendEntriesResponse option" where
  "reply_of as = (case sends as of (_, MAppendEntriesResponse a) # _ \<Rightarrow> Some a | _ \<Rightarrow> None)"

text \<open>The heartbeat for peer number \<open>k\<close>, handled by the follower, and the follower's reply, handled by the leader.\<close>

definition exchange :: "nat \<Rightarrow> Raft \<times> Raft \<Rightarrow> panic + Raft \<times> Raft" where
  "exchange k = (\<lambda>(l, f).
     and_then (append_entries_for_peer l k) (\<lambda>act.
     case act of
       Send _ (MAppendEntries m) \<Rightarrow>
         (let (f', as) = handle_append_entries f m in
          case reply_of as of
            None \<Rightarrow> Inr (l, f')
          | Some a \<Rightarrow> and_then (handle_append_entries_response Debug l a) (\<lambda>(l', _). Inr (l', f')))
     | _ \<Rightarrow> Inr (l, f)))"

primrec exchanges :: "nat \<Rightarrow> nat \<Rightarrow> Raft \<times> Raft \<Rightarrow> panic + Raft \<times> Raft" where
  "exchanges k 0 x = Inr x"
| "exchanges k (Suc n) x = and_then (exchange k x) (exchanges k n)"

text \<open>The leader sends to the follower, in a term that is not stale for it; both logs are well-formed.\<close>

definition in_sync_with :: "nat \<Rightarrow> LeaderState \<Rightarrow> Raft \<Rightarrow> Raft \<Rightarrow> bool" where
  "in_sync_with k ls l f \<longleftrightarrow> node_wf l \<and> role l = Leader \<and> leader_state l = Some ls \<and>
     k < length (peers l) \<and> raft_id f = peers l ! k \<and> cterm f \<le> cterm l \<and> 1 \<le> next_index ls ! k \<and>
     contiguous 0 (rlog l) \<and> contiguous 0 (rlog f) \<and> logs_agree (rlog f) (rlog l) \<and>
     (\<forall>e \<in> set (rlog f). 0 < entry_term e) \<and>
     length (rlog l) < 2 ^ 64 - 1 \<and> length (rlog f) < 2 ^ 64 - 1"

lemma exchange_eq:
  assumes "in_sync_with k ls l f" "handle_append_entries f (peer_append_entries l (next_index ls ! k)) = (f', as)"
  shows "exchange k (l, f) = (case reply_of as of None \<Rightarrow> Inr (l, f')
    | Some a \<Rightarrow> and_then (handle_append_entries_response Debug l a) (\<lambda>(l', _). Inr (l', f')))"
proof -
  from assms(1) have k: "k < length (peers l)" "leader_state l = Some ls"
    "length (next_index ls) = length (peers l)"
    by (auto simp: in_sync_with_def node_wf_defs)
  show ?thesis using append_entries_for_peer_ok [OF k] assms(2) by (simp add: exchange_def)
qed

lemma reply_returns:
  assumes "node_wf l" "unat (aer_match_index a) + 1 < 2 ^ 64"
  shows "\<exists>l' as. handle_append_entries_response Debug l a = Inr (l', as)"
proof (cases "handle_append_entries_response Debug l a")
  case (Inl e)
  have "add_u64 Debug (aer_match_index a) 1 = Inr (aer_match_index a + 1)"
    using assms(2) by (simp add: add_u64_Debug_Inr)
  moreover have "j < length (peers l)" if "position (\<lambda>i. i = aer_from a) (peers l) = Some j" for j
    using position_SomeD [OF that] by simp
  ultimately show ?thesis using Inl assms(1)
    by (auto simp: handle_append_entries_response_def and_then_eq_Inl get_at_def set_at_def
        node_wf_defs split: if_splits option.splits)
qed auto

text \<open>A rejected heartbeat costs one step of \<open>next_index\<close> and leaves both logs alone.\<close>

lemma exchange_rejected:
  assumes "in_sync_with k ls l f" "\<not> acceptable f (peer_append_entries l (next_index ls ! k))"
  shows "\<exists>l' f' ls'. exchange k (l, f) = Inr (l', f') \<and> in_sync_with k ls' l' f' \<and> rlog l' = rlog l \<and>
    next_index ls' ! k + 1 = next_index ls ! k \<and> match_index ls' = match_index ls \<and>
    persistent l' = persistent l \<and> volatile l' = volatile l \<and> rlog f' = rlog f"
proof -
  let ?n = "next_index ls ! k" and ?m = "peer_append_entries l (next_index ls ! k)"
  note sync = assms(1) [unfolded in_sync_with_def]
  from append_entries_reject [OF assms(2)] obtain f' where
    h: "handle_append_entries f ?m = (f', [append_entries_response f' (leader_id ?m) False])"
    and f': "rlog f' = rlog f" "cterm f' = max (cterm f) (ae_term ?m)" "raft_id f' = raft_id f"
    by blast
  have t: "cterm f' = cterm l" using f'(2) sync by (simp add: peer_append_entries_def max_absorb2)
  define a where "a = \<lparr>aer_term = cterm f', success = False, aer_from = raft_id f', aer_match_index = 0\<rparr>"
  have "reply_of [append_entries_response f' (leader_id ?m) False] = Some a"
    by (simp add: reply_of_def append_entries_response_def a_def)
  with exchange_eq [OF assms(1) h] have ex: "exchange k (l, f) =
      and_then (handle_append_entries_response Debug l a) (\<lambda>(l', _). Inr (l', f'))" by simp
  from reply_returns [of l a] sync obtain l' as where
    r: "handle_append_entries_response Debug l a = Inr (l', as)" by (auto simp: a_def)
  have l': "l' = l\<lparr>leader_state := Some (after_reply ls k a)\<rparr>"
    using reply_effect [OF _ _ _ _ _ _ r] sync t f'(3) by (simp add: a_def)
  have gt: "1 < ?n"
  proof (rule ccontr)
    assume "\<not> ?thesis"
    with sync have "?n = 1" by simp
    then have "prev_log_index ?m = 0" by (simp add: peer_append_entries_def prev_log_info_def)
    with assms(2) sync show False by (simp add: acceptable_def log_matches_def peer_append_entries_def)
  qed
  have len: "length (next_index ls) = length (peers l)" using sync by (auto simp: node_wf_defs)
  let ?ls' = "after_reply ls k a"
  have nx: "next_index ?ls' ! k = max (saturating_sub ?n 1) 1"
    using len sync by (simp add: after_reply_def a_def)
  have ge: "1 \<le> ?n - 1" using gt by (simp add: word_le_nat_alt word_less_nat_alt unat_sub)
  have "max (saturating_sub ?n 1) 1 = ?n - 1"
  proof -
    note ge
    moreover have "?n \<noteq> 0" using gt by auto
    ultimately show ?thesis using gt by (simp add: saturating_sub_def max_absorb1)
  qed
  with nx ge have nx': "next_index ?ls' ! k + 1 = ?n" "1 \<le> next_index ?ls' ! k" by simp_all
  have wf: "node_wf l'" using raft_step_node_wf [of l Debug "EvMessage (MAppendEntriesResponse a)" l' as] r sync
    by simp
  have "in_sync_with k ?ls' l' f'"
    using sync wf nx'(2) f' t by (simp add: in_sync_with_def l')
  moreover have "match_index ?ls' = match_index ls" by (simp add: after_reply_def a_def)
  ultimately show ?thesis using ex r l' nx'(1) f'(1) by auto
qed

text \<open>
  An accepted heartbeat repairs the log: the follower keeps a log that has the leader's as a
  prefix and otherwise takes the leader's over. The leader counts the reply.
\<close>

lemma exchange_accepted_effect:
  assumes "in_sync_with k ls l f" "acceptable f (peer_append_entries l (next_index ls ! k))"
    "handle_append_entries f (peer_append_entries l (next_index ls ! k)) = (f', as)"
  shows "\<exists>l' a bs. exchange k (l, f) = Inr (l', f') \<and> success a \<and>
    rlog f' = (if take (length (rlog l)) (rlog f) = rlog l then rlog f else rlog l) \<and>
    cterm f' = cterm l \<and> unat (aer_match_index a) = length (rlog f') \<and>
    try_advance_commit_index (l\<lparr>leader_state := Some (after_reply ls k a)\<rparr>) = (l', bs)"
proof -
  let ?m = "peer_append_entries l (next_index ls ! k)"
  note sync = assms(1) [unfolded in_sync_with_def] and h = assms(3)
  note st = append_entries_accepted_state [OF assms(2) h]
  have log: "rlog f' = (if take (length (rlog l)) (rlog f) = rlog l then rlog f else rlog l)"
    using reconcile_takes_version [of f "rlog l" ?m] rest_of_peer_append_entries [of l "next_index ls ! k"]
      sync assms(2) st
    by (auto simp: acceptable_def)
  have cont: "contiguous 0 (rlog f')" and len: "length (rlog f') < 2 ^ 64 - 1"
    using log sync by (auto split: if_splits)
  have t: "cterm f' = cterm l" using st cterm_ae_accepted [OF assms(2)] by (simp add: peer_append_entries_def)
  define a where "a = \<lparr>aer_term = cterm f', success = True, aer_from = raft_id f',
    aer_match_index = last_log_index f'\<rparr>"
  have "reply_of as = Some a"
    using h append_entries_accept [OF assms(2)]
    by (auto simp: reply_of_def append_entries_response_def a_def split: prod.splits)
  with exchange_eq [OF assms(1) h] have ex: "exchange k (l, f) =
      and_then (handle_append_entries_response Debug l a) (\<lambda>(l', _). Inr (l', f'))" by simp
  have ml: "unat (aer_match_index a) = length (rlog f')"
    using unat_last_log_index [OF cont] by (simp add: a_def)
  from reply_returns [of l a] sync ml len obtain l' bs where
    r: "handle_append_entries_response Debug l a = Inr (l', bs)" by auto
  have "aer_from a = peers l ! k" "aer_term a = cterm l" "success a"
    using sync t st by (simp_all add: a_def)
  with reply_effect [OF _ _ _ _ _ _ r, of ls k] sync
  have "try_advance_commit_index (l\<lparr>leader_state := Some (after_reply ls k a)\<rparr>) = (l', bs)" by simp
  with ex r log t ml \<open>success a\<close> show ?thesis by auto
qed

lemma exchange_accepted:
  assumes "in_sync_with k ls l f" "acceptable f (peer_append_entries l (next_index ls ! k))"
  shows "\<exists>l' f' ls'. exchange k (l, f) = Inr (l', f') \<and> rlog l' = rlog l \<and>
    take (length (rlog l)) (rlog f') = rlog l \<and> leader_state l' = Some ls' \<and>
    length (rlog l) \<le> unat (match_index ls' ! k)"
proof -
  obtain f' as where h: "handle_append_entries f (peer_append_entries l (next_index ls ! k)) = (f', as)"
    by fastforce
  from exchange_accepted_effect [OF assms h] obtain l' a bs where
    x: "exchange k (l, f) = Inr (l', f')" "success a" "unat (aer_match_index a) = length (rlog f')"
      "rlog f' = (if take (length (rlog l)) (rlog f) = rlog l then rlog f else rlog l)"
      "try_advance_commit_index (l\<lparr>leader_state := Some (after_reply ls k a)\<rparr>) = (l', bs)" by blast
  from try_advance_frame [OF x(5)] have l': "leader_state l' = Some (after_reply ls k a)" "rlog l' = rlog l"
    by simp_all
  from x(4) have pre: "take (length (rlog l)) (rlog f') = rlog l" by auto
  have "k < length (match_index ls)" using assms(1) by (auto simp: in_sync_with_def node_wf_defs)
  from after_reply_match(1) [OF this x(2)]
  have "unat (aer_match_index a) \<le> unat (match_index (after_reply ls k a) ! k)" by (simp add: word_le_nat_alt)
  moreover have "length (rlog l) \<le> length (rlog f')" using arg_cong [OF pre, of length] by simp
  ultimately show ?thesis using x(1,3) l' pre by auto
qed

section \<open>Repair ends\<close>

lemma repair_ends:
  "in_sync_with k ls l f \<Longrightarrow> \<exists>n l' f' ls'. n \<le> unat (next_index ls ! k) \<and>
     exchanges k n (l, f) = Inr (l', f') \<and> rlog l' = rlog l \<and>
     take (length (rlog l)) (rlog f') = rlog l \<and> leader_state l' = Some ls' \<and>
     length (rlog l) \<le> unat (match_index ls' ! k)"
proof (induction "unat (next_index ls ! k)" arbitrary: ls l f rule: less_induct)
  case less
  have "1 \<le> next_index ls ! k" using less.prems by (simp add: in_sync_with_def)
  then have pos: "1 \<le> unat (next_index ls ! k)" by (simp add: word_le_nat_alt)
  show ?case
  proof (cases "acceptable f (peer_append_entries l (next_index ls ! k))")
    case True
    from exchange_accepted [OF less.prems True] obtain l' f' ls' where
      "exchange k (l, f) = Inr (l', f')" "rlog l' = rlog l"
      "take (length (rlog l)) (rlog f') = rlog l" "leader_state l' = Some ls'"
      "length (rlog l) \<le> unat (match_index ls' ! k)" by blast
    with pos show ?thesis by (intro exI [of _ "Suc 0"] exI [of _ l'] exI [of _ f'] exI [of _ ls']) simp
  next
    case False
    from exchange_rejected [OF less.prems False] obtain l1 f1 ls1 where
      x: "exchange k (l, f) = Inr (l1, f1)" "in_sync_with k ls1 l1 f1" "rlog l1 = rlog l"
        "next_index ls1 ! k + 1 = next_index ls ! k" by blast
    have "1 \<le> next_index ls1 ! k" using x(2) by (simp add: in_sync_with_def)
    have lt: "unat (next_index ls1 ! k) + 1 = unat (next_index ls ! k)"
    proof -
      have "next_index ls1 ! k = next_index ls ! k - 1" using x(4) by (metis add_diff_cancel_right')
      with pos \<open>1 \<le> next_index ls ! k\<close> show ?thesis by (simp add: unat_sub)
    qed
    then have "unat (next_index ls1 ! k) < unat (next_index ls ! k)" by simp
    from less.hyps [OF this x(2)] obtain n l' f' ls' where
      "n \<le> unat (next_index ls1 ! k)" "exchanges k n (l1, f1) = Inr (l', f')" "rlog l' = rlog l1"
      "take (length (rlog l1)) (rlog f') = rlog l1" "leader_state l' = Some ls'"
      "length (rlog l1) \<le> unat (match_index ls' ! k)" by blast
    with x lt show ?thesis
      by (intro exI [of _ "Suc n"] exI [of _ l'] exI [of _ f'] exI [of _ ls']) simp
  qed
qed

text \<open>C8: log repair ends. In a reachable state, a leader that exchanges heartbeats and replies with a
  follower whose term is not ahead brings the follower's log to start with the leader's whole
  log, and records at least that as matched, after at most \<open>next_index\<close> exchanges and without a
  panic, however the logs had diverged.\<close>

theorem log_repair_ends:
  assumes "cluster_ok members" "reachable members s" "i \<in> set members" "role (nodes s i) = Leader"
    "leader_state (nodes s i) = Some ls" "k < length (peers (nodes s i))" "j = peers (nodes s i) ! k"
    "cterm (nodes s j) \<le> cterm (nodes s i)" "1 \<le> next_index ls ! k"
    "length (rlog (nodes s i)) < 2 ^ 64 - 1" "length (rlog (nodes s j)) < 2 ^ 64 - 1"
  shows "\<exists>n l f ls'. n \<le> unat (next_index ls ! k) \<and>
    exchanges k n (nodes s i, nodes s j) = Inr (l, f) \<and>
    take (length (rlog (nodes s i))) (rlog f) = rlog (nodes s i) \<and> leader_state l = Some ls' \<and>
    length (rlog (nodes s i)) \<le> unat (match_index ls' ! k)"
proof -
  from reachable_log_inv [OF assms(1,2)] obtain F where inv: "election_inv members s" "log_inv members F s"
    by blast
  have ids: "node_wf (nodes s i)" "raft_id (nodes s x) = x" "peers (nodes s i) = others members i"
    if "x \<in> set members" for x
    using inv(1) assms(3) that by (simp_all add: election_inv_def nodes_ok_def)
  have "j \<in> set (peers (nodes s i))" using assms(6,7) by simp
  then have j: "j \<in> set members" using ids [OF assms(3)] by simp
  have F: "rlog (nodes s i) \<in> F" "rlog (nodes s j) \<in> F"
    using inv(2) assms(3) j by (simp_all add: log_inv_def logs_in_def)
  have "0 < entry_term e" if "e \<in> set (rlog (nodes s j))" for e
    using inv(2) F(2) that settled_pos [OF inv(1)] by (auto simp: log_inv_def versions_ok_def)
  then have "in_sync_with k ls (nodes s i) (nodes s j)"
    using assms ids [OF j] F inv(2) by (auto simp: in_sync_with_def log_inv_def versions_ok_def)
  from repair_ends [OF this] show ?thesis by blast
qed

lemma one_replication_leader:
  "\<exists>s ls. reachable members3 s \<and> role (nodes s 1) = Leader \<and> leader_state (nodes s 1) = Some ls \<and>
     next_index ls ! 0 = 1 \<and> peers (nodes s 1) = [2, 3] \<and> cterm (nodes s 1) = 1 \<and> cterm (nodes s 2) \<le> 1 \<and>
     rlog (nodes s 1) = [one_entry] \<and> rlog (nodes s 2) = []"
proof -
  have "\<exists>s. sys_run members3 (sys_init members3) one_replication = Some s \<and> (\<exists>ls.
     role (nodes s 1) = Leader \<and> leader_state (nodes s 1) = Some ls \<and>
     next_index ls ! 0 = 1 \<and> peers (nodes s 1) = [2, 3] \<and> cterm (nodes s 1) = 1 \<and> cterm (nodes s 2) \<le> 1 \<and>
     rlog (nodes s 1) = [one_entry] \<and> rlog (nodes s 2) = [])"
    by (simp add: members3_def one_replication_def one_election_def one_entry_def run_simps
        del: handle_Some handled_simps)
  with sys_run_reachable [OF reachable.init] show ?thesis by blast
qed

theorem log_repair_ends_witness:
  "\<exists>s n l f. reachable members3 s \<and> rlog (nodes s 1) = [one_entry] \<and> rlog (nodes s 2) = [] \<and> n \<le> 1 \<and>
     exchanges 0 n (nodes s 1, nodes s 2) = Inr (l, f) \<and> take 1 (rlog f) = [one_entry]"
proof -
  obtain s ls where s: "reachable members3 s" "role (nodes s 1) = Leader"
    "leader_state (nodes s 1) = Some ls" "next_index ls ! 0 = 1" "peers (nodes s 1) = [2, 3]"
    "cterm (nodes s 1) = 1" "cterm (nodes s 2) \<le> 1"
    "rlog (nodes s 1) = [one_entry]" "rlog (nodes s 2) = []"
    using one_replication_leader by blast
  have m: "1 \<in> set members3" by (simp add: members3_def)
  have k: "0 < length (peers (nodes s 1))" "2 = peers (nodes s 1) ! 0" using s(5) by simp_all
  have "\<exists>n l f ls'. n \<le> unat (next_index ls ! 0) \<and>
    exchanges 0 n (nodes s 1, nodes s 2) = Inr (l, f) \<and>
    take (length (rlog (nodes s 1))) (rlog f) = rlog (nodes s 1) \<and> leader_state l = Some ls' \<and>
    length (rlog (nodes s 1)) \<le> unat (match_index ls' ! 0)"
    by (rule log_repair_ends [OF members3_ok s(1) m s(2,3) k]) (use s in simp_all)
  with s show ?thesis by (auto intro!: exI [of _ s])
qed

end
