(* ===== verification/Electability.thy ===== *)
theory Electability
  imports StateMachineSafety LogRepair
begin

text \<open>
  Availability, first half: a majority that is up and can talk elects a leader. The steps of an
  \<^emph>\<open>alive run\<close> are events handled in full by the nodes of one set, with no crash and no restart;
  the other nodes may be down for the whole run. The candidate is a node of the majority with
  the most up-to-date log: it raises its term above those of the others and collects their
  votes.
\<close>

section \<open>Alive runs\<close>

definition alive_step :: "NodeId list \<Rightarrow> NodeId set \<Rightarrow> System \<Rightarrow> System \<Rightarrow> bool" where
  "alive_step members Q s s' \<longleftrightarrow> (\<exists>i \<in> Q. \<exists>ev r as. node_step members s i ev r as \<and>
     \<not> reports_stale_tail (nodes s i) ev \<and> s' = handled s i r as)"

abbreviation alive_run :: "NodeId list \<Rightarrow> NodeId set \<Rightarrow> System \<Rightarrow> System \<Rightarrow> bool" where
  "alive_run members Q \<equiv> (alive_step members Q)\<^sup>*\<^sup>*"

fun handled_in :: "NodeId set \<Rightarrow> Step \<Rightarrow> bool" where
  "handled_in Q (Handle i ev) = (i \<in> Q)"
| "handled_in Q _ = False"

lemma alive_handle:
  assumes "i \<in> Q" "i \<in> set members" "possible s i ev" "raft_step Debug (nodes s i) ev = Inr (r, as)"
    "\<not> reports_stale_tail (nodes s i) ev"
  shows "alive_run members Q s (handled s i r as)"
proof -
  have "node_step members s i ev r as" using assms(2-4) by (simp add: node_step_def)
  with assms(1,5) have "alive_step members Q s (handled s i r as)" unfolding alive_step_def by blast
  then show ?thesis ..
qed

text \<open>An alive run is a run of the system, with the steps written out.\<close>

lemma alive_step_sys:
  assumes "alive_step members Q s s'"
  shows "\<exists>st. handled_in Q st \<and> sys_step members s st = Some s' \<and> truthful_step s st"
proof -
  from assms obtain i ev r as where st: "i \<in> Q" "node_step members s i ev r as"
    "\<not> reports_stale_tail (nodes s i) ev" "s' = handled s i r as"
    unfolding alive_step_def by blast
  from st(2) have "handle members s i ev = Some (r, as)" by (rule handle_Some [THEN iffD2])
  with st show ?thesis by (intro exI [of _ "Handle i ev"]) (simp del: handle_Some)
qed

lemma alive_run_sys_run:
  "alive_run members Q s s' \<Longrightarrow>
     \<exists>sts. list_all (handled_in Q) sts \<and> sys_run members s sts = Some s' \<and> truthful_run members s sts"
proof (induction rule: converse_rtranclp_induct)
  case base
  show ?case by (intro exI [of _ "[]"]) simp
next
  case (step s t)
  then obtain st sts where "handled_in Q st" "sys_step members s st = Some t" "truthful_step s st"
    "list_all (handled_in Q) sts" "sys_run members t sts = Some s'" "truthful_run members t sts"
    using alive_step_sys by blast
  then show ?case by (intro exI [of _ "st # sts"]) simp
qed

lemma alive_run_reachable: "alive_run members Q s s' \<Longrightarrow> reachable members s \<Longrightarrow> reachable members s'"
  using alive_run_sys_run sys_run_reachable by blast

lemma alive_run_truthful: "alive_run members Q s s' \<Longrightarrow> truthful members s \<Longrightarrow> truthful members s'"
  using alive_run_sys_run truthful_run_truthful by blast

text \<open>What every reachable state has of a member.\<close>

lemma member_ok:
  assumes "cluster_ok members" "reachable members s" "i \<in> set members"
  shows "node_wf (nodes s i)" "raft_id (nodes s i) = i" "peers (nodes s i) = others members i"
    "peers (nodes s i) \<noteq> []" "quorum (nodes s i) = length members div 2 + 1"
    "contiguous 0 (rlog (nodes s i))"
proof -
  show ok: "node_wf (nodes s i)" "raft_id (nodes s i) = i" "peers (nodes s i) = others members i"
    using reachable_nodes_ok [OF assms(1,2)] assms(3) by (simp_all add: nodes_ok_def)
  have "distinct members" "2 \<le> length members" using assms(1) by (simp_all add: cluster_ok_def)
  then show "peers (nodes s i) \<noteq> []" "quorum (nodes s i) = length members div 2 + 1"
    using length_others [OF _ assms(3)] quorum_is_majority [OF _ assms(3) ok(3)] ok(3) by auto
  show "contiguous 0 (rlog (nodes s i))"
    using reachable_log_inv [OF assms(1,2)] assms(3)
    by (auto simp: log_inv_def logs_in_def versions_ok_def)
qed

section \<open>A campaign\<close>

definition vote_request :: "Raft \<Rightarrow> RequestVote" where
  "vote_request r = \<lparr>rv_term = cterm r, candidate_id = raft_id r,
     rv_last_log_index = last_log_index r, rv_last_log_term = last_log_term r\<rparr>"

lemma vote_request_cong:
  "cterm r' = cterm r \<Longrightarrow> raft_id r' = raft_id r \<Longrightarrow> rlog r' = rlog r \<Longrightarrow> vote_request r' = vote_request r"
  by (simp add: vote_request_def last_log_index_def last_log_term_def)

text \<open>The node has started a campaign in term \<open>T\<close> and has no vote but its own.\<close>

definition campaigns :: "NodeId list \<Rightarrow> NodeId \<Rightarrow> Term \<Rightarrow> System \<Rightarrow> bool" where
  "campaigns members i T s \<longleftrightarrow> role (nodes s i) = Candidate \<and> cterm (nodes s i) = T \<and>
     candidate_state (nodes s i) = Some \<lparr>votes_received = {i}, votes_granted = {i}\<rparr> \<and>
     (\<forall>j \<in> set members - {i}. (j, MRequestVote (vote_request (nodes s i))) \<in> set (net s))"

text \<open>One election timeout.\<close>

lemma timeout_campaigns:
  assumes "cluster_ok members" "reachable members s" "i \<in> Q" "i \<in> set members"
    "role (nodes s i) \<noteq> Leader" "cterm (nodes s i) < T"
  shows "\<exists>s1. alive_run members Q s s1 \<and> campaigns members i (cterm (nodes s i) + 1) s1 \<and>
    (\<forall>j. j \<noteq> i \<longrightarrow> nodes s1 j = nodes s j) \<and> rlog (nodes s1 i) = rlog (nodes s i)"
proof -
  note ok = member_ok [OF assms(1,2,4)]
  have lt: "unat (cterm (nodes s i)) + 1 < 2 ^ 64"
    using assms(6) unsigned_less [of T, where 'a = nat] by (simp add: word_less_nat_alt)
  have "\<exists>r as. handle_election_timeout Debug (nodes s i) = Inr (r, as)"
    using assms(5) ok(4) lt by (simp add: handle_election_timeout_def add_u64_def Let_def)
  then obtain r as where h: "handle_election_timeout Debug (nodes s i) = Inr (r, as)" by blast
  note c = election_timeout_candidate [OF assms(5) ok(4) h]
  have t: "cterm r = cterm (nodes s i) + 1" using c(2) by (simp add: add_u64_Debug_Inr)
  have "alive_run members Q s (handled s i r as)"
    by (rule alive_handle [OF assms(3,4), of _ ElectionTimeout]) (simp_all add: possible_def h)
  moreover have "(j, MRequestVote (vote_request r)) \<in> set (sends as)" if "j \<in> set members - {i}" for j
    using that ok(3) unfolding c(10)
    by (auto simp: create_vote_action_def vote_request_def)
  ultimately show ?thesis using c(1,4,9) ok(2) t
    by (intro exI [of _ "handled s i r as"]) (simp add: campaigns_def)
qed
text \<open>Enough timeouts bring the node's term to any value above its own.\<close>

lemma raise_term:
  assumes "cluster_ok members" "reachable members s" "i \<in> Q" "i \<in> set members"
    "role (nodes s i) \<noteq> Leader" "cterm (nodes s i) < T"
  shows "\<exists>s1. alive_run members Q s s1 \<and> campaigns members i T s1 \<and>
    (\<forall>j. j \<noteq> i \<longrightarrow> nodes s1 j = nodes s j) \<and> rlog (nodes s1 i) = rlog (nodes s i)"
  using assms(2,5,6)
proof (induction "unat T - unat (cterm (nodes s i))" arbitrary: s rule: less_induct)
  case less
  from timeout_campaigns [OF assms(1) less(2) assms(3,4) less(3,4)] obtain s1 where
    s1: "alive_run members Q s s1" "campaigns members i (cterm (nodes s i) + 1) s1"
      "\<forall>j. j \<noteq> i \<longrightarrow> nodes s1 j = nodes s j" "rlog (nodes s1 i) = rlog (nodes s i)" by blast
  from s1(2) have c: "role (nodes s1 i) \<noteq> Leader" "cterm (nodes s1 i) = cterm (nodes s i) + 1"
    by (auto simp: campaigns_def)
  have up: "unat (cterm (nodes s1 i)) = unat (cterm (nodes s i)) + 1" "unat (cterm (nodes s i)) < unat T"
    using unat_add_one_less [OF less(4)] less(4) c(2) by (simp_all add: word_less_nat_alt)
  show ?case
  proof (cases "cterm (nodes s1 i) = T")
    case True
    with s1 c show ?thesis by (intro exI [of _ s1]) simp
  next
    case False
    have "cterm (nodes s1 i) \<le> T" using up by (simp add: word_le_nat_alt)
    with False have lt: "cterm (nodes s1 i) < T" by simp
    have "unat T - unat (cterm (nodes s1 i)) < unat T - unat (cterm (nodes s i))" using up by simp
    from less(1) [OF this alive_run_reachable [OF s1(1) less(2)] c(1) lt] obtain s2 where
      "alive_run members Q s1 s2" "campaigns members i T s2" "\<forall>j. j \<noteq> i \<longrightarrow> nodes s2 j = nodes s1 j"
      "rlog (nodes s2 i) = rlog (nodes s1 i)" by blast
    with s1 show ?thesis by (intro exI [of _ s2]) auto
  qed
qed

section \<open>The votes\<close>

text \<open>One voter: it grants the candidate's request, and the candidate counts the vote.\<close>

lemma one_vote:
  assumes "cluster_ok members" "reachable members s" "Q \<subseteq> set members" "i \<in> Q" "j \<in> Q" "j \<noteq> i"
    "(j, MRequestVote (vote_request (nodes s i))) \<in> set (net s)"
    "cterm (nodes s j) < cterm (nodes s i)"
    "candidate_log_up_to_date (nodes s j) (vote_request (nodes s i))"
    "role (nodes s i) = Candidate" "candidate_state (nodes s i) = Some \<lparr>votes_received = V, votes_granted = V\<rparr>"
    "j \<notin> V" "unat (last_log_index (nodes s i)) + 1 < 2 ^ 64"
  shows "\<exists>s1. alive_run members Q s s1 \<and> set (net s) \<subseteq> set (net s1) \<and>
    (\<forall>k. k \<noteq> i \<longrightarrow> k \<noteq> j \<longrightarrow> nodes s1 k = nodes s k) \<and>
    (\<forall>k. rlog (nodes s1 k) = rlog (nodes s k)) \<and>
    cterm (nodes s1 i) = cterm (nodes s i) \<and> cterm (nodes s1 j) = cterm (nodes s i) \<and>
    (if card (insert j V) < quorum (nodes s i)
     then role (nodes s1 i) = Candidate \<and>
       candidate_state (nodes s1 i) = Some \<lparr>votes_received = insert j V, votes_granted = insert j V\<rparr>
     else role (nodes s1 i) = Leader)"
proof -
  let ?m = "vote_request (nodes s i)"
  have mem: "i \<in> set members" "j \<in> set members" using assms(3-5) by auto
  note oki = member_ok [OF assms(1,2) mem(1)] and okj = member_ok [OF assms(1,2) mem(2)]
  have "grants (nodes s j) ?m" using assms(8,9) by (auto simp: grants_def vote_request_def)
  from handle_request_vote_grant [OF this] obtain f where
    f: "handle_request_vote (nodes s j) ?m = (f, [PersistState, ResetElectionTimer, vote_response f i True])"
      "cterm f = cterm (nodes s i)" "rlog f = rlog (nodes s j)" "raft_id f = j"
    using oki(2) okj(2) by (auto simp: vote_request_def)
  define s0 where "s0 = handled s j f [PersistState, ResetElectionTimer, vote_response f i True]"
  have run0: "alive_run members Q s s0"
    unfolding s0_def by (rule alive_handle [OF assms(5) mem(2), of _ "EvMessage (MRequestVote ?m)"])
      (use assms(7) f(1) in \<open>simp_all add: possible_def\<close>)
  define a where "a = \<lparr>rvr_term = cterm (nodes s i), vote_granted = True, vote_from = j\<rparr>"
  have a: "(i, MRequestVoteResponse a) \<in> set (net s0)"
    using f by (simp add: s0_def vote_response_def a_def)
  have same: "nodes s0 i = nodes s i" using assms(6) by (simp add: s0_def)
  have peer: "j \<in> set (peers (nodes s i))" using mem(2) assms(6) oki(3) by simp
  have h: "\<exists>r as. handle_vote_response Debug (nodes s i) a = Inr (r, as) \<and> cterm r = cterm (nodes s i) \<and>
      rlog r = rlog (nodes s i) \<and> (if card (insert j V) < quorum (nodes s i)
     then role r = Candidate \<and>
       candidate_state r = Some \<lparr>votes_received = insert j V, votes_granted = insert j V\<rparr>
     else role r = Leader)"
    using assms(10-13) peer
    by (auto simp: handle_vote_response_def a_def has_majority_def not_le become_leader_def Let_def
        add_u64_def debug_assert_def last_log_index_def quorum_def)
  then obtain r as where r: "handle_vote_response Debug (nodes s i) a = Inr (r, as)" "cterm r = cterm (nodes s i)"
      "rlog r = rlog (nodes s i)" "if card (insert j V) < quorum (nodes s i)
     then role r = Candidate \<and>
       candidate_state r = Some \<lparr>votes_received = insert j V, votes_granted = insert j V\<rparr>
     else role r = Leader" by blast
  have run1: "alive_run members Q s0 (handled s0 i r as)"
    by (rule alive_handle [OF assms(4) mem(1), of _ "EvMessage (MRequestVoteResponse a)"])
      (use a r(1) same in \<open>simp_all add: possible_def\<close>)
  show ?thesis
    by (rule exI [of _ "handled s0 i r as"])
      (use rtranclp_trans [OF run0 run1] r(2-4) f assms(6) in \<open>auto simp: s0_def\<close>)
qed


text \<open>
  All voters of a set \<open>R\<close>: their votes, with the ones that the candidate has, make it the leader.
\<close>

definition asked :: "System \<Rightarrow> NodeId \<Rightarrow> NodeId \<Rightarrow> bool" where
  "asked s i j \<longleftrightarrow> (j, MRequestVote (vote_request (nodes s i))) \<in> set (net s) \<and>
     cterm (nodes s j) < cterm (nodes s i) \<and>
     candidate_log_up_to_date (nodes s j) (vote_request (nodes s i))"

lemma asked_later:
  assumes "asked s i j" "set (net s) \<subseteq> set (net s')" "nodes s' j = nodes s j"
    "cterm (nodes s' i) = cterm (nodes s i)" "rlog (nodes s' i) = rlog (nodes s i)"
    "raft_id (nodes s' i) = raft_id (nodes s i)"
  shows "asked s' i j"
  using assms vote_request_cong [OF assms(4,6,5)] unfolding asked_def by auto

lemma collect_votes:
  assumes "cluster_ok members" "majority members Q" "i \<in> Q" "finite R"
  shows "R \<subseteq> Q - {i} \<Longrightarrow> reachable members s \<Longrightarrow> role (nodes s i) = Candidate \<Longrightarrow>
    candidate_state (nodes s i) = Some \<lparr>votes_received = Q - R, votes_granted = Q - R\<rparr> \<Longrightarrow>
    card (Q - R) < quorum (nodes s i) \<Longrightarrow> \<forall>j \<in> R. asked s i j \<Longrightarrow>
    unat (last_log_index (nodes s i)) + 1 < 2 ^ 64 \<Longrightarrow>
    \<exists>s1. alive_run members Q s s1 \<and> role (nodes s1 i) = Leader \<and> cterm (nodes s1 i) = cterm (nodes s i) \<and>
      (\<forall>k. rlog (nodes s1 k) = rlog (nodes s k)) \<and>
      (\<forall>k. cterm (nodes s1 k) = cterm (nodes s k) \<or> k \<in> R \<and> cterm (nodes s1 k) = cterm (nodes s i))"
  using assms(4)
proof (induction R arbitrary: s)
  case empty
  have "i \<in> set members" using assms(2,3) by (auto simp: majority_def)
  from member_ok(5) [OF assms(1) empty(2) this] empty(5) assms(2) show ?case
    by (simp add: majority_def)
next
  case (insert j R)
  have mem: "Q \<subseteq> set members" "i \<in> set members" using assms(2,3) by (auto simp: majority_def)
  have j: "j \<in> Q" "j \<noteq> i" "j \<notin> Q - insert j R" "insert j (Q - insert j R) = Q - R"
    using insert(2,4) by auto
  have ask: "asked s i j" using insert(9) by simp
  note ask' = ask [unfolded asked_def]
  from one_vote [OF assms(1) insert(5) mem(1) assms(3) j(1,2) _ _ _ insert(6,7) j(3) insert(10)] ask' j(4)
  obtain s1 where s1: "alive_run members Q s s1" "set (net s) \<subseteq> set (net s1)"
    "\<forall>k. k \<noteq> i \<longrightarrow> k \<noteq> j \<longrightarrow> nodes s1 k = nodes s k" "\<forall>k. rlog (nodes s1 k) = rlog (nodes s k)"
    "cterm (nodes s1 i) = cterm (nodes s i)" "cterm (nodes s1 j) = cterm (nodes s i)"
    "if card (Q - R) < quorum (nodes s i)
     then role (nodes s1 i) = Candidate \<and>
       candidate_state (nodes s1 i) = Some \<lparr>votes_received = Q - R, votes_granted = Q - R\<rparr>
     else role (nodes s1 i) = Leader" by auto
  have re: "reachable members s1" by (rule alive_run_reachable [OF s1(1) insert(5)])
  have ids: "raft_id (nodes s1 i) = raft_id (nodes s i)" "quorum (nodes s1 i) = quorum (nodes s i)"
    using member_ok [OF assms(1) re mem(2)] member_ok [OF assms(1) insert(5) mem(2)] by simp_all
  have idx: "last_log_index (nodes s1 i) = last_log_index (nodes s i)"
    using s1(4) by (simp add: last_log_index_def)
  show ?case
  proof (cases "card (Q - R) < quorum (nodes s i)")
    case False
    with s1 show ?thesis by (intro exI [of _ s1]) auto
  next
    case True
    have ask1: "\<forall>k \<in> R. asked s1 i k"
    proof
      fix k assume k: "k \<in> R"
      then have "k \<noteq> i" "k \<noteq> j" using insert(2,4) by auto
      with s1 k insert(9) ids(1) show "asked s1 i k" by (intro asked_later [of s i k s1]) auto
    qed
    have cand: "role (nodes s1 i) = Candidate"
      "candidate_state (nodes s1 i) = Some \<lparr>votes_received = Q - R, votes_granted = Q - R\<rparr>"
      "card (Q - R) < quorum (nodes s1 i)" "R \<subseteq> Q - {i}"
      "unat (last_log_index (nodes s1 i)) + 1 < 2 ^ 64"
      using s1(7) True ids(2) insert(4,10) idx by auto
    from insert(3) [OF cand(4) re cand(1-3) ask1 cand(5)] obtain s2 where s2:
      "alive_run members Q s1 s2" "role (nodes s2 i) = Leader" "cterm (nodes s2 i) = cterm (nodes s1 i)"
      "\<forall>k. rlog (nodes s2 k) = rlog (nodes s1 k)"
      "\<forall>k. cterm (nodes s2 k) = cterm (nodes s1 k) \<or> k \<in> R \<and> cterm (nodes s2 k) = cterm (nodes s1 i)"
      by blast
    have "cterm (nodes s2 k) = cterm (nodes s k) \<or> k \<in> insert j R \<and> cterm (nodes s2 k) = cterm (nodes s i)" for k
      using s2(5) s1(3,5,6) by (metis insertCI)
    with s1 s2 show ?thesis by (intro exI [of _ s2]) auto
  qed
qed


section \<open>A leader of an old term\<close>

text \<open>A leader's heartbeat changes no node and reaches every peer.\<close>

lemma heartbeat_sent:
  assumes "cluster_ok members" "reachable members s" "i \<in> Q" "i \<in> set members"
    "role (nodes s i) = Leader" "leader_state (nodes s i) = Some ls" "k < length (peers (nodes s i))"
  shows "\<exists>s1. alive_run members Q s s1 \<and> nodes s1 = nodes s \<and> set (net s) \<subseteq> set (net s1) \<and>
    (peers (nodes s i) ! k, MAppendEntries (peer_append_entries (nodes s i) (next_index ls ! k))) \<in> set (net s1)"
proof -
  let ?l = "nodes s i"
  have wf: "node_wf ?l" by (rule member_ok [OF assms(1,2,4)])
  obtain r as where h: "handle_heartbeat_timeout ?l = Inr (r, as)"
    using no_panic_heartbeat [OF wf] by (cases "handle_heartbeat_timeout ?l") auto
  note hb = heartbeat_actions [OF h]
  from hb(3) [OF assms(5)] obtain bs where bs: "as = ResetHeartbeatTimer # bs"
    "list_all2 (\<lambda>i a. append_entries_for_peer ?l i = Inr a) [0..<length (peers ?l)] bs" by blast
  have "length (next_index ls) = length (peers ?l)" using wf assms(6) by (simp add: node_wf_defs)
  from append_entries_for_peer_ok [OF assms(7,6) this] list_all2_nthD [OF bs(2), of k] assms(7)
  have "bs ! k = Send (peers ?l ! k) (MAppendEntries (peer_append_entries ?l (next_index ls ! k)))" by simp
  moreover have "k < length bs" using list_all2_lengthD [OF bs(2)] assms(7) by simp
  ultimately have "Send (peers ?l ! k) (MAppendEntries (peer_append_entries ?l (next_index ls ! k))) \<in> set bs"
    by (metis nth_mem)
  moreover have "alive_run members Q s (handled s i r as)"
    by (rule alive_handle [OF assms(3,4), of _ HeartbeatTimeout]) (simp_all add: possible_def h)
  ultimately show ?thesis using hb(1) bs(1) by (intro exI [of _ "handled s i r as"]) simp
qed

text \<open>A reply of a later term makes the leader a follower.\<close>

lemma stale_leader_steps_down:
  assumes "cluster_ok members" "reachable members s" "Q \<subseteq> set members" "i \<in> Q" "j \<in> Q"
    "role (nodes s i) = Leader" "cterm (nodes s i) < cterm (nodes s j)"
  shows "\<exists>s1. alive_run members Q s s1 \<and> (\<forall>k. k \<noteq> i \<longrightarrow> nodes s1 k = nodes s k) \<and>
    nodes s1 i = step_down (nodes s i) (cterm (nodes s j))"
proof -
  have mem: "i \<in> set members" "j \<in> set members" "i \<noteq> j" using assms(3-5,7) by auto
  note oki = member_ok [OF assms(1,2) mem(1)] and okj = member_ok [OF assms(1,2) mem(2)]
  from oki(1) assms(6) obtain ls where ls: "leader_state (nodes s i) = Some ls" by (auto simp: node_wf_defs)
  have "j \<in> set (peers (nodes s i))" using mem oki(3) by simp
  then obtain k where k: "k < length (peers (nodes s i))" "peers (nodes s i) ! k = j"
    by (auto simp: in_set_conv_nth)
  define m where "m = peer_append_entries (nodes s i) (next_index ls ! k)"
  from heartbeat_sent [OF assms(1,2,4) mem(1) assms(6) ls k(1)] obtain s0 where
    s0: "alive_run members Q s s0" "nodes s0 = nodes s" "(j, MAppendEntries m) \<in> set (net s0)"
    using k(2) by (auto simp: m_def)
  have m: "ae_term m < cterm (nodes s j)" "leader_id m = i"
    using assms(7) oki(2) by (simp_all add: m_def peer_append_entries_def)
  then have no: "\<not> acceptable (nodes s j) m" by (auto simp: acceptable_def)
  from append_entries_reject [OF this] obtain f where
    h: "handle_append_entries (nodes s j) m = (f, [append_entries_response f i False])"
    using m(2) by auto
  with append_entries_frame [OF h] m(1) have f: "f = nodes s j" by simp
  define s1 where "s1 = handled s0 j f [append_entries_response f i False]"
  have run1: "alive_run members Q s0 s1" unfolding s1_def
    by (rule alive_handle [OF assms(5) mem(2), of _ "EvMessage (MAppendEntries m)"])
      (use s0(2,3) h no in \<open>simp_all add: possible_def\<close>)
  define a where "a = \<lparr>aer_term = cterm (nodes s j), success = False, aer_from = j, aer_match_index = 0\<rparr>"
  have s1: "nodes s1 = nodes s" "(i, MAppendEntriesResponse a) \<in> set (net s1)"
    using f s0(2) okj(2) by (auto simp: s1_def append_entries_response_def a_def)
  have "raft_step Debug (nodes s1 i) (EvMessage (MAppendEntriesResponse a)) =
      Inr (step_down (nodes s i) (cterm (nodes s j)), [])"
    using assms(7) s1(1) by (simp add: handle_append_entries_response_def a_def)
  from alive_handle [OF assms(4) mem(1) _ this] s1(2)
  have run2: "alive_run members Q s1 (handled s1 i (step_down (nodes s i) (cterm (nodes s j))) [])"
    by (simp add: possible_def)
  show ?thesis
    by (rule exI [of _ "handled s1 i (step_down (nodes s i) (cterm (nodes s j))) []"])
      (use rtranclp_trans [OF s0(1) rtranclp_trans [OF run1 run2]] s1(1) in simp)
qed

section \<open>A majority elects a leader\<close>

lemma up_to_date_total: "up_to_date a b \<or> up_to_date b a"
  by (auto simp: up_to_date_def)

lemma up_to_date_trans: "up_to_date a b \<Longrightarrow> up_to_date b c \<Longrightarrow> up_to_date a c"
  by (auto simp: up_to_date_def)

lemma best_log:
  assumes "finite Q" "Q \<noteq> {}"
  shows "\<exists>i \<in> Q. \<forall>j \<in> Q. up_to_date (f i) (f j)"
  using assms
proof (induction rule: finite_ne_induct)
  case (singleton x)
  show ?case by simp
next
  case (insert x F)
  then obtain i where i: "i \<in> F" "\<forall>j \<in> F. up_to_date (f i) (f j)" by blast
  show ?case
  proof (cases "up_to_date (f x) (f i)")
    case True
    with i show ?thesis by (auto intro: up_to_date_trans)
  next
    case False
    with up_to_date_total i show ?thesis by blast
  qed
qed

lemma up_to_date_request:
  assumes "contiguous 0 (rlog c)" "contiguous 0 (rlog r)"
  shows "candidate_log_up_to_date r (vote_request c) \<longleftrightarrow> up_to_date (rlog c) (rlog r)"
  using unat_last_log_index [OF assms(1)] unat_last_log_index [OF assms(2)]
  by (auto simp: candidate_log_up_to_date_def vote_request_def up_to_date_def last_log_term_last_term
      word_le_nat_alt)

text \<open>A node that does not lead and has the best log of the majority wins an election.\<close>

lemma campaign_wins:
  assumes "cluster_ok members" "reachable members s" "majority members Q" "i \<in> Q"
    "role (nodes s i) \<noteq> Leader" "\<forall>j \<in> Q. up_to_date (rlog (nodes s i)) (rlog (nodes s j))"
    "\<forall>j \<in> Q. unat (cterm (nodes s j)) + 1 < 2 ^ 64" "length (rlog (nodes s i)) + 1 < 2 ^ 64"
  shows "\<exists>s1. alive_run members Q s s1 \<and> role (nodes s1 i) = Leader \<and>
    (\<forall>j \<in> Q. cterm (nodes s1 j) \<le> cterm (nodes s1 i)) \<and>
    (\<forall>k. rlog (nodes s1 k) = rlog (nodes s k))"
proof -
  have mem: "Q \<subseteq> set members" "i \<in> set members" using assms(3,4) by (auto simp: majority_def)
  have fin: "finite Q" using mem(1) finite_subset by blast
  define M where "M = Max ((\<lambda>j. cterm (nodes s j)) ` Q)"
  have le: "cterm (nodes s j) \<le> M" if "j \<in> Q" for j using fin that by (simp add: M_def)
  have "M \<in> (\<lambda>j. cterm (nodes s j)) ` Q" using fin assms(4) unfolding M_def by (intro Max_in) auto
  with assms(7) have "unat M + unat (1 :: u64) < 2 ^ 64" by auto
  from unat_add_no_overflow [OF this] have "M < M + 1" by (simp add: word_less_nat_alt)
  with le have lt: "cterm (nodes s j) < M + 1" if "j \<in> Q" for j using that by (meson le_less_trans)
  from raise_term [OF assms(1,2,4) mem(2) assms(5) lt [OF assms(4)]] obtain s0 where
    s0: "alive_run members Q s s0" "campaigns members i (M + 1) s0" "\<forall>j. j \<noteq> i \<longrightarrow> nodes s0 j = nodes s j"
      "rlog (nodes s0 i) = rlog (nodes s i)" by blast
  note c = s0(2) [unfolded campaigns_def]
  have re: "reachable members s0" by (rule alive_run_reachable [OF s0(1) assms(2)])
  note cont = member_ok(6) [OF assms(1) re]
  have ask: "asked s0 i j" if "j \<in> Q - {i}" for j
  proof -
    have "j \<in> set members - {i}" using that mem(1) by auto
    moreover have "up_to_date (rlog (nodes s0 i)) (rlog (nodes s0 j))" using that s0(3,4) assms(6) by simp
    ultimately show ?thesis
      using c lt that s0(3) up_to_date_request [OF cont [OF mem(2)] cont, of j] mem(1)
      by (auto simp: asked_def)
  qed
  have self: "Q - (Q - {i}) = {i}" using assms(4) by auto
  have "2 \<le> length members" using assms(1) by (simp add: cluster_ok_def)
  then have "card (Q - (Q - {i})) < quorum (nodes s0 i)"
    unfolding self using member_ok(5) [OF assms(1) re mem(2)] by simp
  moreover have "unat (last_log_index (nodes s0 i)) + 1 < 2 ^ 64"
    using unat_last_log_index [OF cont [OF mem(2)]] s0(4) assms(8) by simp
  moreover have "finite (Q - {i})" using fin by simp
  ultimately obtain s1 where s1: "alive_run members Q s0 s1" "role (nodes s1 i) = Leader"
    "cterm (nodes s1 i) = M + 1" "\<forall>k. rlog (nodes s1 k) = rlog (nodes s0 k)"
    "\<forall>k. cterm (nodes s1 k) = cterm (nodes s0 k) \<or> k \<in> Q - {i} \<and> cterm (nodes s1 k) = M + 1"
    using collect_votes [OF assms(1,3,4), of "Q - {i}" s0] re c ask self by auto
  have "cterm (nodes s1 j) \<le> M + 1" if "j \<in> Q" for j
    using s1(3,5) s0(3) lt [OF that] by (cases "j = i") (auto dest!: spec [of _ j])
  moreover have "\<forall>k. rlog (nodes s1 k) = rlog (nodes s k)" using s1(4) s0(3,4) by metis
  ultimately show ?thesis using rtranclp_trans [OF s0(1) s1(1)] s1(2,3) by (intro exI [of _ s1]) simp
qed


lemma elects:
  assumes "cluster_ok members" "reachable members s" "majority members Q"
    "\<forall>j \<in> Q. unat (cterm (nodes s j)) + 1 < 2 ^ 64 \<and> length (rlog (nodes s j)) + 1 < 2 ^ 64"
  shows "\<exists>s1. \<exists>i \<in> Q. alive_run members Q s s1 \<and> role (nodes s1 i) = Leader \<and>
    (\<forall>j \<in> Q. up_to_date (rlog (nodes s i)) (rlog (nodes s j)) \<and> cterm (nodes s1 j) \<le> cterm (nodes s1 i)) \<and>
    (\<forall>k. rlog (nodes s1 k) = rlog (nodes s k))"
proof -
  have Q: "Q \<subseteq> set members" using assms(3) by (simp add: majority_def)
  then have "finite Q" using finite_subset by blast
  with best_log [of Q "\<lambda>j. rlog (nodes s j)"] maj.quorum_nonempty [OF assms(3)] obtain i where
    i: "i \<in> Q" "\<forall>j \<in> Q. up_to_date (rlog (nodes s i)) (rlog (nodes s j))" by blast
  have wins: ?thesis if s0: "alive_run members Q s s0" "role (nodes s0 i) \<noteq> Leader"
    "\<forall>k. rlog (nodes s0 k) = rlog (nodes s k)" "\<forall>j \<in> Q. unat (cterm (nodes s0 j)) + 1 < 2 ^ 64" for s0
  proof -
    have up: "\<forall>j \<in> Q. up_to_date (rlog (nodes s0 i)) (rlog (nodes s0 j))"
      "length (rlog (nodes s0 i)) + 1 < 2 ^ 64" using i assms(4) s0(3) by auto
    from campaign_wins [OF assms(1) alive_run_reachable [OF s0(1) assms(2)] assms(3) i(1) s0(2) up(1) s0(4) up(2)]
    obtain s1 where s1: "alive_run members Q s0 s1" "role (nodes s1 i) = Leader"
      "\<forall>j \<in> Q. cterm (nodes s1 j) \<le> cterm (nodes s1 i)" "\<forall>k. rlog (nodes s1 k) = rlog (nodes s0 k)" by blast
    show ?thesis
      by (rule exI [of _ s1], rule bexI [of _ i])
        (use rtranclp_trans [OF s0(1) s1(1)] s1(2-4) s0(3) i in auto)
  qed
  show ?thesis
  proof (cases "role (nodes s i) = Leader")
    case False
    show ?thesis by (rule wins [of s]) (use False assms(4) in auto)
  next
    case lead: True
    show ?thesis
    proof (cases "\<exists>j \<in> Q. cterm (nodes s i) < cterm (nodes s j)")
      case True
      then obtain j where j: "j \<in> Q" "cterm (nodes s i) < cterm (nodes s j)" by blast
      from stale_leader_steps_down [OF assms(1,2) Q i(1) j(1) lead j(2)] obtain s0 where
        s0: "alive_run members Q s s0" "\<forall>k. k \<noteq> i \<longrightarrow> nodes s0 k = nodes s k"
          "nodes s0 i = step_down (nodes s i) (cterm (nodes s j))" by blast
      show ?thesis
      proof (rule wins [OF s0(1)])
        show "role (nodes s0 i) \<noteq> Leader" using s0(3) by simp
        show "\<forall>k. rlog (nodes s0 k) = rlog (nodes s k)"
          using s0(2,3) step_down_simps(7) by metis
        show "\<forall>k \<in> Q. unat (cterm (nodes s0 k)) + 1 < 2 ^ 64"
          using s0(2,3) assms(4) j(1) step_down_simps(5) by metis
      qed
    next
      case False
      with lead i show ?thesis by (intro exI [of _ s] bexI [of _ i]) (auto simp: not_less)
    qed
  qed
qed

text \<open>C7: a majority can elect a leader. From every reachable state, whatever crashes, losses and
  competing campaigns led to it, the nodes of any majority have a run without crashes, in which
  no other node takes part, that ends with one of them leading in a term that none of them has
  passed; no log changes, and the leader's log is at least as up to date as that of every node of
  the majority. The terms and log lengths must leave room for one more.\<close>

theorem leader_can_be_elected:
  assumes "cluster_ok members" "reachable members s" "majority members Q"
    "\<forall>j \<in> Q. unat (cterm (nodes s j)) + 1 < 2 ^ 64 \<and> length (rlog (nodes s j)) + 1 < 2 ^ 64"
  shows "\<exists>sts s' i. list_all (handled_in Q) sts \<and> sys_run members s sts = Some s' \<and> i \<in> Q \<and>
    role (nodes s' i) = Leader \<and> (\<forall>j \<in> Q. cterm (nodes s' j) \<le> cterm (nodes s' i)) \<and>
    (\<forall>j \<in> Q. up_to_date (rlog (nodes s' i)) (rlog (nodes s' j))) \<and>
    (\<forall>k. rlog (nodes s' k) = rlog (nodes s k))"
proof -
  from elects [OF assms] obtain s1 i where s1: "i \<in> Q" "alive_run members Q s s1" "role (nodes s1 i) = Leader"
    "\<forall>j \<in> Q. up_to_date (rlog (nodes s i)) (rlog (nodes s j)) \<and> cterm (nodes s1 j) \<le> cterm (nodes s1 i)"
    "\<forall>k. rlog (nodes s1 k) = rlog (nodes s k)" by blast
  from alive_run_sys_run [OF s1(2)] obtain sts where
    "list_all (handled_in Q) sts" "sys_run members s sts = Some s1" by blast
  with s1 show ?thesis by (intro exI [of _ sts] exI [of _ s1] exI [of _ i]) simp
qed

text \<open>Nodes 2 and 3 of three elect a new leader when the leader, node 1, is gone.\<close>

theorem leader_can_be_elected_witness:
  "\<exists>s sts s' i. reachable members3 s \<and> role (nodes s 1) = Leader \<and> list_all (handled_in {2, 3}) sts \<and>
     sys_run members3 s sts = Some s' \<and> i \<in> {2, 3} \<and> role (nodes s' i) = Leader"
proof -
  obtain s where s: "sys_run members3 (sys_init members3) one_election = Some s" "role (nodes s 1) = Leader"
    "\<forall>j \<in> {2, 3}. unat (cterm (nodes s j)) + 1 < 2 ^ 64 \<and> length (rlog (nodes s j)) + 1 < 2 ^ 64"
  proof -
    have "\<exists>s. sys_run members3 (sys_init members3) one_election = Some s \<and> role (nodes s 1) = Leader \<and>
      (\<forall>j \<in> {2, 3}. unat (cterm (nodes s j)) + 1 < 2 ^ 64 \<and> length (rlog (nodes s j)) + 1 < 2 ^ 64)"
      by (simp add: members3_def one_election_def run_simps del: handle_Some handled_simps)
    with that show ?thesis by blast
  qed
  have re: "reachable members3 s" by (rule sys_run_reachable [OF reachable.init s(1)])
  have "majority members3 {2, 3}" by (simp add: majority_def members3_def)
  from leader_can_be_elected [OF members3_ok re this s(3)] re s(2) show ?thesis by blast
qed

end
