(* ===== verification/Progress.thy ===== *)
theory Progress
  imports Electability
begin

text \<open>
  Availability, second half: a majority that is up and can talk commits a client's command. Its
  leader appends the command and exchanges heartbeats and replies with the others, one after the
  other, until each holds the leader's log; the leader's commit index then reaches the command,
  and one more round of heartbeats lets the others apply it.
\<close>

section \<open>One exchange in the cluster\<close>

lemma rejected_reply:
  assumes "\<not> acceptable r m" "handle_append_entries r m = (r', as)" "reply_of as = Some a"
  shows "Send (leader_id m) (MAppendEntriesResponse a) \<in> set as"
  using append_entries_reject [OF assms(1)] assms(2,3)
  by (auto simp: reply_of_def append_entries_response_def)

lemma accepted_reply:
  assumes "acceptable r m" "handle_append_entries r m = (r', as)" "reply_of as = Some a"
  shows "Send (leader_id m) (MAppendEntriesResponse a) \<in> set as"
  using append_entries_accept [OF assms(1)] assms(2,3)
  by (auto simp: reply_of_def append_entries_response_def split: prod.splits)

text \<open>The exchange of \<open>LogRepair\<close> is three events of the cluster.\<close>

lemma exchange_alive:
  assumes "cluster_ok members" "reachable members s" "Q \<subseteq> set members" "i \<in> Q" "j \<in> Q"
    "in_sync_with k ls (nodes s i) (nodes s j)" "peers (nodes s i) ! k = j" "j \<noteq> i"
    "exchange k (nodes s i, nodes s j) = Inr (l, f)"
    "\<not> reports_stale_tail (nodes s j) (EvMessage (MAppendEntries (peer_append_entries (nodes s i) (next_index ls ! k))))"
  shows "\<exists>s1. alive_run members Q s s1 \<and> nodes s1 = (nodes s)(i := l, j := f)"
proof -
  let ?m = "peer_append_entries (nodes s i) (next_index ls ! k)"
  have mem: "i \<in> set members" "j \<in> set members" using assms(3-5) by auto
  note sync = assms(6) [unfolded in_sync_with_def]
  have lead: "leader_id ?m = i" using member_ok(2) [OF assms(1,2) mem(1)] by (simp add: peer_append_entries_def)
  from heartbeat_sent [OF assms(1,2,4) mem(1)] sync assms(7) obtain s0 where
    s0: "alive_run members Q s s0" "nodes s0 = nodes s" "(j, MAppendEntries ?m) \<in> set (net s0)" by blast
  obtain f' as where h: "handle_append_entries (nodes s j) ?m = (f', as)" by fastforce
  define s1 where "s1 = handled s0 j f' as"
  have run1: "alive_run members Q s0 s1" unfolding s1_def
    by (rule alive_handle [OF assms(5) mem(2), of _ "EvMessage (MAppendEntries ?m)"])
      (use s0(2,3) h assms(10) in \<open>simp_all add: possible_def\<close>)
  note ex = exchange_eq [OF assms(6) h, symmetric] assms(9)
  show ?thesis
  proof (cases "reply_of as")
    case None
    with ex have "l = nodes s i" "f = f'" by auto
    with s0 rtranclp_trans [OF s0(1) run1] show ?thesis by (intro exI [of _ s1]) (auto simp: s1_def)
  next
    case (Some a)
    with ex have "and_then (handle_append_entries_response Debug (nodes s i) a) (\<lambda>(l', _). Inr (l', f')) = Inr (l, f)"
      by (metis (no_types, lifting) option.simps(5))
    then obtain bs where r: "handle_append_entries_response Debug (nodes s i) a = Inr (l, bs)" "f = f'"
      by (auto simp: and_then_eq_Inr)
    have "Send i (MAppendEntriesResponse a) \<in> set as"
      using rejected_reply [OF _ h Some] accepted_reply [OF _ h Some] lead by metis
    then have a: "(i, MAppendEntriesResponse a) \<in> set (net s1)" by (simp add: s1_def)
    have same: "nodes s1 i = nodes s i" using assms(8) s0(2) by (simp add: s1_def)
    have run2: "alive_run members Q s1 (handled s1 i l bs)"
      by (rule alive_handle [OF assms(4) mem(1), of _ "EvMessage (MAppendEntriesResponse a)"])
        (use a same r(1) in \<open>simp_all add: possible_def\<close>)
    from rtranclp_trans [OF s0(1) rtranclp_trans [OF run1 run2]] s0(2) r(2) assms(8)
    show ?thesis by (intro exI [of _ "handled s1 i l bs"]) (auto simp: s1_def fun_upd_twist)
  qed
qed

section \<open>A leader and its majority\<close>

text \<open>
  The leader \<open>i\<close> of the majority \<open>Q\<close> has the log \<open>L\<close>, whose last entry is of its own term; no
  node of the majority has a later term.
\<close>

definition leads :: "NodeId list \<Rightarrow> NodeId set \<Rightarrow> NodeId \<Rightarrow> Term \<Rightarrow> LogEntry list \<Rightarrow> System \<Rightarrow> bool" where
  "leads members Q i T L s \<longleftrightarrow> truthful members s \<and> role (nodes s i) = Leader \<and>
     cterm (nodes s i) = T \<and> rlog (nodes s i) = L \<and> L \<noteq> [] \<and> entry_term (last L) = T \<and>
     length L < 2 ^ 64 - 1 \<and>
     (\<forall>j \<in> Q. cterm (nodes s j) \<le> T \<and> length (rlog (nodes s j)) < 2 ^ 64 - 1)"

text \<open>No log goes beyond an entry of the leader's term that the leader has last.\<close>

lemma leader_log_longest:
  assumes "cluster_ok members" "truthful members s" "i \<in> set members" "j \<in> set members"
    "role (nodes s i) = Leader" "rlog (nodes s i) \<noteq> []"
    "entry_term (last (rlog (nodes s i))) = cterm (nodes s i)" "cterm (nodes s j) \<le> cterm (nodes s i)"
    "take (length (rlog (nodes s i))) (rlog (nodes s j)) = rlog (nodes s i)"
  shows "rlog (nodes s j) = rlog (nodes s i)"
proof -
  let ?L = "rlog (nodes s i)" and ?l = "rlog (nodes s j)" and ?T = "cterm (nodes s i)"
  from truthful_inv [OF assms(1,2)] obtain H where "history_inv members s H" by (auto simp: run_inv_def)
  then have H: "versions_wf H" "node_logs_ok members s H" "leader_versions members s H"
    by (simp_all add: history_inv_def)
  have tr: "traced H ?l" and le: "\<forall>e \<in> set ?l. entry_term e \<le> ?T"
    using H(2) assms(4,8) unfolding node_logs_ok_def by (meson order.trans)+
  have pre: "prefix ?L ?l" using assms(9) by (metis take_is_prefix)
  have mem: "last ?L \<in> set ?l" using pre assms(6) by (meson last_in_set set_mono_prefix subsetD)
  then have ne: "?l \<noteq> []" by auto
  have "?T \<le> entry_term (last ?l)" using traced_sorted [OF H(1) tr mem] assms(7) by simp
  with le ne have "entry_term (last ?l) = ?T" by (simp add: order.antisym)
  with traced_last [OF tr ne] obtain h where "h \<in> versions H ?T" "prefix ?l h" by auto
  with H(3) assms(3,5) have "prefix ?l ?L" unfolding leader_versions_def by (meson prefix_order.trans)
  with pre show ?thesis by (simp add: prefix_order.antisym)
qed

lemma reachable_next_positive:
  assumes "reachable members s"
  shows "\<forall>i. next_positive (nodes s i)"
  using assms
proof (induction rule: reachable_invariant)
  case init
  show ?case by (simp add: sys_init_def raft_init_def next_positive_def)
next
  case (handled s i ev r as n)
  then show ?case using next_positive_step [of "nodes s i" ev r as] by (simp add: node_step_def)
next
  case (restart s i)
  then show ?case by (simp add: raft_init_def next_positive_def)
qed

lemma leads_in_sync:
  assumes "cluster_ok members" "leads members Q i T L s" "Q \<subseteq> set members" "i \<in> Q" "j \<in> Q" "j \<noteq> i"
  shows "\<exists>k ls. in_sync_with k ls (nodes s i) (nodes s j) \<and> peers (nodes s i) ! k = j"
proof -
  note l = assms(2) [unfolded leads_def]
  then have re: "reachable members s" using truthful_reachable by blast
  have mem: "i \<in> set members" "j \<in> set members" using assms(3-5) by auto
  note oki = member_ok [OF assms(1) re mem(1)] and okj = member_ok [OF assms(1) re mem(2)]
  have "j \<in> set (peers (nodes s i))" using mem assms(6) oki(3) by simp
  then obtain k where k: "k < length (peers (nodes s i))" "peers (nodes s i) ! k = j"
    by (auto simp: in_set_conv_nth)
  from oki(1) l obtain ls where ls: "leader_state (nodes s i) = Some ls"
    "length (next_index ls) = length (peers (nodes s i))" by (auto simp: node_wf_defs)
  then have "1 \<le> next_index ls ! k"
    using reachable_next_positive [OF re] k(1) by (auto simp: next_positive_def)
  moreover obtain F where F: "log_inv members F s" "election_inv members s"
    using reachable_log_inv [OF assms(1) re] by blast
  moreover have "rlog (nodes s i) \<in> F" "rlog (nodes s j) \<in> F"
    using F(1) mem by (simp_all add: log_inv_def logs_in_def)
  moreover from this have "0 < entry_term e" if "e \<in> set (rlog (nodes s j))" for e
    using F that settled_pos [OF F(2)] by (auto simp: log_inv_def versions_ok_def)
  ultimately have "in_sync_with k ls (nodes s i) (nodes s j)"
    using l k ls oki okj assms(5) by (auto simp: in_sync_with_def log_inv_def versions_ok_def)
  with k(2) show ?thesis by blast
qed


section \<open>What an accepted heartbeat commits\<close>

lemma try_advance_applied: "try_advance_commit_index r = (r', as) \<Longrightarrow> rcommit r' \<le> rapplied r'"
  using apply_loop_final
  by (auto simp: try_advance_commit_index_def apply_committed_entries_def Let_def case_prod_beta
      split: if_splits)

text \<open>The follower has taken the leader's log over; what the leader has committed of it, it commits and applies.\<close>

lemma accepted_commits:
  assumes "in_sync_with k ls l f" "acceptable f (peer_append_entries l (next_index ls ! k))"
    "handle_append_entries f (peer_append_entries l (next_index ls ! k)) = (f', as)" "rlog f' = rlog l"
  shows "\<not> stale_tail (peer_append_entries l (next_index ls ! k)) f' \<and>
    (length (rlog l) \<le> unat (rcommit l) \<longrightarrow> length (rlog l) \<le> unat (rcommit f')) \<and> rcommit f' \<le> rapplied f'"
proof -
  let ?m = "peer_append_entries l (next_index ls ! k)"
  note sync = assms(1) [unfolded in_sync_with_def] and st = append_entries_accepted_state [OF assms(2,3)]
  from sync have cont: "contiguous 0 (rlog l)" "contiguous 0 (rlog f)" by simp_all
  have prev: "unat (prev_log_index ?m) \<le> length (rlog l) \<and> entries ?m = drop (unat (prev_log_index ?m)) (rlog l)"
  proof (rule ccontr)
    assume no: "\<not> ?thesis"
    with rest_of_peer_append_entries [OF cont(1), of "next_index ls ! k"]
    have long: "length (rlog l) < unat (prev_log_index ?m)" and "entries ?m = []"
      by (auto simp: rest_of_def Let_def)
    then have "rlog f = rlog l" using st assms(4) by simp
    with long assms(2) log_matches_contiguous [OF cont(2)] show False
      by (cases "prev_log_index ?m = 0") (auto simp: acceptable_def)
  qed
  then have "unat (last_new ?m) = length (rlog l)" using last_new_version [OF cont(1)] by blast
  moreover have "leader_commit ?m = rcommit l" by (simp add: peer_append_entries_def)
  ultimately have "length (rlog l) \<le> unat (rcommit l) \<longrightarrow> length (rlog l) \<le> unat (rcommit f')"
    using st by (auto simp: min_def not_less word_le_nat_alt word_less_nat_alt)
  with prev st assms(4) show ?thesis by (auto simp: stale_tail_def)
qed

lemma quorum_replicated:
  assumes "distinct members" "majority members Q" "i \<in> Q" "peers l = others members i"
    "length ms = length (peers l)"
    "\<forall>j \<in> Q - {i}. \<exists>k < length (peers l). peers l ! k = j \<and> n \<le> ms ! k"
  shows "quorum l \<le> replicated ms n"
proof -
  have mem: "Q \<subseteq> set members" "i \<in> set members" using assms(2,3) by (auto simp: majority_def)
  then have fin: "finite Q" using finite_subset by blast
  let ?K = "{k. k < length ms \<and> n \<le> ms ! k}"
  have "Q - {i} \<subseteq> (\<lambda>k. peers l ! k) ` ?K" using assms(5,6) by force
  then have "card (Q - {i}) \<le> card ((\<lambda>k. peers l ! k) ` ?K)" by (intro card_mono) auto
  also have "\<dots> \<le> card ?K" by (intro card_image_le) simp
  finally have "card Q \<le> 1 + card ?K" using assms(3) fin by (simp add: card_Diff_singleton)
  with quorum_is_majority [OF assms(1) mem(2) assms(4)] assms(2) show ?thesis
    by (simp add: replicated_def length_filter_conv_card majority_def)
qed


section \<open>One follower catches up\<close>

definition caught_up :: "NodeId \<Rightarrow> NodeId \<Rightarrow> nat \<Rightarrow> System \<Rightarrow> bool" where
  "caught_up i j n s \<longleftrightarrow> (\<exists>ls k. leader_state (nodes s i) = Some ls \<and> k < length (peers (nodes s i)) \<and>
     peers (nodes s i) ! k = j \<and> n \<le> unat (match_index ls ! k))"

definition all_applied :: "Raft \<Rightarrow> LogEntry list \<Rightarrow> bool" where
  "all_applied r L \<longleftrightarrow> rlog r = L \<and> length L \<le> unat (rcommit r) \<and> rcommit r \<le> rapplied r"

text \<open>
  What the leader and one follower gain by their exchanges: the follower's log is the leader's and
  the leader knows; when the leader has committed it, the follower applies it; and when every
  follower of the majority has caught up, the leader commits and applies it.
\<close>

definition gains :: "NodeId set \<Rightarrow> NodeId \<Rightarrow> NodeId \<Rightarrow> LogEntry list \<Rightarrow> System \<Rightarrow> System \<Rightarrow> bool" where
  "gains Q i j L s s1 \<longleftrightarrow> (\<forall>k. k \<noteq> i \<longrightarrow> k \<noteq> j \<longrightarrow> nodes s1 k = nodes s k) \<and>
     caught_up i j (length L) s1 \<and> (\<forall>k. caught_up i k (length L) s \<longrightarrow> caught_up i k (length L) s1) \<and>
     (length L \<le> unat (rcommit (nodes s i)) \<longrightarrow> all_applied (nodes s1 j) L) \<and>
     ((\<forall>k \<in> Q - {i}. caught_up i k (length L) s1) \<longrightarrow> all_applied (nodes s1 i) L)"

lemma leader_commits_own:
  assumes "try_advance_commit_index (l\<lparr>leader_state := Some ls\<rparr>) = (l', bs)" "contiguous 0 (rlog l)"
    "rlog l = L" "L \<noteq> []" "entry_term (last L) = cterm l" "quorum l \<le> replicated (match_index ls) (index (last L))"
  shows "all_applied l' L"
proof -
  have q: "quorum (l\<lparr>leader_state := Some ls\<rparr>) = quorum l" by (simp add: quorum_def)
  have "index (last L) \<le> rcommit l'"
    by (rule commit_reaches [OF _ _ assms(1)]) (use assms(2-6) q in auto)
  moreover have "unat (index (last L)) = length L" using contiguous_last assms(2-4) by fastforce
  ultimately have "length L \<le> unat (rcommit l')" by (simp add: word_le_nat_alt)
  with try_advance_frame [OF assms(1)] try_advance_applied [OF assms(1)] assms(3) show ?thesis
    by (simp add: all_applied_def)
qed

text \<open>The last exchange, which the follower accepts.\<close>

lemma catch_up_last:
  assumes "cluster_ok members" "majority members Q" "i \<in> Q" "j \<in> Q" "j \<noteq> i" "leads members Q i T L s"
    "in_sync_with k ls (nodes s i) (nodes s j)" "peers (nodes s i) ! k = j"
    "acceptable (nodes s j) (peer_append_entries (nodes s i) (next_index ls ! k))"
  shows "\<exists>s1. alive_run members Q s s1 \<and> leads members Q i T L s1 \<and> gains Q i j L s s1"
proof -
  let ?l = "nodes s i" and ?f = "nodes s j" and ?m = "peer_append_entries (nodes s i) (next_index ls ! k)"
  note l = assms(6) [unfolded leads_def] and sync = assms(7) [unfolded in_sync_with_def]
  have Q: "Q \<subseteq> set members" using assms(2) by (simp add: majority_def)
  have mem: "i \<in> set members" "j \<in> set members" using Q assms(3,4) by auto
  have re: "reachable members s" using l truthful_reachable by blast
  note oki = member_ok [OF assms(1) re mem(1)]
  obtain f' as where h: "handle_append_entries ?f ?m = (f', as)" by fastforce
  from exchange_accepted_effect [OF assms(7,9) h] obtain l' a bs where x:
    "exchange k (?l, ?f) = Inr (l', f')" "success a" "unat (aer_match_index a) = length (rlog f')"
    "rlog f' = (if take (length (rlog ?l)) (rlog ?f) = rlog ?l then rlog ?f else rlog ?l)" "cterm f' = T"
    "try_advance_commit_index (?l\<lparr>leader_state := Some (after_reply ls k a)\<rparr>) = (l', bs)"
    using l by blast
  have log: "rlog f' = L"
    using x(4) leader_log_longest [OF assms(1) _ mem] l assms(4) by auto
  from accepted_commits [OF assms(7,9) h] log l have f': "\<not> stale_tail ?m f'"
    "length L \<le> unat (rcommit ?l) \<longrightarrow> all_applied f' L" by (auto simp: all_applied_def)
  from exchange_alive [OF assms(1) re Q assms(3,4,7,8,5) x(1)] f'(1) h obtain s1 where
    s1: "alive_run members Q s s1" "nodes s1 = (nodes s)(i := l', j := f')" by auto
  note fr = try_advance_frame [OF x(6)]
  have at: "nodes s1 i = l'" "nodes s1 j = f'" using s1(2) assms(5) by simp_all
  have lead: "leads members Q i T L s1"
    using l alive_run_truthful [OF s1(1)] s1(2) fr log x(5) assms(5) by (auto simp: leads_def)
  have len: "k < length (match_index ls)" using sync by (auto simp: node_wf_defs)
  have ls': "leader_state l' = Some (after_reply ls k a)" "peers l' = peers ?l" using fr by simp_all
  have more: "caught_up i x (length L) s1" if "caught_up i x (length L) s" for x
    using that after_reply_match(2) [OF len] ls' at(1) sync
    by (auto simp: caught_up_def word_le_nat_alt intro: order.trans)
  have caught: "caught_up i j (length L) s1"
    using after_reply_match(1) [OF len x(2)] x(3) log ls' at(1) sync assms(8)
    by (auto simp: caught_up_def word_le_nat_alt)
  have "all_applied l' L" if all: "\<forall>x \<in> Q - {i}. caught_up i x (length L) s1"
  proof (rule leader_commits_own [OF x(6)])
    show "contiguous 0 (rlog ?l)" "rlog ?l = L" "L \<noteq> []" "entry_term (last L) = cterm ?l"
      using oki l by simp_all
    then have idx: "unat (index (last L)) = length L" using contiguous_last by fastforce
    show "quorum ?l \<le> replicated (match_index (after_reply ls k a)) (index (last L))"
    proof (rule quorum_replicated [OF _ assms(2,3) oki(3)])
      show "distinct members" using assms(1) by (simp add: cluster_ok_def)
      show "length (match_index (after_reply ls k a)) = length (peers ?l)"
        using after_reply_match(3) [OF len] sync by (auto simp: node_wf_defs)
      show "\<forall>x \<in> Q - {i}. \<exists>k' < length (peers ?l). peers ?l ! k' = x \<and>
          index (last L) \<le> match_index (after_reply ls k a) ! k'"
        using all ls' at(1) idx by (auto simp: caught_up_def word_le_nat_alt)
    qed
  qed
  with s1 lead more caught f'(2) at show ?thesis
    by (intro exI [of _ s1]) (simp add: gains_def)
qed

text \<open>All exchanges: each rejected one lowers \<open>next_index\<close> by one.\<close>

lemma catch_up:
  assumes "cluster_ok members" "majority members Q" "i \<in> Q" "j \<in> Q" "j \<noteq> i" "leads members Q i T L s"
  shows "\<exists>s1. alive_run members Q s s1 \<and> leads members Q i T L s1 \<and> gains Q i j L s s1"
proof -
  have Q: "Q \<subseteq> set members" using assms(2) by (simp add: majority_def)
  from leads_in_sync [OF assms(1,6) Q assms(3-5)] obtain k ls where
    "in_sync_with k ls (nodes s i) (nodes s j)" "peers (nodes s i) ! k = j" by blast
  then show ?thesis using assms(6)
  proof (induction "unat (next_index ls ! k)" arbitrary: s ls rule: less_induct)
    case less
    let ?l = "nodes s i" and ?f = "nodes s j"
    note l = less(4) [unfolded leads_def] and sync = less(2) [unfolded in_sync_with_def]
    have re: "reachable members s" using l truthful_reachable by blast
    show ?case
    proof (cases "acceptable ?f (peer_append_entries ?l (next_index ls ! k))")
      case True
      from catch_up_last [OF assms(1-5) less(4,2,3) True] show ?thesis .
    next
      case False
      from exchange_rejected [OF less(2) False] obtain l' f' ls' where x:
        "exchange k (?l, ?f) = Inr (l', f')" "in_sync_with k ls' l' f'" "rlog l' = rlog ?l"
        "next_index ls' ! k + 1 = next_index ls ! k" "match_index ls' = match_index ls"
        "persistent l' = persistent ?l" "volatile l' = volatile ?l" "rlog f' = rlog ?f" by blast
      from exchange_alive [OF assms(1) re Q assms(3,4) less(2,3) assms(5) x(1)] False obtain s1 where
        s1: "alive_run members Q s s1" "nodes s1 = (nodes s)(i := l', j := f')" by auto
      have at: "nodes s1 i = l'" "nodes s1 j = f'" using s1(2) assms(5) by simp_all
      have peers: "peers l' = peers ?l"
        using alive_run_reachable [OF s1(1) re] re member_ok(3) [OF assms(1)] Q assms(3) at(1) by (metis subsetD)
      have lead: "leads members Q i T L s1"
        using l alive_run_truthful [OF s1(1)] s1(2) x(2,6,8) assms(5) by (auto simp: leads_def in_sync_with_def)
      have nx: "1 \<le> next_index ls' ! k" using x(2) by (simp add: in_sync_with_def)
      have "unat (next_index ls' ! k) < unat (next_index ls ! k)"
      proof -
        have "next_index ls ! k \<noteq> 0" using sync by auto
        moreover have "next_index ls' ! k = next_index ls ! k - 1" using x(4) by (metis add_diff_cancel_right')
        ultimately show ?thesis using sync by (simp add: unat_sub unat_gt_0)
      qed
      from less(1) [OF this _ _ lead] x(2) at peers less(3) obtain s2 where s2:
        "alive_run members Q s1 s2" "leads members Q i T L s2" "gains Q i j L s1 s2" by auto
      have same: "caught_up i x (length L) s1" if "caught_up i x (length L) s" for x
        using that x(2,5) at(1) peers sync by (auto simp: caught_up_def in_sync_with_def)
      have "gains Q i j L s s2"
        using s2(3) s1(2) at same x(7) by (auto simp: gains_def)
      with rtranclp_trans [OF s1(1) s2(1)] s2(2) show ?thesis by blast
    qed
  qed
qed


section \<open>The majority applies the command\<close>

definition ready :: "NodeId set \<Rightarrow> NodeId \<Rightarrow> LogEntry list \<Rightarrow> System \<Rightarrow> bool" where
  "ready Q i L s \<longleftrightarrow> (\<forall>k \<in> Q - {i}. caught_up i k (length L) s) \<and> all_applied (nodes s i) L"

lemma catch_up_all:
  assumes "cluster_ok members" "majority members Q" "i \<in> Q" "finite R"
  shows "R \<subseteq> Q - {i} \<Longrightarrow> leads members Q i T L s \<Longrightarrow>
    \<exists>s1. alive_run members Q s s1 \<and> leads members Q i T L s1 \<and> (\<forall>j \<in> R. caught_up i j (length L) s1) \<and>
      (ready Q i L s \<longrightarrow> ready Q i L s1 \<and> (\<forall>j \<in> R. all_applied (nodes s1 j) L))"
  using assms(4)
proof (induction R arbitrary: s)
  case empty
  then show ?case by (intro exI [of _ s]) simp
next
  case (insert j R)
  then have "R \<subseteq> Q - {i}" by simp
  from insert(3) [OF this insert(5)] obtain s1 where s1: "alive_run members Q s s1" "leads members Q i T L s1"
    "\<forall>j \<in> R. caught_up i j (length L) s1"
    "ready Q i L s \<longrightarrow> ready Q i L s1 \<and> (\<forall>j \<in> R. all_applied (nodes s1 j) L)" by blast
  have j: "j \<in> Q" "j \<noteq> i" using insert(4) by auto
  from catch_up [OF assms(1-3) j s1(2)] obtain s2 where s2: "alive_run members Q s1 s2"
    "leads members Q i T L s2" "gains Q i j L s1 s2" by blast
  note g = s2(3) [unfolded gains_def]
  have "ready Q i L s2 \<and> (\<forall>k \<in> insert j R. all_applied (nodes s2 k) L)" if "ready Q i L s"
  proof
    from that s1(4) have r: "ready Q i L s1" "\<forall>k \<in> R. all_applied (nodes s1 k) L" by simp_all
    then show "ready Q i L s2" using g by (simp add: ready_def)
    have "all_applied (nodes s2 j) L" using r(1) g by (simp add: ready_def all_applied_def)
    moreover have "all_applied (nodes s2 k) L" if "k \<in> R" for k
      using that r(2) g insert(2,4) by (metis Diff_iff insertCI singletonI subsetD)
    ultimately show "\<forall>k \<in> insert j R. all_applied (nodes s2 k) L" by blast
  qed
  with rtranclp_trans [OF s1(1) s2(1)] s2(2) g s1(3) show ?case by (intro exI [of _ s2]) auto
qed

text \<open>Two rounds: in the first every node catches up and the leader commits, in the second all apply.\<close>

lemma majority_applies:
  assumes "cluster_ok members" "majority members Q" "i \<in> Q" "leads members Q i T L s"
  shows "\<exists>s1. alive_run members Q s s1 \<and> leads members Q i T L s1 \<and> (\<forall>j \<in> Q. apps s1 j = map command L)"
proof -
  have Q: "Q \<subseteq> set members" using assms(2) by (simp add: majority_def)
  then have fin: "finite (Q - {i})" using finite_subset by blast
  have "2 \<le> length members" using assms(1) by (simp add: cluster_ok_def)
  then have "1 \<le> length members div 2" by linarith
  then have "2 \<le> card Q" using assms(2) by (simp add: majority_def)
  then have "Q \<noteq> {i}" by auto
  then obtain j where j: "j \<in> Q" "j \<noteq> i" using assms(3) by blast
  from catch_up_all [OF assms(1-3) fin order.refl assms(4)] obtain s1 where
    s1: "alive_run members Q s s1" "leads members Q i T L s1" "\<forall>j \<in> Q - {i}. caught_up i j (length L) s1" by blast
  from catch_up [OF assms(1-3) j s1(2)] obtain s2 where
    s2: "alive_run members Q s1 s2" "leads members Q i T L s2" "gains Q i j L s1 s2" by blast
  have "ready Q i L s2" using s1(3) s2(3) by (simp add: gains_def ready_def)
  with catch_up_all [OF assms(1-3) fin order.refl s2(2)] obtain s3 where
    s3: "alive_run members Q s2 s3" "leads members Q i T L s3" "ready Q i L s3"
      "\<forall>j \<in> Q - {i}. all_applied (nodes s3 j) L" by blast
  then have all: "all_applied (nodes s3 k) L" if "k \<in> Q" for k
    using that by (cases "k = i") (auto simp: ready_def)
  have "apps_ok members s3" using s3(2) truthful_inv [OF assms(1)] by (auto simp: leads_def)
  then have "apps s3 k = map command L" if "k \<in> Q" for k
    using all [OF that] that Q by (auto simp: apps_ok_def all_applied_def word_le_nat_alt)
  with rtranclp_trans [OF s1(1) rtranclp_trans [OF s2(1) s3(1)]] s3(2) show ?thesis by blast
qed

text \<open>The client's request at the leader.\<close>

lemma request_leads:
  assumes "cluster_ok members" "truthful members s" "majority members Q" "i \<in> Q" "role (nodes s i) = Leader"
    "\<forall>j \<in> Q. cterm (nodes s j) \<le> cterm (nodes s i) \<and> length (rlog (nodes s j)) + 2 < 2 ^ 64"
  shows "\<exists>s1 e. alive_run members Q s s1 \<and> command e = c \<and>
    leads members Q i (cterm (nodes s i)) (rlog (nodes s i) @ [e]) s1"
proof -
  have mem: "i \<in> set members" using assms(3,4) by (auto simp: majority_def)
  note oki = member_ok [OF assms(1) truthful_reachable [OF assms(2)] mem]
  have "unat (last_log_index (nodes s i)) + 1 < 2 ^ 64"
    using unat_last_log_index [OF oki(6)] assms(4,6) by auto
  then obtain r as where h: "handle_client_request Debug (nodes s i) c = Inr (r, as)"
    using assms(5) oki(4) by (simp add: handle_client_request_def add_u64_def Let_def)
  from client_request_frame [OF h] assms(5) obtain n where n:
    "rlog r = rlog (nodes s i) @ [\<lparr>entry_term = cterm (nodes s i), index = n, command = c\<rparr>]"
    "role r = Leader" "cterm r = cterm (nodes s i)" by auto
  then obtain e where e: "command e = c" "entry_term e = cterm (nodes s i)"
    "rlog r = rlog (nodes s i) @ [e]" "role r = Leader" "cterm r = cterm (nodes s i)"
    by (metis LogEntry.select_convs(1,3))
  have run: "alive_run members Q s (handled s i r as)"
    by (rule alive_handle [OF assms(4) mem, of _ "ClientRequest c"]) (simp_all add: possible_def h)
  have "leads members Q i (cterm (nodes s i)) (rlog (nodes s i) @ [e]) (handled s i r as)"
    using alive_run_truthful [OF run assms(2)] e assms(4,6) by (auto simp: leads_def)
  with run e(1) show ?thesis by blast
qed

text \<open>C6: a majority can commit a command. From every state of a truthful run, whatever crashes and
  losses led to it, the nodes of any majority have a run without crashes, in which no other node
  takes part, that ends with one of them leading and the state machine of each of them having
  received the same commands: those of the log of one of them as it was at the start, one that
  is at least as up to date as the others', and then the client's command. The terms and log
  lengths must leave room for one more term and two more entries.\<close>

theorem command_can_be_committed:
  assumes "cluster_ok members" "truthful members s" "majority members Q"
    "\<forall>j \<in> Q. unat (cterm (nodes s j)) + 1 < 2 ^ 64 \<and> length (rlog (nodes s j)) + 2 < 2 ^ 64"
  shows "\<exists>sts s' i. list_all (handled_in Q) sts \<and> sys_run members s sts = Some s' \<and> i \<in> Q \<and>
    role (nodes s' i) = Leader \<and> (\<forall>j \<in> Q. up_to_date (rlog (nodes s i)) (rlog (nodes s j))) \<and>
    (\<forall>j \<in> Q. apps s' j = map command (rlog (nodes s i)) @ [c])"
proof -
  have "\<forall>j \<in> Q. unat (cterm (nodes s j)) + 1 < 2 ^ 64 \<and> length (rlog (nodes s j)) + 1 < 2 ^ 64"
    using assms(4) by auto
  from elects [OF assms(1) truthful_reachable [OF assms(2)] assms(3) this] obtain s1 i where
    s1: "i \<in> Q" "alive_run members Q s s1" "role (nodes s1 i) = Leader"
      "\<forall>j \<in> Q. up_to_date (rlog (nodes s i)) (rlog (nodes s j)) \<and> cterm (nodes s1 j) \<le> cterm (nodes s1 i)"
      "\<forall>k. rlog (nodes s1 k) = rlog (nodes s k)" by blast
  have "\<forall>j \<in> Q. cterm (nodes s1 j) \<le> cterm (nodes s1 i) \<and> length (rlog (nodes s1 j)) + 2 < 2 ^ 64"
    using s1(4,5) assms(4) by auto
  from request_leads [OF assms(1) alive_run_truthful [OF s1(2) assms(2)] assms(3) s1(1,3) this] s1(5)
  obtain s2 e T where s2: "alive_run members Q s1 s2" "command e = c" "leads members Q i T (rlog (nodes s i) @ [e]) s2"
    by metis
  from majority_applies [OF assms(1,3) s1(1) s2(3)] obtain s3 where
    s3: "alive_run members Q s2 s3" "leads members Q i T (rlog (nodes s i) @ [e]) s3"
      "\<forall>j \<in> Q. apps s3 j = map command (rlog (nodes s i) @ [e])" by blast
  from alive_run_sys_run [OF rtranclp_trans [OF s1(2) rtranclp_trans [OF s2(1) s3(1)]]] obtain sts where
    "list_all (handled_in Q) sts" "sys_run members s sts = Some s3" by blast
  with s1(1,4) s2(2) s3(2,3) show ?thesis
    by (intro exI [of _ sts] exI [of _ s3] exI [of _ i]) (auto simp: leads_def)
qed

text \<open>
  Node 1 leads and is lost with its only entry; nodes 2 and 3 commit the next command.
\<close>

theorem command_can_be_committed_witness:
  "\<exists>s sts s' i. truthful members3 s \<and> role (nodes s 1) = Leader \<and> rlog (nodes s 1) \<noteq> [] \<and>
     list_all (handled_in {2, 3}) sts \<and> sys_run members3 s sts = Some s' \<and> role (nodes s' i) = Leader \<and>
     apps s' 2 = [command_set ''x'' ''2''] \<and> apps s' 3 = [command_set ''x'' ''2'']"
proof -
  let ?run = "one_election @ [Handle 1 (ClientRequest (command_set ''a'' ''1''))]"
  obtain s where s: "sys_run members3 (sys_init members3) ?run = Some s"
    "truthful_run members3 (sys_init members3) ?run" "role (nodes s 1) = Leader" "rlog (nodes s 1) \<noteq> []"
    "\<forall>j \<in> {2, 3}. unat (cterm (nodes s j)) + 1 < 2 ^ 64 \<and> length (rlog (nodes s j)) + 2 < 2 ^ 64"
    "\<forall>j \<in> {2, 3}. rlog (nodes s j) = []"
  proof -
    have "\<exists>s. sys_run members3 (sys_init members3) ?run = Some s \<and>
      truthful_run members3 (sys_init members3) ?run \<and> role (nodes s 1) = Leader \<and> rlog (nodes s 1) \<noteq> [] \<and>
      (\<forall>j \<in> {2, 3}. unat (cterm (nodes s j)) + 1 < 2 ^ 64 \<and> length (rlog (nodes s j)) + 2 < 2 ^ 64) \<and>
      (\<forall>j \<in> {2, 3}. rlog (nodes s j) = [])"
      by (simp add: members3_def one_election_def run_simps del: handle_Some handled_simps)
    with that show ?thesis by blast
  qed
  have tr: "truthful members3 s" by (rule truthful_run_truthful [OF truthful.init s(1,2)])
  have maj: "majority members3 {2, 3}" by (simp add: majority_def members3_def)
  from command_can_be_committed [OF members3_ok tr maj s(5), of "command_set ''x'' ''2''"] obtain sts s' i where
    "list_all (handled_in {2, 3}) sts" "sys_run members3 s sts = Some s'" "i \<in> {2, 3}" "role (nodes s' i) = Leader"
    "\<forall>j \<in> {2, 3}. apps s' j = map command (rlog (nodes s i)) @ [command_set ''x'' ''2'']" by blast
  moreover from this have "rlog (nodes s i) = []" using s(6) by blast
  ultimately show ?thesis using tr s(3,4) by auto
qed

end
