(* ===== verification/CommitSafety.thy ===== *)
theory CommitSafety
  imports TruthfulRuns
begin

text \<open>
  State machine safety fails. A follower answers a successful \<open>AppendEntries\<close> with the index of
  its own last entry (\<open>append_entries_response\<close>), also when that entry lies beyond what the
  leader sent and does not match the leader's log. The leader records it as \<open>match_index\<close> and
  counts the follower as holding entries that it appends later at those indices, so it
  commits entries that no majority holds. A leader elected without them commits others.
\<close>

section \<open>The reply claims more than was matched\<close>

definition entry_a :: LogEntry where
  "entry_a = \<lparr>entry_term = 1, index = 1, command = command_set ''a'' ''1''\<rparr>"

definition entry_c :: LogEntry where
  "entry_c = \<lparr>entry_term = 3, index = 2, command = command_set ''c'' ''3''\<rparr>"

definition command_x :: Command where
  "command_x = command_set ''x'' ''2''"

text \<open>
  Node 2 leads term 1 and appends \<open>a\<close> without replicating it; node 1 is elected in term 2 with
  an empty log, and its empty heartbeat makes node 2 report index 1 as matched.
\<close>

definition stale_suffix_run :: "Step list" where
  "stale_suffix_run =
     [Handle 2 ElectionTimeout,
      Handle 3 (EvMessage (MRequestVote \<lparr>rv_term = 1, candidate_id = 2,
        rv_last_log_index = 0, rv_last_log_term = 0\<rparr>)),
      Handle 2 (EvMessage (MRequestVoteResponse \<lparr>rvr_term = 1, vote_granted = True, vote_from = 3\<rparr>)),
      Handle 2 (ClientRequest (command entry_a)),
      Handle 1 ElectionTimeout, Handle 1 ElectionTimeout,
      Handle 3 (EvMessage (MRequestVote \<lparr>rv_term = 2, candidate_id = 1,
        rv_last_log_index = 0, rv_last_log_term = 0\<rparr>)),
      Handle 1 (EvMessage (MRequestVoteResponse \<lparr>rvr_term = 2, vote_granted = True, vote_from = 3\<rparr>)),
      Handle 1 HeartbeatTimeout,
      Handle 2 (EvMessage (MAppendEntries \<lparr>ae_term = 2, leader_id = 1, prev_log_index = 0,
        prev_log_term = 0, entries = [], leader_commit = 0\<rparr>)),
      Handle 1 (EvMessage (MAppendEntriesResponse \<lparr>aer_term = 2, success = True, aer_from = 2,
        aer_match_index = 1\<rparr>))]"

text \<open>
  Node 1 appends \<open>x\<close> at index 1 and commits it alone, on the reply of node 3 to the empty
  heartbeat.
\<close>

definition early_commit_run :: "Step list" where
  "early_commit_run =
     [Handle 3 (EvMessage (MAppendEntries \<lparr>ae_term = 2, leader_id = 1, prev_log_index = 0,
        prev_log_term = 0, entries = [], leader_commit = 0\<rparr>)),
      Handle 1 (ClientRequest command_x),
      Handle 1 (EvMessage (MAppendEntriesResponse \<lparr>aer_term = 2, success = True, aer_from = 3,
        aer_match_index = 0\<rparr>))]"

text \<open>Node 2, elected in term 3 with the vote of node 3, commits \<open>a\<close> at index 1.\<close>

definition second_commit_run :: "Step list" where
  "second_commit_run =
     [Handle 2 ElectionTimeout,
      Handle 3 (EvMessage (MRequestVote \<lparr>rv_term = 3, candidate_id = 2,
        rv_last_log_index = 1, rv_last_log_term = 1\<rparr>)),
      Handle 2 (EvMessage (MRequestVoteResponse \<lparr>rvr_term = 3, vote_granted = True, vote_from = 3\<rparr>)),
      Handle 2 (ClientRequest (command entry_c)),
      Handle 2 HeartbeatTimeout,
      Handle 3 (EvMessage (MAppendEntries \<lparr>ae_term = 3, leader_id = 2, prev_log_index = 1,
        prev_log_term = 1, entries = [entry_c], leader_commit = 0\<rparr>)),
      Handle 2 (EvMessage (MAppendEntriesResponse \<lparr>aer_term = 3, success = False, aer_from = 3,
        aer_match_index = 0\<rparr>)),
      Handle 2 HeartbeatTimeout,
      Handle 3 (EvMessage (MAppendEntries \<lparr>ae_term = 3, leader_id = 2, prev_log_index = 0,
        prev_log_term = 0, entries = [entry_a, entry_c], leader_commit = 0\<rparr>)),
      Handle 2 (EvMessage (MAppendEntriesResponse \<lparr>aer_term = 3, success = True, aer_from = 3,
        aer_match_index = 2\<rparr>))]"

text \<open>A run without faults: nodes only handle events, and no message is handled twice.\<close>

fun delivers :: "Step \<Rightarrow> bool" where
  "delivers (Handle _ (EvMessage _)) = True"
| "delivers _ = False"

fun handles_event :: "Step \<Rightarrow> bool" where
  "handles_event (Handle _ _) = True"
| "handles_event _ = False"

definition fault_free :: "Step list \<Rightarrow> bool" where
  "fault_free sts \<longleftrightarrow> list_all handles_event sts \<and> distinct (filter delivers sts)"

text \<open>The run up to the reply of node 2 to the empty heartbeat, that step, and the rest.\<close>

definition before_overclaim :: "Step list" where
  "before_overclaim = take 9 stale_suffix_run"

definition overclaim :: Step where
  "overclaim = stale_suffix_run ! 9"

definition after_overclaim :: "Step list" where
  "after_overclaim = drop 10 stale_suffix_run @ early_commit_run @ second_commit_run"

lemmas unsafe_run_defs = before_overclaim_def overclaim_def after_overclaim_def stale_suffix_run_def early_commit_run_def
  second_commit_run_def entry_a_def entry_c_def

lemma unsafe_run_fault_free: "fault_free (before_overclaim @ overclaim # after_overclaim)"
  by (simp add: fault_free_def unsafe_run_defs)

lemma unsafe_run:
  "\<exists>s1 s2 s. sys_run members3 (sys_init members3) before_overclaim = Some s1 \<and>
     truthful_run members3 (sys_init members3) before_overclaim \<and>
     sys_step members3 s1 overclaim = Some s2 \<and> \<not> truthful_step s1 overclaim \<and>
     sys_run members3 s2 after_overclaim = Some s \<and> truthful_run members3 s2 after_overclaim \<and>
     apps s 1 = [command_x] \<and> apps s 2 = [command entry_a, command entry_c]"
  by (simp add: members3_def unsafe_run_defs acceptable_def stale_tail_def run_simps del: handle_Some handled_simps)


text \<open>An acceptable \<open>AppendEntries\<close> without entries leaves the log of the receiver as it is, and
  the success reply reports the receiver's own last index as the match index, however far that
  lies beyond the previous entry that was compared.\<close>

theorem heartbeat_reply_overclaims:
  assumes "acceptable r m" "entries m = []" "handle_append_entries r m = (r', as)"
  shows "rlog r' = rlog r \<and>
    Send (leader_id m) (MAppendEntriesResponse \<lparr>aer_term = ae_term m, success = True,
      aer_from = raft_id r, aer_match_index = last_log_index r\<rparr>) \<in> set as"
proof -
  have st: "persistent r' = persistent (ae_accepted r m)" "raft_id r' = raft_id r"
    using append_entries_accepted_state [OF assms(1,3)] by simp_all
  then have log: "rlog r' = rlog r" "cterm r' = ae_term m"
    using assms(2) cterm_ae_accepted [OF assms(1)] by simp_all
  have "append_entries_response r' (leader_id m) True \<in> set as"
    using assms(3) append_entries_accept [OF assms(1)] by (auto split: prod.splits)
  with log st(2) last_log_index_cong [OF log(1)] show ?thesis
    by (simp add: append_entries_response_def)
qed

theorem heartbeat_reply_overclaims_witness:
  "\<exists>r m r' as. acceptable r m \<and> entries m = [] \<and> prev_log_index m = 0 \<and>
     handle_append_entries r m = (r', as) \<and>
     Send 1 (MAppendEntriesResponse \<lparr>aer_term = 2, success = True, aer_from = 2,
       aer_match_index = 3\<rparr>) \<in> set as"
proof -
  define m :: AppendEntries where "m = \<lparr>ae_term = 2, leader_id = 1, prev_log_index = 0,
    prev_log_term = 0, entries = [], leader_commit = 0\<rparr>"
  obtain r' as where h: "handle_append_entries sample_follower m = (r', as)" by fastforce
  have acc: "acceptable sample_follower m" by (simp add: m_def acceptable_def log_matches_def)
  have es: "entries m = []" by (simp add: m_def)
  have last: "last_log_index sample_follower = 3" by (simp add: last_log_index_def sample_entry_def)
  have m: "prev_log_index m = 0" "leader_id m = 1" "ae_term m = 2" by (simp_all add: m_def)
  show ?thesis using heartbeat_reply_overclaims [OF acc es h] acc es h m last
    by (intro exI [of _ sample_follower] exI [of _ m] exI [of _ r'] exI [of _ as]) simp
qed

section \<open>Two nodes apply different commands at the same place\<close>

text \<open>C5: state machine safety does not hold of the cluster, and the stale-tail reports are to blame. A run of three
  nodes in which no node crashes and no message is handled twice, and in which a single reply reports a
  stale tail, reaches a state in which node 1 has applied \<open>x\<close> as its first command and node 2 has
  applied \<open>a\<close>. Every other step of it is truthful, and runs of truthful steps only are safe (theory
  \<open>StateMachineSafety\<close>).\<close>

theorem state_machine_safety_fails:
  "\<exists>xs st ys s1 s2 s. fault_free (xs @ st # ys) \<and>
     sys_run members3 (sys_init members3) xs = Some s1 \<and> truthful_run members3 (sys_init members3) xs \<and>
     sys_step members3 s1 st = Some s2 \<and> \<not> truthful_step s1 st \<and>
     sys_run members3 s2 ys = Some s \<and> truthful_run members3 s2 ys \<and>
     apps s 1 = [command_x] \<and> apps s 2 = [command entry_a, command entry_c] \<and> command_x \<noteq> command entry_a"
proof -
  have "command_x \<noteq> command entry_a"
    by (simp add: command_x_def entry_a_def command_set_def)
  with unsafe_run unsafe_run_fault_free show ?thesis by blast
qed

end
