(* ===== verification/Metrics.thy ===== *)
theory Metrics
  imports RaftState
begin

text \<open>
  The observable state of a running node, \<open>raft-runtime/src/metrics.rs\<close>: a copy of the scalar
  fields after every step and a bounded log of the messages the node sent. The lock around
  the inner struct is not modelled: the node is the only writer and every operation takes the
  lock once.
\<close>

section \<open>The structs and operations\<close>

definition message_log_cap :: nat where
  "message_log_cap = 200"

record MessageEvent =
  ev_tick :: u64
  ev_from :: NodeId
  ev_to :: NodeId
  ev_label :: string

record MetricsInner =
  m_node_id :: NodeId
  m_role :: Role
  m_term :: u64
  m_commit_index :: u64
  m_last_applied :: u64
  m_log_length :: u64
  m_leader_id :: "NodeId option"
  m_message_log :: "MessageEvent list"

record MetricsSnapshot =
  snap_node_id :: NodeId
  snap_role :: Role
  snap_term :: u64
  snap_commit_index :: u64
  snap_last_applied :: u64
  snap_log_length :: u64
  snap_leader_id :: "NodeId option"
  snap_message_log :: "MessageEvent list"

definition metrics_new :: "NodeId \<Rightarrow> MetricsInner" where
  "metrics_new i =
     \<lparr>m_node_id = i, m_role = Follower, m_term = 0, m_commit_index = 0, m_last_applied = 0,
      m_log_length = 0, m_leader_id = None, m_message_log = []\<rparr>"

definition to_snapshot :: "MetricsInner \<Rightarrow> MetricsSnapshot" where
  "to_snapshot m =
     \<lparr>snap_node_id = m_node_id m, snap_role = m_role m, snap_term = m_term m,
      snap_commit_index = m_commit_index m, snap_last_applied = m_last_applied m,
      snap_log_length = m_log_length m, snap_leader_id = m_leader_id m,
      snap_message_log = m_message_log m\<rparr>"

definition update_fields ::
    "Role \<Rightarrow> u64 \<Rightarrow> u64 \<Rightarrow> u64 \<Rightarrow> u64 \<Rightarrow> NodeId option \<Rightarrow> MetricsInner \<Rightarrow> MetricsInner" where
  "update_fields new_role new_term commit applied len leader m =
     m\<lparr>m_role := new_role, m_term := new_term, m_commit_index := commit, m_last_applied := applied,
       m_log_length := len, m_leader_id := leader\<rparr>"

text \<open>\<open>VecDeque::pop_front\<close> is \<open>tl\<close>, \<open>push_back\<close> appends at the end.\<close>

definition record_message :: "MessageEvent \<Rightarrow> MetricsInner \<Rightarrow> MetricsInner" where
  "record_message e m =
     (let kept = (if message_log_cap \<le> length (m_message_log m) then tl (m_message_log m)
                  else m_message_log m) in
      m\<lparr>m_message_log := kept @ [e]\<rparr>)"

lemma record_message_frame [simp]:
  "m_node_id (record_message e m) = m_node_id m" "m_role (record_message e m) = m_role m"
  "m_term (record_message e m) = m_term m" "m_commit_index (record_message e m) = m_commit_index m"
  "m_last_applied (record_message e m) = m_last_applied m"
  "m_log_length (record_message e m) = m_log_length m"
  "m_leader_id (record_message e m) = m_leader_id m"
  by (simp_all add: record_message_def Let_def)

section \<open>The message log is a window\<close>

text \<open>
  The abstract specification: the log is the list of all events ever recorded, of which the
  reader sees the last \<open>message_log_cap\<close>.
\<close>

definition window :: "'a list \<Rightarrow> 'a list" where
  "window es = drop (length es - message_log_cap) es"

lemma length_window: "length (window es) = min (length es) message_log_cap"
  by (auto simp: window_def)

lemma window_snoc:
  "window (es @ [e]) =
     (if message_log_cap \<le> length (window es) then tl (window es) else window es) @ [e]"
proof (cases "message_log_cap \<le> length es")
  case True
  then have "length (es @ [e]) - message_log_cap = Suc (length es - message_log_cap)"
    and "length es - message_log_cap < length es"
    by (simp_all add: Suc_diff_le message_log_cap_def)
  with True show ?thesis by (simp add: window_def tl_drop drop_Suc)
next
  case False
  then show ?thesis by (simp add: window_def)
qed

text \<open>The ring buffer implements the window: after recording any sequence of events from a
  fresh metrics object, the message log holds exactly the most recent 200 of them, oldest
  first, and so never more than 200.\<close>

theorem message_log_is_window:
  "m_message_log (fold record_message es (metrics_new i)) = window es \<and>
   length (m_message_log (fold record_message es (metrics_new i))) \<le> message_log_cap"
proof -
  have "m_message_log (fold record_message es (metrics_new i)) = window es"
  proof (induction es rule: rev_induct)
    case Nil
    show ?case by (simp add: metrics_new_def window_def)
  next
    case (snoc e es)
    then show ?case by (simp add: record_message_def window_snoc Let_def)
  qed
  then show ?thesis by (simp add: length_window)
qed

end
