(* ===== verification/Persistence.thy ===== *)
theory Persistence
  imports RaftState
begin

text \<open>
  Durable storage of the persistent state, \<open>raft-runtime/src/persistence.rs\<close>. The contract of the
  trait is a locale. \<open>FilePersistence\<close> works on a file system, a map from paths to contents;
  \<open>serde_json\<close> is a parameter, an encoder that may fail and a decoder. Every call of the
  operating system may fail, and the process may stop at any point: what is left behind is a
  temporary file that is missing, cut short or complete, and a live file that is untouched until
  the rename and complete after it.
\<close>

section \<open>The contract\<close>

datatype io_error = SerializeError | WriteError | RenameError | ReadError | ParseError

text \<open>A save returns Ok or an error, or it never returns, because the process stops in it.\<close>

locale durable_store =
  fixes save :: "'o \<Rightarrow> PersistentState \<Rightarrow> 'd \<Rightarrow> 'd \<times> (io_error + unit) option"
    and load :: "'d \<Rightarrow> io_error + PersistentState option"
    and faithful :: "PersistentState \<Rightarrow> bool"
  assumes load_saved: "faithful st \<Longrightarrow> save f st d = (d', Some (Inr ())) \<Longrightarrow> load d' = Inr (Some st)"
    and failed_save: "save f st d = (d', Some (Inl e)) \<Longrightarrow> load d' = load d"
    and cut_save: "faithful st \<Longrightarrow> save f st d = (d', None) \<Longrightarrow> load d' = load d \<or> load d' = Inr (Some st)"
begin

lemma save_cases:
  assumes "faithful st" "save f st d = (d', res)"
  shows "case res of
      Some (Inr _) \<Rightarrow> load d' = Inr (Some st)
    | Some (Inl _) \<Rightarrow> load d' = load d
    | None \<Rightarrow> load d' = load d \<or> load d' = Inr (Some st)"
proof (cases res)
  case None
  with cut_save [OF assms(1)] assms(2) show ?thesis by simp
next
  case (Some r)
  with assms(2) load_saved [OF assms(1)] failed_save show ?thesis by (cases r) auto
qed

text \<open>After any sequence of saves, failed and interrupted ones included, a load finds one of the states
  saved, or what was there before.\<close>

lemma load_after_saves:
  assumes "\<And>f st. (f, st) \<in> set xs \<Longrightarrow> faithful st"
  shows "load (fold (\<lambda>(f, st) d. fst (save f st d)) xs d) = load d \<or>
    (\<exists>(f, st) \<in> set xs. load (fold (\<lambda>(f, st) d. fst (save f st d)) xs d) = Inr (Some st))"
  using assms
proof (induction xs arbitrary: d)
  case Nil
  then show ?case by simp
next
  case (Cons x xs)
  obtain f st where x: "x = (f, st)" by (cases x)
  obtain d' res where s: "save f st d = (d', res)" by (cases "save f st d")
  have "load d' = Inr (Some st) \<or> load d' = load d"
    using save_cases [OF Cons.prems [of f st] s] x by (auto split: option.splits sum.splits)
  moreover have "load (fold (\<lambda>(f, st) d. fst (save f st d)) xs d') = load d' \<or>
      (\<exists>(f, st) \<in> set xs. load (fold (\<lambda>(f, st) d. fst (save f st d)) xs d') = Inr (Some st))"
  proof (rule Cons.IH)
    show "faithful st" if "(f, st) \<in> set xs" for f st
      using Cons.prems [of f st] that by simp
  qed
  ultimately show ?case using x s by auto
qed

end

section \<open>File names\<close>

text \<open>\<open>format!("node_{node_id}.json")\<close>: a \<open>u64\<close> is shown in decimal.\<close>

fun decimal :: "nat \<Rightarrow> string" where
  "decimal n = (if n < 10 then [] else decimal (n div 10)) @ [char_of (48 + n mod 10)]"

declare decimal.simps [simp del]

definition node_file :: "u64 \<Rightarrow> string" where
  "node_file node_id = ''node_'' @ decimal (unat node_id) @ ''.json''"

text \<open>
  \<open>Path::with_extension\<close>: the file name up to its last dot, with a new extension. A name
  without a dot, or whose only dot leads it, is a stem as a whole.
\<close>

definition file_stem :: "string \<Rightarrow> string" where
  "file_stem name =
     (case dropWhile (\<lambda>c. c \<noteq> CHR ''.'') (rev name) of
        [] \<Rightarrow> name
      | [_] \<Rightarrow> name
      | _ # stem \<Rightarrow> rev stem)"

definition with_extension :: "string \<Rightarrow> string \<Rightarrow> string" where
  "with_extension name ext = file_stem name @ ''.'' @ ext"

type_synonym Path = "string \<times> string"

record FilePersistence =
  path :: Path

definition file_persistence_new :: "string \<Rightarrow> u64 \<Rightarrow> FilePersistence" where
  "file_persistence_new data_dir node_id = \<lparr>path = (data_dir, node_file node_id)\<rparr>"

definition tmp_path :: "FilePersistence \<Rightarrow> Path" where
  "tmp_path fp = (fst (path fp), with_extension (snd (path fp)) ''json.tmp'')"

section \<open>FilePersistence\<close>

type_synonym bytes = "8 word list"
type_synonym Files = "Path \<Rightarrow> bytes option"

text \<open>How the calls of one \<open>save\<close> go: the temporary file cannot be opened, its write fails after some
  bytes, the rename fails, or all of it succeeds; or the process is stopped: before it touches a file, while
  it writes, before the rename, or after the rename and before \<open>save\<close> returns. The file system itself
  keeps what was written; a loss of power before the data reached the disk (there is no \<open>fsync\<close>) is
  not modelled.\<close>

datatype save_fault = NoFault | OpenFails | WriteFails nat | RenameFails
  | StopsFirst | StopsWriting nat | StopsWritten | StopsRenamed

definition file_save ::
    "(PersistentState \<Rightarrow> bytes option) \<Rightarrow> FilePersistence \<Rightarrow> save_fault \<Rightarrow> PersistentState \<Rightarrow>
     Files \<Rightarrow> Files \<times> (io_error + unit) option" where
  "file_save to_json fp fault st files =
     (if fault = StopsFirst then (files, None)
      else case to_json st of
        None \<Rightarrow> (files, Some (Inl SerializeError))
      | Some json \<Rightarrow>
          (let renamed = files(tmp_path fp := None, path fp := Some json) in
           case fault of
             StopsFirst \<Rightarrow> (files, None)
           | OpenFails \<Rightarrow> (files, Some (Inl WriteError))
           | WriteFails n \<Rightarrow> (files(tmp_path fp := Some (take n json)), Some (Inl WriteError))
           | StopsWriting n \<Rightarrow> (files(tmp_path fp := Some (take n json)), None)
           | StopsWritten \<Rightarrow> (files(tmp_path fp := Some json), None)
           | RenameFails \<Rightarrow> (files(tmp_path fp := Some json), Some (Inl RenameError))
           | StopsRenamed \<Rightarrow> (renamed, None)
           | NoFault \<Rightarrow> (renamed, Some (Inr ()))))"

definition file_load ::
    "(bytes \<Rightarrow> PersistentState option) \<Rightarrow> FilePersistence \<Rightarrow> bool \<Rightarrow> Files \<Rightarrow>
     io_error + PersistentState option" where
  "file_load from_json fp readable files =
     (case files (path fp) of
        None \<Rightarrow> Inr None
      | Some json \<Rightarrow>
          if \<not> readable then Inl ReadError
          else (case from_json json of None \<Rightarrow> Inl ParseError | Some st \<Rightarrow> Inr (Some st)))"

section \<open>NoPersistence\<close>

definition no_save :: "PersistentState \<Rightarrow> io_error + unit" where
  "no_save st = Inr ()"

definition no_load :: "io_error + PersistentState option" where
  "no_load = Inr None"

section \<open>Paths do not collide\<close>

definition undecimal :: "string \<Rightarrow> nat" where
  "undecimal = foldl (\<lambda>a c. 10 * a + (of_char c - 48)) 0"

lemma undecimal_decimal [simp]: "undecimal (decimal n) = n"
proof (induction n rule: decimal.induct)
  case (1 n)
  have digit: "of_char (char_of (48 + n mod 10) :: char) = 48 + n mod 10"
    by (simp add: of_char_of)
  show ?case
  proof (cases "n < 10")
    case True
    then show ?thesis using digit by (subst decimal.simps) (simp add: undecimal_def)
  next
    case False
    with 1 have "undecimal (decimal (n div 10)) = n div 10" by simp
    with digit False show ?thesis by (subst decimal.simps) (simp add: undecimal_def)
  qed
qed

lemma decimal_inject: "decimal m = decimal n \<longleftrightarrow> m = n"
  by (metis undecimal_decimal)

lemma file_stem_dot:
  assumes "CHR ''.'' \<notin> set ext" "name \<noteq> []"
  shows "file_stem (name @ ''.'' @ ext) = name"
proof -
  have "dropWhile (\<lambda>c. c \<noteq> CHR ''.'') (rev ext @ CHR ''.'' # rev name) = CHR ''.'' # rev name"
    using assms(1) by (subst dropWhile_append2) auto
  with assms(2) show ?thesis by (cases "rev name") (auto simp: file_stem_def)
qed

lemma with_extension_node_file:
  "with_extension (node_file i) ''json.tmp'' = ''node_'' @ decimal (unat i) @ ''.json.tmp''"
proof -
  have "node_file i = (''node_'' @ decimal (unat i)) @ ''.'' @ ''json''"
    by (simp add: node_file_def)
  then have "file_stem (node_file i) = ''node_'' @ decimal (unat i)"
    using file_stem_dot [of "''json''" "''node_'' @ decimal (unat i)"] by simp
  then show ?thesis by (simp add: with_extension_def)
qed

lemma tmp_path_new:
  "tmp_path (file_persistence_new dir i) = (dir, ''node_'' @ decimal (unat i) @ ''.json.tmp'')"
  by (simp add: tmp_path_def file_persistence_new_def with_extension_node_file)

lemma path_new: "path (file_persistence_new dir i) = (dir, ''node_'' @ decimal (unat i) @ ''.json'')"
  by (simp add: file_persistence_new_def node_file_def)

lemma tmp_not_live: "tmp_path (file_persistence_new dir i) \<noteq> path (file_persistence_new dir j)"
proof
  assume "tmp_path (file_persistence_new dir i) = path (file_persistence_new dir j)"
  then have "rev (''node_'' @ decimal (unat i) @ ''.json.tmp'') = rev (''node_'' @ decimal (unat j) @ ''.json'')"
    by (simp add: tmp_path_new path_new)
  then show False by simp
qed


section \<open>Saving is atomic\<close>

definition round_trips ::
    "(PersistentState \<Rightarrow> bytes option) \<Rightarrow> (bytes \<Rightarrow> PersistentState option) \<Rightarrow> PersistentState \<Rightarrow> bool" where
  "round_trips to_json from_json st \<longleftrightarrow> (\<forall>json. to_json st = Some json \<longrightarrow> from_json json = Some st)"

interpretation fstore: durable_store "file_save to_json (file_persistence_new dir i)"
    "file_load from_json (file_persistence_new dir i) True" "round_trips to_json from_json"
  for to_json from_json dir i
proof
  let ?save = "file_save to_json (file_persistence_new dir i)"
  let ?load = "file_load from_json (file_persistence_new dir i) True"
  note defs = file_save_def file_load_def round_trips_def Let_def
  show "?load d' = Inr (Some st)" if "round_trips to_json from_json st" "?save f st d = (d', Some (Inr ()))" for st f d d'
    using that by (auto simp: defs split: option.splits save_fault.splits if_splits)
  show "?load d' = ?load d" if "?save f st d = (d', Some (Inl e))" for st f d d' e
    using that tmp_not_live [of dir i i] by (auto simp: defs split: option.splits save_fault.splits if_splits)
  show "?load d' = ?load d \<or> ?load d' = Inr (Some st)"
    if "round_trips to_json from_json st" "?save f st d = (d', None)" for st f d d'
    using that tmp_not_live [of dir i i] by (auto simp: defs split: option.splits save_fault.splits if_splits)
qed

text \<open>C30: \<open>FilePersistence::save\<close> is atomic. However the calls to the operating system go, a later \<open>load\<close> of the
  node finds the state that was saved when \<open>save\<close> returned Ok, the one that was there before when
  it returned an error, and one of the two when the process stopped in it; it is never a part of a
  state. No file of another node is touched.\<close>

theorem file_save_atomic:
  assumes "round_trips to_json from_json st"
    and "file_save to_json (file_persistence_new dir i) fault st files = (files', res)"
  shows "(case res of
      Some (Inr _) \<Rightarrow> file_load from_json (file_persistence_new dir i) True files' = Inr (Some st)
    | Some (Inl _) \<Rightarrow> file_load from_json (file_persistence_new dir i) True files' =
        file_load from_json (file_persistence_new dir i) True files
    | None \<Rightarrow> file_load from_json (file_persistence_new dir i) True files' \<in>
        {file_load from_json (file_persistence_new dir i) True files, Inr (Some st)}) \<and>
    (\<forall>j r. j \<noteq> i \<longrightarrow> file_load from_json (file_persistence_new dir j) r files' =
      file_load from_json (file_persistence_new dir j) r files)"
proof
  show "case res of
      Some (Inr _) \<Rightarrow> file_load from_json (file_persistence_new dir i) True files' = Inr (Some st)
    | Some (Inl _) \<Rightarrow> file_load from_json (file_persistence_new dir i) True files' =
        file_load from_json (file_persistence_new dir i) True files
    | None \<Rightarrow> file_load from_json (file_persistence_new dir i) True files' \<in>
        {file_load from_json (file_persistence_new dir i) True files, Inr (Some st)}"
    using fstore.save_cases [OF assms] by (auto split: option.splits sum.splits)
  have other: "files' (path (file_persistence_new dir j)) = files (path (file_persistence_new dir j))"
    if "j \<noteq> i" for j
  proof -
    have "path (file_persistence_new dir j) \<noteq> path (file_persistence_new dir i)"
      using that by (simp add: path_new decimal_inject word_unat_eq_iff)
    with assms(2) tmp_not_live [of dir i j] show ?thesis
      by (auto simp: file_save_def Let_def split: option.splits save_fault.splits if_splits)
  qed
  then show "\<forall>j r. j \<noteq> i \<longrightarrow> file_load from_json (file_persistence_new dir j) r files' =
      file_load from_json (file_persistence_new dir j) r files"
    by (simp add: file_load_def)
qed

text \<open>A codec for the empty state, whose file was written when the process stopped.\<close>

definition sample_to_json :: "PersistentState \<Rightarrow> bytes option" where
  "sample_to_json st = (if log st = [] \<and> voted_for st = None then Some [ucast (current_term st)] else None)"

definition sample_from_json :: "bytes \<Rightarrow> PersistentState option" where
  "sample_from_json b = (case b of [t] \<Rightarrow> Some \<lparr>current_term = ucast t, voted_for = None, log = []\<rparr> | _ \<Rightarrow> None)"

theorem file_save_atomic_witness:
  "\<exists>files'. file_save sample_to_json (file_persistence_new ''data'' 1) (StopsWriting 0)
       persistent_default (\<lambda>_. None) = (files', None) \<and>
     file_load sample_from_json (file_persistence_new ''data'' 1) True files' \<in> {Inr None, Inr (Some persistent_default)}"
proof -
  have rt: "round_trips sample_to_json sample_from_json persistent_default"
    by (simp add: round_trips_def sample_to_json_def sample_from_json_def persistent_default_def)
  obtain files' where s: "file_save sample_to_json (file_persistence_new ''data'' 1) (StopsWriting 0)
       persistent_default (\<lambda>_. None) = (files', None)"
    by (simp add: file_save_def sample_to_json_def persistent_default_def)
  from file_save_atomic [OF rt s] s show ?thesis by (simp add: file_load_def)
qed

end
