(* ===== verification/Timer.thy ===== *)
theory Timer
  imports Prelude
begin

text \<open>
  The timers of a running node, \<open>raft-runtime/src/timer.rs\<close> and \<open>config.rs\<close>. A timer spawns a
  task that sleeps and then sends its event to the node; a reset aborts the previous task. The
  tasks of the node form a pool, the channel to the node is a queue of 16 events. The clock is
  whoever fires the tasks; the random numbers are a parameter, one per spawned task.
\<close>

section \<open>Durations\<close>

text \<open>\<open>std::time::Duration\<close> in nanoseconds; \<open>as_millis\<close> truncates, the cast to \<open>u64\<close> wraps.\<close>

type_synonym Duration = nat

definition from_millis :: "nat \<Rightarrow> Duration" where
  "from_millis ms = ms * 10 ^ 6"

definition as_millis_u64 :: "Duration \<Rightarrow> nat" where
  "as_millis_u64 d = (d div 10 ^ 6) mod 2 ^ 64"

section \<open>The clock\<close>

text \<open>
  \<open>trait Clock\<close>: whoever sleeps knows the clock by this interface only. \<open>sleep\<close> fixes, at the time of the
  call, when the future it returns is ready; time does not run backwards. Durations are whole
  microseconds to a clock, and those it can represent are said to fit.
\<close>

definition micros :: "Duration \<Rightarrow> nat" where
  "micros d = d div 1000"

locale clock_trait =
  fixes now :: "'c \<Rightarrow> nat"
    and goes_on :: "'c \<Rightarrow> 'c \<Rightarrow> bool"
    and fits :: "Duration \<Rightarrow> bool"
    and sleep :: "Duration \<Rightarrow> 'c \<Rightarrow> panic + 's"
    and ready :: "'s \<Rightarrow> 'c \<Rightarrow> bool"
  assumes forward: "goes_on c c' \<Longrightarrow> now c \<le> now c'"
    and sleep_ready: "sleep d c = Inr s \<Longrightarrow> fits d \<Longrightarrow> ready s c' \<longleftrightarrow> now c + micros d \<le> now c'"
begin

lemma forward_star: "rtranclp goes_on c c' \<Longrightarrow> now c \<le> now c'"
  by (induction rule: rtranclp_induct) (auto dest: forward)

text \<open>A sleep is over no sooner than asked for, and once it is over it stays so.\<close>

lemma not_early: "sleep d c = Inr s \<Longrightarrow> fits d \<Longrightarrow> ready s c' \<Longrightarrow> micros d \<le> now c' - now c"
  using sleep_ready by fastforce

lemma stays_ready:
  assumes "sleep d c = Inr s" "fits d" "ready s c1" "rtranclp goes_on c1 c2"
  shows "ready s c2"
  using sleep_ready [OF assms(1,2)] assms(3) forward_star [OF assms(4)] by simp

text \<open>Of two sleeps the one that was asked for later and for at least as long is over later.\<close>

lemma later_sleep:
  assumes "sleep d c = Inr s" "fits d" "rtranclp goes_on c c'" "sleep d' c' = Inr s'" "fits d'"
    "micros d \<le> micros d'" "ready s' c''"
  shows "ready s c''"
  using sleep_ready [OF assms(1,2)] sleep_ready [OF assms(4,5)] forward_star [OF assms(3)] assms(6,7) by simp

end

section \<open>The configuration\<close>

record NodeConfig =
  election_timeout_min :: Duration
  election_timeout_max :: Duration
  heartbeat_interval :: Duration
  incoming_channel_capacity :: nat
  client_channel_capacity :: nat

definition node_config_default :: NodeConfig where
  "node_config_default =
     \<lparr>election_timeout_min = from_millis 150, election_timeout_max = from_millis 300,
      heartbeat_interval = from_millis 50,
      incoming_channel_capacity = 256, client_channel_capacity = 64\<rparr>"

section \<open>Tasks\<close>

datatype TimerEvent = TimerElection | TimerHeartbeat

record TimerTask =
  sleeps :: Duration
  fires :: TimerEvent

record Tasks =
  spawned :: nat
  live :: "nat \<Rightarrow> TimerTask option"

definition spawn :: "TimerTask \<Rightarrow> Tasks \<Rightarrow> nat \<times> Tasks" where
  "spawn t ts = (spawned ts, ts\<lparr>spawned := spawned ts + 1, live := (live ts)(spawned ts := Some t)\<rparr>)"

definition abort :: "nat option \<Rightarrow> Tasks \<Rightarrow> Tasks" where
  "abort h ts = (case h of None \<Rightarrow> ts | Some i \<Rightarrow> ts\<lparr>live := (live ts)(i := None)\<rparr>)"

section \<open>The timers\<close>

record ElectionTimer =
  et_min :: Duration
  et_max :: Duration
  et_handle :: "nat option"

record HeartbeatTimer =
  ht_interval :: Duration
  ht_handle :: "nat option"

record Timers =
  tasks :: Tasks
  election_timer :: ElectionTimer
  heartbeat_timer :: HeartbeatTimer
  timer_queue :: "TimerEvent list"

definition election_timer_new :: "Duration \<Rightarrow> Duration \<Rightarrow> ElectionTimer" where
  "election_timer_new mn mx = \<lparr>et_min = mn, et_max = mx, et_handle = None\<rparr>"

definition heartbeat_timer_new :: "Duration \<Rightarrow> HeartbeatTimer" where
  "heartbeat_timer_new iv = \<lparr>ht_interval = iv, ht_handle = None\<rparr>"

text \<open>\<open>random_range(lo..=hi)\<close> panics on an empty range; otherwise any number of the range.\<close>

definition random_range :: "nat \<Rightarrow> nat \<Rightarrow> nat \<Rightarrow> panic + nat" where
  "random_range rnd lo hi = (if hi < lo then Inl EmptyRange else Inr (lo + rnd mod (hi - lo + 1)))"

definition election_reset :: "(nat \<Rightarrow> nat) \<Rightarrow> Timers \<Rightarrow> panic + Timers" where
  "election_reset rng t =
     (let et = election_timer t; ts = abort (et_handle et) (tasks t) in
      and_then (random_range (rng (spawned ts)) (as_millis_u64 (et_min et)) (as_millis_u64 (et_max et))) (\<lambda>ms.
        (let (h, ts') = spawn \<lparr>sleeps = from_millis ms, fires = TimerElection\<rparr> ts in
         Inr (t\<lparr>tasks := ts', election_timer := et\<lparr>et_handle := Some h\<rparr>\<rparr>))))"

definition election_cancel :: "Timers \<Rightarrow> Timers" where
  "election_cancel t =
     t\<lparr>tasks := abort (et_handle (election_timer t)) (tasks t),
       election_timer := (election_timer t)\<lparr>et_handle := None\<rparr>\<rparr>"

definition heartbeat_reset :: "Timers \<Rightarrow> Timers" where
  "heartbeat_reset t =
     (let ht = heartbeat_timer t; ts = abort (ht_handle ht) (tasks t);
          (h, ts') = spawn \<lparr>sleeps = ht_interval ht, fires = TimerHeartbeat\<rparr> ts in
      t\<lparr>tasks := ts', heartbeat_timer := ht\<lparr>ht_handle := Some h\<rparr>\<rparr>)"

text \<open>A task whose sleep is over sends its event, once the channel has room, and ends.\<close>

definition timer_channel_capacity :: nat where
  "timer_channel_capacity = 16"

definition fire :: "nat \<Rightarrow> Timers \<Rightarrow> Timers option" where
  "fire i t =
     (case live (tasks t) i of
        None \<Rightarrow> None
      | Some task \<Rightarrow>
          if length (timer_queue t) < timer_channel_capacity
          then Some (t\<lparr>tasks := (tasks t)\<lparr>live := (live (tasks t))(i := None)\<rparr>,
                       timer_queue := timer_queue t @ [fires task]\<rparr>)
          else None)"

definition timers_new :: "NodeConfig \<Rightarrow> Timers" where
  "timers_new c =
     \<lparr>tasks = \<lparr>spawned = 0, live = (\<lambda>_. None)\<rparr>,
      election_timer = election_timer_new (election_timeout_min c) (election_timeout_max c),
      heartbeat_timer = heartbeat_timer_new (heartbeat_interval c), timer_queue = []\<rparr>"

section \<open>One task per timer\<close>

text \<open>
  Every live task belongs to the handle of the timer whose event it fires, the handles are
  different tasks, and no id is handed out twice.
\<close>

definition timers_ok :: "Timers \<Rightarrow> bool" where
  "timers_ok t \<longleftrightarrow>
     (\<forall>i task. live (tasks t) i = Some task \<longrightarrow>
        (fires task = TimerElection \<longrightarrow> et_handle (election_timer t) = Some i) \<and>
        (fires task = TimerHeartbeat \<longrightarrow> ht_handle (heartbeat_timer t) = Some i)) \<and>
     (\<forall>i. et_handle (election_timer t) = Some i \<longrightarrow>
        i < spawned (tasks t) \<and> ht_handle (heartbeat_timer t) \<noteq> Some i) \<and>
     (\<forall>i. ht_handle (heartbeat_timer t) = Some i \<longrightarrow> i < spawned (tasks t)) \<and>
     length (timer_queue t) \<le> timer_channel_capacity"

text \<open>The timer's task is pending.\<close>

definition timer_handle :: "TimerEvent \<Rightarrow> Timers \<Rightarrow> nat option" where
  "timer_handle ev t = (case ev of TimerElection \<Rightarrow> et_handle (election_timer t)
     | TimerHeartbeat \<Rightarrow> ht_handle (heartbeat_timer t))"

definition armed :: "TimerEvent \<Rightarrow> Timers \<Rightarrow> bool" where
  "armed ev t \<longleftrightarrow> (case timer_handle ev t of None \<Rightarrow> False
     | Some i \<Rightarrow> (case live (tasks t) i of None \<Rightarrow> False | Some task \<Rightarrow> fires task = ev))"

lemma armed_iff:
  "armed ev t \<longleftrightarrow> (\<exists>i task. timer_handle ev t = Some i \<and> live (tasks t) i = Some task \<and> fires task = ev)"
  by (simp add: armed_def split: option.split)

text \<open>In a well-formed state these are all the tasks there are.\<close>

lemma task_armed:
  "timers_ok t \<Longrightarrow> live (tasks t) i = Some task \<Longrightarrow> timer_handle (fires task) t = Some i \<and> armed (fires task) t"
  by (cases "fires task") (auto simp: timers_ok_def armed_iff timer_handle_def)

lemma timers_ok_new: "timers_ok (timers_new c)"
  by (simp add: timers_ok_def timers_new_def election_timer_new_def heartbeat_timer_new_def)

lemma abort_simps [simp]:
  "spawned (abort h ts) = spawned ts"
  "live (abort h ts) = (\<lambda>i. if h = Some i then None else live ts i)"
  by (auto simp: abort_def fun_eq_iff split: option.split)

lemma election_reset_effect:
  assumes "election_reset rng t = Inr t'"
  shows "\<exists>ms. random_range (rng (spawned (tasks t))) (as_millis_u64 (et_min (election_timer t)))
      (as_millis_u64 (et_max (election_timer t))) = Inr ms \<and>
    spawned (tasks t') = spawned (tasks t) + 1 \<and>
    live (tasks t') = (\<lambda>i. if i = spawned (tasks t) then Some \<lparr>sleeps = from_millis ms, fires = TimerElection\<rparr>
      else if et_handle (election_timer t) = Some i then None else live (tasks t) i) \<and>
    et_handle (election_timer t') = Some (spawned (tasks t)) \<and>
    heartbeat_timer t' = heartbeat_timer t \<and> timer_queue t' = timer_queue t"
  using assms by (auto simp: election_reset_def spawn_def Let_def and_then_eq_Inr fun_eq_iff)

lemma election_cancel_effect [simp]:
  "spawned (tasks (election_cancel t)) = spawned (tasks t)"
  "live (tasks (election_cancel t)) =
     (\<lambda>i. if et_handle (election_timer t) = Some i then None else live (tasks t) i)"
  "et_handle (election_timer (election_cancel t)) = None"
  "heartbeat_timer (election_cancel t) = heartbeat_timer t"
  "timer_queue (election_cancel t) = timer_queue t"
  by (simp_all add: election_cancel_def)

lemma heartbeat_reset_effect [simp]:
  "spawned (tasks (heartbeat_reset t)) = spawned (tasks t) + 1"
  "live (tasks (heartbeat_reset t)) =
     (\<lambda>i. if i = spawned (tasks t)
       then Some \<lparr>sleeps = ht_interval (heartbeat_timer t), fires = TimerHeartbeat\<rparr>
       else if ht_handle (heartbeat_timer t) = Some i then None else live (tasks t) i)"
  "ht_handle (heartbeat_timer (heartbeat_reset t)) = Some (spawned (tasks t))"
  "election_timer (heartbeat_reset t) = election_timer t"
  "timer_queue (heartbeat_reset t) = timer_queue t"
  by (auto simp: heartbeat_reset_def spawn_def Let_def fun_eq_iff)

lemma timers_ok_election_reset:
  assumes "timers_ok t" "election_reset rng t = Inr t'"
  shows "timers_ok t'"
proof -
  obtain ms where eff: "spawned (tasks t') = spawned (tasks t) + 1"
    "live (tasks t') = (\<lambda>i. if i = spawned (tasks t) then Some \<lparr>sleeps = from_millis ms, fires = TimerElection\<rparr>
      else if et_handle (election_timer t) = Some i then None else live (tasks t) i)"
    "et_handle (election_timer t') = Some (spawned (tasks t))"
    "heartbeat_timer t' = heartbeat_timer t" "timer_queue t' = timer_queue t"
    using election_reset_effect [OF assms(2)] by blast
  with assms(1) show ?thesis by (auto simp: timers_ok_def less_Suc_eq)
qed

lemma timers_ok_election_cancel: "timers_ok t \<Longrightarrow> timers_ok (election_cancel t)"
  by (auto simp: timers_ok_def)

lemma timers_ok_heartbeat_reset: "timers_ok t \<Longrightarrow> timers_ok (heartbeat_reset t)"
  by (auto simp: timers_ok_def less_Suc_eq)

lemma timers_ok_fire: "timers_ok t \<Longrightarrow> fire i t = Some t' \<Longrightarrow> timers_ok t'"
  by (auto simp: timers_ok_def fire_def split: if_splits option.splits)

lemma armed_election_cancel:
  assumes "timers_ok t"
  shows "\<not> armed TimerElection (election_cancel t)"
    and "armed TimerHeartbeat (election_cancel t) = armed TimerHeartbeat t"
  using assms by (auto simp: armed_iff timer_handle_def timers_ok_def)

lemma armed_heartbeat_reset:
  assumes "timers_ok t"
  shows "armed TimerHeartbeat (heartbeat_reset t)"
    and "armed TimerElection (heartbeat_reset t) = armed TimerElection t"
  using assms by (auto simp: armed_iff timer_handle_def timers_ok_def)

lemma armed_election_reset:
  assumes "timers_ok t" "election_reset rng t = Inr t'"
  shows "armed TimerElection t'" "armed TimerHeartbeat t' = armed TimerHeartbeat t"
    "timer_queue t' = timer_queue t"
proof -
  obtain ms where eff: "spawned (tasks t') = spawned (tasks t) + 1"
    "live (tasks t') = (\<lambda>i. if i = spawned (tasks t) then Some \<lparr>sleeps = from_millis ms, fires = TimerElection\<rparr>
      else if et_handle (election_timer t) = Some i then None else live (tasks t) i)"
    "et_handle (election_timer t') = Some (spawned (tasks t))"
    "heartbeat_timer t' = heartbeat_timer t" "timer_queue t' = timer_queue t"
    using election_reset_effect [OF assms(2)] by blast
  show "timer_queue t' = timer_queue t" by (rule eff(5))
  show "armed TimerElection t'" by (simp add: armed_def timer_handle_def eff(2,3))
  show "armed TimerHeartbeat t' = armed TimerHeartbeat t"
  proof (cases "ht_handle (heartbeat_timer t)")
    case (Some i)
    with assms(1) have "i \<noteq> spawned (tasks t)" "et_handle (election_timer t) \<noteq> Some i"
      by (auto simp: timers_ok_def)
    with Some show ?thesis by (simp add: armed_def timer_handle_def eff(2,4))
  qed (simp add: armed_def timer_handle_def eff(4))
qed

lemma random_range_bounds:
  assumes "random_range rnd lo hi = Inr ms"
  shows "lo \<le> ms \<and> ms \<le> hi"
proof -
  have le: "lo \<le> hi" using assms by (cases "hi < lo") (simp_all add: random_range_def)
  then have ms: "ms = lo + rnd mod (hi - lo + 1)"
    using assms unfolding random_range_def by (metis leD sum.inject(2))
  have "rnd mod (hi - lo + 1) < hi - lo + 1" by (rule mod_less_divisor) simp
  with le ms show ?thesis by linarith
qed

text \<open>A reset of the election timer leaves exactly one pending election task, which sleeps
  between the configured minimum and maximum (in whole milliseconds), whatever tasks were
  pending before; the heartbeat timer and the queued events stay as they are.\<close>

theorem election_reset_one_task:
  assumes "timers_ok t" "election_reset rng t = Inr t'"
  shows "timers_ok t' \<and>
    (\<exists>i task. live (tasks t') i = Some task \<and> fires task = TimerElection \<and>
       from_millis (as_millis_u64 (et_min (election_timer t))) \<le> sleeps task \<and>
       sleeps task \<le> from_millis (as_millis_u64 (et_max (election_timer t))) \<and>
       (\<forall>j b. live (tasks t') j = Some b \<and> fires b = TimerElection \<longrightarrow> j = i)) \<and>
    armed TimerHeartbeat t' = armed TimerHeartbeat t \<and> timer_queue t' = timer_queue t"
proof -
  have ok: "timers_ok t'" by (rule timers_ok_election_reset [OF assms])
  obtain ms where ms: "random_range (rng (spawned (tasks t))) (as_millis_u64 (et_min (election_timer t)))
      (as_millis_u64 (et_max (election_timer t))) = Inr ms"
    and i: "live (tasks t') (spawned (tasks t)) = Some \<lparr>sleeps = from_millis ms, fires = TimerElection\<rparr>"
    using election_reset_effect [OF assms(2)] by force
  have one: "j = spawned (tasks t)" if "live (tasks t') j = Some b" "fires b = TimerElection" for j b
    using task_armed [OF ok that(1)] task_armed [OF ok i] that(2) by simp
  have bounds: "from_millis (as_millis_u64 (et_min (election_timer t))) \<le> from_millis ms"
      "from_millis ms \<le> from_millis (as_millis_u64 (et_max (election_timer t)))"
    using random_range_bounds [OF ms] by (simp_all add: from_millis_def)
  have "\<exists>i task. live (tasks t') i = Some task \<and> fires task = TimerElection \<and>
       from_millis (as_millis_u64 (et_min (election_timer t))) \<le> sleeps task \<and>
       sleeps task \<le> from_millis (as_millis_u64 (et_max (election_timer t))) \<and>
       (\<forall>j b. live (tasks t') j = Some b \<and> fires b = TimerElection \<longrightarrow> j = i)"
    using i bounds one by (metis TimerTask.select_convs(1,2))
  with ok armed_election_reset [OF assms] show ?thesis by blast
qed

theorem election_reset_one_task_witness:
  "\<exists>t' i task. election_reset (\<lambda>_. 7) (timers_new node_config_default) = Inr t' \<and>
     live (tasks t') i = Some task \<and> from_millis 150 \<le> sleeps task \<and> sleeps task \<le> from_millis 300"
proof -
  obtain t' where r: "election_reset (\<lambda>_. 7) (timers_new node_config_default) = Inr t'"
    by (simp add: election_reset_def timers_new_def node_config_default_def election_timer_new_def
        abort_def spawn_def random_range_def as_millis_u64_def from_millis_def)
  have ms: "as_millis_u64 (et_min (election_timer (timers_new node_config_default))) = 150"
    "as_millis_u64 (et_max (election_timer (timers_new node_config_default))) = 300"
    by (simp_all add: timers_new_def node_config_default_def election_timer_new_def
        as_millis_u64_def from_millis_def)
  from election_reset_one_task [OF timers_ok_new r] r show ?thesis unfolding ms by blast
qed

end
