(* ===== verification/NodeRuntime.thy ===== *)
theory NodeRuntime
  imports RaftStep Metrics Persistence Timer
begin

text \<open>
  A running node, \<open>raft-runtime/src/node.rs\<close>: the event loop around the Raft core. A node owns
  its Raft state, timers, metrics, the clients that wait for an answer, and three components
  it knows by their traits only, whose operations are the parameters collected in \<open>Env\<close>: the
  state machine, the persistence and the transport. An operation of the node is a function
  that can panic; the asynchronous tasks around it appear as the inputs it receives.
\<close>

section \<open>The node\<close>

datatype ClientResponse = Applied | NotTheLeader "NodeId option"

text \<open>What became of a client's reply channel: an answer, or dropped without one.\<close>

datatype Outcome = Answer ClientResponse | Dropped

record ('s, 'd, 't) Env =
  apply_command :: "Command \<Rightarrow> 's \<Rightarrow> 's"
  save_state :: "PersistentState \<Rightarrow> 'd \<Rightarrow> 'd \<times> (io_error + unit)"
  transport_send :: "NodeId \<Rightarrow> Message \<Rightarrow> 't \<Rightarrow> 't"
  rng :: "nat \<Rightarrow> nat"

text \<open>
  The fields of \<open>Node\<close>. \<open>pending\<close> is the hash map from log indices to waiting clients (at most
  one entry per index, the order is immaterial), \<open>outcomes\<close> the reply channels used so far.
\<close>

record ('s, 'd, 't) Node =
  raft :: Raft
  transport :: 't
  persistence :: 'd
  state_machine :: 's
  metrics :: MetricsInner
  timers :: Timers
  pending :: "(LogIndex \<times> nat) list"
  outcomes :: "(nat \<times> Outcome) list"
  clock_tick :: u64

section \<open>Labels\<close>

definition show_bool :: "bool \<Rightarrow> string" where
  "show_bool b = (if b then ''true'' else ''false'')"

definition show_u64 :: "u64 \<Rightarrow> string" where
  "show_u64 n = decimal (unat n)"

definition msg_label :: "Message \<Rightarrow> string" where
  "msg_label msg = (case msg of
     MRequestVote m \<Rightarrow> ''RequestVote(t='' @ show_u64 (rv_term m) @ '')''
   | MRequestVoteResponse m \<Rightarrow> ''VoteResponse(t='' @ show_u64 (rvr_term m) @ '', granted='' @
       show_bool (vote_granted m) @ '')''
   | MAppendEntries m \<Rightarrow> ''AppendEntries(t='' @ show_u64 (ae_term m) @ '', n='' @
       decimal (length (entries m)) @ '')''
   | MAppendEntriesResponse m \<Rightarrow> ''AppendEntriesResponse(t='' @ show_u64 (aer_term m) @ '', ok='' @
       show_bool (success m) @ '')'')"

section \<open>The pending clients\<close>

definition pending_remove :: "LogIndex \<Rightarrow> (LogIndex \<times> nat) list \<Rightarrow> (LogIndex \<times> nat) list" where
  "pending_remove i ps = filter (\<lambda>(j, _). j \<noteq> i) ps"

text \<open>\<open>HashMap::insert\<close> drops the client that waited at the index, and with it its channel.\<close>

definition pending_insert ::
    "LogIndex \<Rightarrow> nat \<Rightarrow> ('s, 'd, 't) Node \<Rightarrow> ('s, 'd, 't) Node" where
  "pending_insert i client n =
     n\<lparr>pending := (i, client) # pending_remove i (pending n),
       outcomes := outcomes n @
         (case map_of (pending n) i of None \<Rightarrow> [] | Some old \<Rightarrow> [(old, Dropped)])\<rparr>"

definition reply :: "nat \<Rightarrow> ClientResponse \<Rightarrow> ('s, 'd, 't) Node \<Rightarrow> ('s, 'd, 't) Node" where
  "reply client resp n = n\<lparr>outcomes := outcomes n @ [(client, Answer resp)]\<rparr>"

section \<open>Processing actions\<close>

definition record_outgoing :: "Message \<Rightarrow> NodeId \<Rightarrow> ('s, 'd, 't) Node \<Rightarrow> ('s, 'd, 't) Node" where
  "record_outgoing msg to n =
     n\<lparr>metrics := record_message
         \<lparr>ev_tick = clock_tick n, ev_from = raft_id (raft n), ev_to = to, ev_label = msg_label msg\<rparr>
         (metrics n)\<rparr>"

definition update_metrics :: "('s, 'd, 't) Node \<Rightarrow> ('s, 'd, 't) Node" where
  "update_metrics n =
     n\<lparr>metrics := update_fields (role (raft n)) (cterm (raft n)) (rcommit (raft n))
         (rapplied (raft n)) (of_nat (length (rlog (raft n)))) (known_leader (raft n)) (metrics n)\<rparr>"

fun process_action ::
    "('s, 'd, 't) Env \<Rightarrow> Action \<Rightarrow> ('s, 'd, 't) Node \<Rightarrow> panic + ('s, 'd, 't) Node" where
  "process_action env (Send to msg) n =
     (let n' = record_outgoing msg to n in
      Inr (n'\<lparr>transport := transport_send env to msg (transport n')\<rparr>))"
| "process_action env ResetElectionTimer n =
     and_then (election_reset (rng env) (timers n)) (\<lambda>t. Inr (n\<lparr>timers := t\<rparr>))"
| "process_action env ResetHeartbeatTimer n =
     Inr (n\<lparr>timers := heartbeat_reset (election_cancel (timers n))\<rparr>)"
| "process_action env PersistState n =
     (case save_state env (persistent (raft n)) (persistence n) of
        (d, Inl e) \<Rightarrow> Inr (n\<lparr>persistence := d\<rparr>)
      | (d, Inr _) \<Rightarrow> Inr (n\<lparr>persistence := d\<rparr>))"
| "process_action env (NotLeader leader) n =
     Inr (n\<lparr>pending := [],
            outcomes := outcomes n @ map (\<lambda>(_, c). (c, Answer (NotTheLeader leader))) (pending n)\<rparr>)"
| "process_action env (ApplyCommand cmd) n =
     (let i = rapplied (raft n);
          n' = n\<lparr>state_machine := apply_command env cmd (state_machine n)\<rparr> in
      case map_of (pending n') i of
        None \<Rightarrow> Inr n'
      | Some client \<Rightarrow> Inr (reply client Applied (n'\<lparr>pending := pending_remove i (pending n')\<rparr>)))"

fun process_actions ::
    "('s, 'd, 't) Env \<Rightarrow> Action list \<Rightarrow> ('s, 'd, 't) Node \<Rightarrow> panic + ('s, 'd, 't) Node" where
  "process_actions env [] n = Inr n"
| "process_actions env (a # as) n =
     and_then (process_action env a n) (\<lambda>n'. process_actions env as n')"

section \<open>Events\<close>

definition runtime_step ::
    "profile \<Rightarrow> ('s, 'd, 't) Env \<Rightarrow> Event \<Rightarrow> ('s, 'd, 't) Node \<Rightarrow> panic + ('s, 'd, 't) Node" where
  "runtime_step p env ev n =
     and_then (raft_step p (raft n) ev) (\<lambda>(r, as).
     and_then (process_actions env as (n\<lparr>raft := r\<rparr>)) (\<lambda>n'. Inr (update_metrics n')))"

definition handle_client ::
    "profile \<Rightarrow> ('s, 'd, 't) Env \<Rightarrow> Command \<Rightarrow> nat \<Rightarrow> ('s, 'd, 't) Node \<Rightarrow>
     panic + ('s, 'd, 't) Node" where
  "handle_client p env cmd client n =
     (let before = last_log_index (raft n) in
      and_then (raft_step p (raft n) (ClientRequest cmd)) (\<lambda>(r, as).
      (let n1 = n\<lparr>raft := r\<rparr>;
           n2 = (if last_log_index r > before
             then pending_insert (last_log_index r) client n1
             else reply client (NotTheLeader (known_leader r)) n1) in
       and_then (process_actions env as n2) (\<lambda>n'. Inr (update_metrics n')))))"

definition node_new ::
    "profile \<Rightarrow> NodeId \<Rightarrow> NodeId list \<Rightarrow> PersistentState option \<Rightarrow> 't \<Rightarrow> 'd \<Rightarrow> 's \<Rightarrow> u64 \<Rightarrow>
     NodeConfig \<Rightarrow> MetricsInner \<Rightarrow> panic + ('s, 'd, 't) Node" where
  "node_new p i ps initial tr d sm tick config m =
     and_then (case initial of Some st \<Rightarrow> raft_restore p i ps st | None \<Rightarrow> raft_new p i ps) (\<lambda>r.
     Inr \<lparr>raft = r, transport = tr, persistence = d, state_machine = sm, metrics = m,
          timers = timers_new config, pending = [], outcomes = [], clock_tick = tick\<rparr>)"

definition node_start :: "('s, 'd, 't) Env \<Rightarrow> ('s, 'd, 't) Node \<Rightarrow> panic + ('s, 'd, 't) Node" where
  "node_start env n =
     and_then (election_reset (rng env) (timers n)) (\<lambda>t. Inr (update_metrics (n\<lparr>timers := t\<rparr>)))"

text \<open>
  One turn of the loop of \<open>run\<close>: \<open>select!\<close> takes an input from one of the three channels. A timer
  input is the oldest event of the timer queue and can only be taken when there is one.
\<close>

datatype Input = FromTimer | FromPeer NodeId Message | FromClient Command nat

definition run_once ::
    "profile \<Rightarrow> ('s, 'd, 't) Env \<Rightarrow> Input \<Rightarrow> ('s, 'd, 't) Node \<Rightarrow> (panic + ('s, 'd, 't) Node) option" where
  "run_once p env inp n =
     (case inp of
        FromTimer \<Rightarrow>
          (case timer_queue (timers n) of
             [] \<Rightarrow> None
           | te # rest \<Rightarrow>
               Some (runtime_step p env
                 (case te of TimerElection \<Rightarrow> ElectionTimeout | TimerHeartbeat \<Rightarrow> HeartbeatTimeout)
                 (n\<lparr>timers := (timers n)\<lparr>timer_queue := rest\<rparr>\<rparr>)))
      | FromPeer _ msg \<Rightarrow> Some (runtime_step p env (EvMessage msg) n)
      | FromClient cmd client \<Rightarrow> Some (handle_client p env cmd client n))"

end
