(* ===== verification/RuntimeProps.thy ===== *)
theory RuntimeProps
  imports NodeRuntime RaftSystem
begin

text \<open>
  What the event loop makes of the actions of the Raft core: it carries out exactly the sends,
  applications and writes of the cluster model, in order; the metrics mirror the state;
  every client is answered at most once. And where it falls short: an error of the
  persistence is ignored, of several commands applied at once only one is answered, and a leader
  that steps down is left without an election timer.
\<close>

section \<open>The effects of a list of actions\<close>

lemma process_action_effect:
  assumes "process_action env a n = Inr n'"
  shows "raft n' = raft n \<and> clock_tick n' = clock_tick n \<and>
    transport n' = fold (\<lambda>(to, m). transport_send env to m) (sends [a]) (transport n) \<and>
    state_machine n' = fold (apply_command env) (applied_commands [a]) (state_machine n) \<and>
    persistence n' = (if a = PersistState
      then fst (save_state env (persistent (raft n)) (persistence n)) else persistence n)"
  using assms
  by (cases a) (auto simp: record_outgoing_def reply_def and_then_eq_Inr Let_def
      split: option.splits prod.splits sum.splits)

lemma process_actions_effect:
  assumes "process_actions env as n = Inr n'"
  shows "raft n' = raft n \<and> clock_tick n' = clock_tick n \<and>
    transport n' = fold (\<lambda>(to, m). transport_send env to m) (sends as) (transport n) \<and>
    state_machine n' = fold (apply_command env) (applied_commands as) (state_machine n) \<and>
    persistence n' = fold (\<lambda>_ d. fst (save_state env (persistent (raft n)) d))
      (filter (\<lambda>a. a = PersistState) as) (persistence n)"
  using assms
proof (induction as arbitrary: n)
  case Nil
  then show ?case by simp
next
  case (Cons a as)
  then obtain n1 where n1: "process_action env a n = Inr n1" "process_actions env as n1 = Inr n'"
    by (auto simp: and_then_eq_Inr)
  have "sends (a # as) = sends [a] @ sends as"
    "applied_commands (a # as) = applied_commands [a] @ applied_commands as"
    by (cases a; simp)+
  with Cons.IH [OF n1(2)] process_action_effect [OF n1(1)] show ?case by simp
qed

lemma update_metrics_frame [simp]:
  "raft (update_metrics n) = raft n" "transport (update_metrics n) = transport n"
  "persistence (update_metrics n) = persistence n" "state_machine (update_metrics n) = state_machine n"
  "timers (update_metrics n) = timers n" "pending (update_metrics n) = pending n"
  "outcomes (update_metrics n) = outcomes n" "clock_tick (update_metrics n) = clock_tick n"
  by (simp_all add: update_metrics_def)

lemma runtime_step_cases:
  "runtime_step p env ev n = Inr n' \<longleftrightarrow> (\<exists>r as m. raft_step p (raft n) ev = Inr (r, as) \<and>
     process_actions env as (n\<lparr>raft := r\<rparr>) = Inr m \<and> n' = update_metrics m)"
  by (auto simp: runtime_step_def and_then_eq_Inr)

section \<open>The runtime refines the cluster model\<close>

text \<open>
  The components at their most abstract: the state machine is the list of applied commands, the
  disk holds the last saved state, the transport is the network of the cluster.
\<close>

definition spec_env ::
    "(nat \<Rightarrow> nat) \<Rightarrow> (Command list, PersistentState, (NodeId \<times> Message) list) Env" where
  "spec_env r =
     \<lparr>apply_command = (\<lambda>c s. s @ [c]), save_state = (\<lambda>st _. (st, Inr ())),
      transport_send = (\<lambda>to m t. t @ [(to, m)]), rng = r\<rparr>"

definition represents ::
    "System \<Rightarrow> NodeId \<Rightarrow> (Command list, PersistentState, (NodeId \<times> Message) list) Node \<Rightarrow> bool" where
  "represents s i n \<longleftrightarrow> raft n = nodes s i \<and> persistence n = disks s i \<and>
     state_machine n = apps s i \<and> transport n = net s"

lemma spec_env_folds [simp]:
  "fold (\<lambda>(to, m). transport_send (spec_env r) to m) ms t = t @ ms"
  "fold (apply_command (spec_env r)) cs l = l @ cs"
proof -
  show "fold (\<lambda>(to, m). transport_send (spec_env r) to m) ms t = t @ ms"
    by (induction ms arbitrary: t) (auto simp: spec_env_def)
  show "fold (apply_command (spec_env r)) cs l = l @ cs"
    by (induction cs arbitrary: l) (auto simp: spec_env_def)
qed

lemma spec_env_saves:
  "fold (\<lambda>_ d. fst (save_state (spec_env r) st d)) as d = (if as = [] then d else st)"
  by (induction as arbitrary: d) (auto simp: spec_env_def)

text \<open>C20: the event loop refines the cluster model. When the components behave as specified, one
  event handled by the running node is a step of the cluster: the same event, the new Raft
  state, the same messages on the network, the persisted state on disk, the commands applied
  in the same order, and nothing else changed.\<close>

theorem runtime_refines_system:
  assumes "represents s i n" "i \<in> set members" "possible s i ev"
    and "runtime_step Debug (spec_env r) ev n = Inr n'"
  shows "\<exists>s'. sys_step members s (Handle i ev) = Some s' \<and> represents s' i n' \<and>
    (\<forall>j. j \<noteq> i \<longrightarrow> nodes s' j = nodes s j \<and> disks s' j = disks s j \<and> apps s' j = apps s j)"
proof -
  obtain r' as m where st: "raft_step Debug (nodes s i) ev = Inr (r', as)"
    and m: "process_actions (spec_env r) as (n\<lparr>raft := r'\<rparr>) = Inr m" "n' = update_metrics m"
    using assms(1,4) by (auto simp: runtime_step_cases represents_def)
  have "handle members s i ev = Some (r', as)"
    using assms(2,3) st by (simp add: node_step_def)
  then have sys: "sys_step members s (Handle i ev) = Some (handled s i r' as)"
    by (simp del: handle_Some)
  have "filter (\<lambda>a. a = PersistState) as = [] \<longleftrightarrow> PersistState \<notin> set as"
    by (auto simp: filter_empty_conv)
  with process_actions_effect [OF m(1)] m(2) assms(1) have "represents (handled s i r' as) i n'"
    by (simp add: represents_def spec_env_saves)
  with sys show ?thesis by fastforce
qed

text \<open>A node with the abstract components.\<close>

definition sample_node ::
    "NodeId \<Rightarrow> NodeId list \<Rightarrow> (Command list, PersistentState, (NodeId \<times> Message) list) Node" where
  "sample_node i ps =
     \<lparr>raft = raft_init i ps, transport = [], persistence = persistent_default, state_machine = [],
      metrics = metrics_new i, timers = timers_new node_config_default, pending = [], outcomes = [],
      clock_tick = 0\<rparr>"

lemmas runtime_simps =
  runtime_step_def handle_client_def record_outgoing_def reply_def pending_insert_def
  pending_remove_def election_reset_def timers_new_def node_config_default_def
  election_timer_new_def heartbeat_timer_new_def abort_def spawn_def random_range_def
  as_millis_u64_def from_millis_def spec_env_def heartbeat_reset_def election_cancel_def

theorem runtime_refines_system_witness:
  "\<exists>n' s'. runtime_step Debug (spec_env (\<lambda>_. 0)) ElectionTimeout (sample_node 1 [2, 3]) = Inr n' \<and>
     sys_step members3 (sys_init members3) (Handle 1 ElectionTimeout) = Some s' \<and> represents s' 1 n'"
proof -
  let ?n = "sample_node 1 [2, 3]"
  have rep: "represents (sys_init members3) 1 ?n"
    by (simp add: represents_def sys_init_def sample_node_def members3_def others_def)
  have mem: "1 \<in> set members3" "possible (sys_init members3) 1 ElectionTimeout"
    by (simp_all add: members3_def possible_def)
  obtain n' where st: "runtime_step Debug (spec_env (\<lambda>_. 0)) ElectionTimeout ?n = Inr n'"
    by (simp add: sample_node_def runtime_simps run_simps)
  from runtime_refines_system [OF rep mem st] st show ?thesis by blast
qed

section \<open>Metrics\<close>

definition metrics_in_sync :: "('s, 'd, 't) Node \<Rightarrow> bool" where
  "metrics_in_sync n \<longleftrightarrow> (let m = metrics n; r = raft n in
     m_role m = role r \<and> m_term m = cterm r \<and> m_commit_index m = rcommit r \<and>
     m_last_applied m = rapplied r \<and> m_log_length m = of_nat (length (rlog r)) \<and>
     m_leader_id m = known_leader r)"

lemma update_metrics_in_sync [simp]: "metrics_in_sync (update_metrics n)"
  by (simp add: metrics_in_sync_def update_metrics_def update_fields_def Let_def)

text \<open>After every turn of the event loop, whatever input it took, the metrics that readers
  outside the node see mirror the role, term, indices, log length and leader of its state.\<close>

theorem run_once_metrics_in_sync:
  assumes "run_once p env inp n = Some (Inr n')"
  shows "metrics_in_sync n'"
  using assms
  by (auto simp: run_once_def runtime_step_def handle_client_def Let_def and_then_eq_Inr
      split: Input.splits list.splits)

theorem run_once_metrics_in_sync_witness:
  "\<exists>n'. run_once Debug (spec_env (\<lambda>_. 0)) (FromClient command_default 5) (sample_node 1 [2, 3]) =
       Some (Inr n') \<and> metrics_in_sync n' \<and> outcomes n' = [(5, Answer (NotTheLeader None))]"
proof -
  obtain n' where st: "run_once Debug (spec_env (\<lambda>_. 0)) (FromClient command_default 5)
      (sample_node 1 [2, 3]) = Some (Inr n')" "outcomes n' = [(5, Answer (NotTheLeader None))]"
    by (simp add: sample_node_def run_once_def runtime_simps run_simps)
  from run_once_metrics_in_sync [OF st(1)] st show ?thesis by blast
qed


section \<open>Every client is answered at most once\<close>

text \<open>No index has two waiting clients, and no client waits twice or waits with an outcome.\<close>

definition clients_ok :: "('s, 'd, 't) Node \<Rightarrow> bool" where
  "clients_ok n \<longleftrightarrow> distinct (map fst (pending n)) \<and>
     distinct (map snd (pending n) @ map fst (outcomes n))"

definition known_clients :: "('s, 'd, 't) Node \<Rightarrow> nat set" where
  "known_clients n = set (map snd (pending n)) \<union> set (map fst (outcomes n))"

lemma distinct_map_filter: "distinct (map f xs) \<Longrightarrow> distinct (map f (filter P xs))"
  by (induction xs) auto

lemma pending_remove_facts:
  assumes "distinct (map fst ps)" "distinct (map snd ps)" "map_of ps i = Some c"
  shows "c \<notin> snd ` set (pending_remove i ps)" "c \<in> snd ` set ps"
proof -
  have mem: "(i, c) \<in> set ps" using assms(3) by (rule map_of_SomeD)
  then show "c \<in> snd ` set ps" by force
  show "c \<notin> snd ` set (pending_remove i ps)"
    using mem assms(2) by (fastforce simp: pending_remove_def distinct_map inj_on_def)
qed

lemma pending_remove_subset: "set (pending_remove i ps) \<subseteq> set ps"
  by (auto simp: pending_remove_def)

lemma clients_ok_remove:
  assumes "clients_ok n" "map_of (pending n) i = Some c"
  shows "clients_ok (reply c resp (n\<lparr>pending := pending_remove i (pending n)\<rparr>))"
proof -
  have d: "distinct (map fst (pending n))" "distinct (map snd (pending n))"
    "distinct (map fst (outcomes n))" "snd ` set (pending n) \<inter> fst ` set (outcomes n) = {}"
    using assms(1) by (auto simp: clients_ok_def)
  note f = pending_remove_facts [OF d(1,2) assms(2)]
  have "distinct (map fst (pending_remove i (pending n)))" "distinct (map snd (pending_remove i (pending n)))"
    using d by (simp_all add: pending_remove_def distinct_map_filter)
  moreover have "snd ` set (pending_remove i (pending n)) \<subseteq> snd ` set (pending n)"
    using pending_remove_subset by blast
  ultimately show ?thesis using d f by (auto simp: clients_ok_def reply_def)
qed

lemma clients_ok_cong:
  assumes "pending n' = pending n" "outcomes n' = outcomes n"
  shows "clients_ok n' = clients_ok n" "known_clients n' = known_clients n"
  using assms by (simp_all add: clients_ok_def known_clients_def)

lemma clients_ok_drain:
  assumes "clients_ok n"
  shows "clients_ok (n\<lparr>pending := [], outcomes := outcomes n @ map (\<lambda>(_, c). (c, x)) (pending n)\<rparr>) \<and>
    known_clients (n\<lparr>pending := [], outcomes := outcomes n @ map (\<lambda>(_, c). (c, x)) (pending n)\<rparr>) =
      known_clients n"
proof -
  have "map fst (map (\<lambda>(_, c). (c, x)) (pending n)) = map snd (pending n)" by auto
  with assms show ?thesis
    unfolding clients_ok_def known_clients_def by (auto simp del: map_map)
qed

lemma clients_ok_process_action:
  assumes "clients_ok n" "process_action env a n = Inr n'"
  shows "clients_ok n' \<and> known_clients n' \<subseteq> known_clients n"
proof (cases "\<exists>c. a = ApplyCommand c")
  case True
  then obtain c where a: "a = ApplyCommand c" by blast
  let ?n = "n\<lparr>state_machine := apply_command env c (state_machine n)\<rparr>"
  have ok: "clients_ok ?n" using assms(1) by (simp add: clients_ok_def)
  show ?thesis
  proof (cases "map_of (pending n) (rapplied (raft n))")
    case None
    with assms(2) a ok show ?thesis by (auto simp: known_clients_def)
  next
    case (Some cl)
    then have at: "map_of (pending ?n) (rapplied (raft n)) = Some cl" by simp
    have n': "n' = reply cl Applied (?n\<lparr>pending := pending_remove (rapplied (raft n)) (pending ?n)\<rparr>)"
      using assms(2) a Some by simp
    have "snd ` set (pending_remove (rapplied (raft n)) (pending n)) \<subseteq> snd ` set (pending n)"
      using pending_remove_subset by (rule image_mono)
    moreover have "cl \<in> snd ` set (pending n)" using map_of_SomeD [OF Some] by force
    ultimately show ?thesis
      using clients_ok_remove [OF ok at] n' by (auto simp: known_clients_def reply_def)
  qed
next
  case not_apply: False
  show ?thesis
  proof (cases "\<exists>l. a = NotLeader l")
    case True
    with assms clients_ok_drain [OF assms(1)] show ?thesis by auto
  next
    case False
    with not_apply assms(2) have "pending n' = pending n \<and> outcomes n' = outcomes n"
      by (cases a) (auto simp: record_outgoing_def and_then_eq_Inr Let_def split: prod.splits sum.splits)
    with assms(1) clients_ok_cong [of n' n] show ?thesis by simp
  qed
qed

lemma clients_ok_process_actions:
  assumes "clients_ok n" "process_actions env as n = Inr n'"
  shows "clients_ok n' \<and> known_clients n' \<subseteq> known_clients n"
  using assms
proof (induction as arbitrary: n)
  case (Cons a as)
  then obtain n1 where n1: "process_action env a n = Inr n1" "process_actions env as n1 = Inr n'"
    by (auto simp: and_then_eq_Inr)
  with clients_ok_process_action [OF Cons.prems(1)] Cons.IH show ?case by blast
qed simp

lemma clients_ok_insert:
  assumes "clients_ok n" "c \<notin> known_clients n"
  shows "clients_ok (pending_insert i c n)"
proof (cases "map_of (pending n) i")
  case None
  have "i \<notin> fst ` set (pending n)" using None by (simp add: map_of_eq_None_iff)
  then have "pending_remove i (pending n) = pending n"
    by (force simp: pending_remove_def filter_id_conv)
  with assms None \<open>i \<notin> fst ` set (pending n)\<close> show ?thesis
    by (auto simp: clients_ok_def pending_insert_def known_clients_def)
next
  case (Some old)
  have ok: "clients_ok (reply old Applied (n\<lparr>pending := pending_remove i (pending n)\<rparr>))"
    by (rule clients_ok_remove [OF assms(1) Some])
  have "c \<notin> snd ` set (pending_remove i (pending n))" "c \<noteq> old" "c \<notin> fst ` set (outcomes n)"
    using assms(2) map_of_SomeD [OF Some] pending_remove_subset
    by (force simp: known_clients_def)+
  with ok Some show ?thesis
    by (auto simp: clients_ok_def pending_insert_def reply_def) (auto simp: pending_remove_def)
qed

text \<open>C31: no client is answered twice. If every client brings a channel of its own, then through any
  turn of the event loop no client waits at two indices, waits after it was answered, or is
  answered (or dropped) more than once.\<close>

theorem clients_answered_at_most_once:
  assumes "clients_ok n" "run_once p env inp n = Some (Inr n')"
    and "\<And>cmd c. inp = FromClient cmd c \<Longrightarrow> c \<notin> known_clients n"
  shows "clients_ok n' \<and> distinct (map fst (outcomes n'))"
proof -
  have timer: "clients_ok (n\<lparr>timers := t\<rparr>)" and rf: "clients_ok (n\<lparr>raft := r\<rparr>)"
    and both: "clients_ok (n\<lparr>timers := t, raft := r\<rparr>)" for t r
    using assms(1) by (simp_all add: clients_ok_def)
  have upd: "clients_ok (update_metrics m) = clients_ok m" for m :: "('a, 'b, 'c) Node"
    by (simp add: clients_ok_def)
  have "clients_ok n'"
  proof (cases inp)
    case FromTimer
    with assms(2) both show ?thesis
      by (auto simp: run_once_def runtime_step_cases upd dest!: clients_ok_process_actions [rotated]
          split: list.splits)
  next
    case (FromPeer src msg)
    with assms(2) rf show ?thesis
      by (auto simp: run_once_def runtime_step_cases upd dest!: clients_ok_process_actions [rotated])
  next
    case (FromClient cmd c)
    from assms(3) [OF FromClient] have fresh: "c \<notin> known_clients (n\<lparr>raft := r\<rparr>)" for r
      by (simp add: known_clients_def)
    have ans: "clients_ok (reply c resp (n\<lparr>raft := r\<rparr>))" for r resp
      using rf [of r] fresh [of r] by (auto simp: clients_ok_def reply_def known_clients_def)
    from assms(2) FromClient obtain r as m where m: "n' = update_metrics m"
      "process_actions env as (if last_log_index r > last_log_index (raft n)
         then pending_insert (last_log_index r) c (n\<lparr>raft := r\<rparr>)
         else reply c (NotTheLeader (known_leader r)) (n\<lparr>raft := r\<rparr>)) = Inr m"
      by (auto simp: run_once_def handle_client_def Let_def and_then_eq_Inr)
    have "clients_ok m"
      using clients_ok_process_actions [OF _ m(2)] clients_ok_insert [OF rf fresh] ans by auto
    with m(1) upd show ?thesis by simp
  qed
  then show ?thesis by (simp add: clients_ok_def)
qed


theorem clients_answered_at_most_once_witness:
  "\<exists>n'. run_once Debug (spec_env (\<lambda>_. 0)) (FromClient command_default 5) (sample_node 1 [2, 3]) =
       Some (Inr n') \<and> clients_ok n' \<and> map fst (outcomes n') = [5]"
proof -
  obtain n' where st: "run_once Debug (spec_env (\<lambda>_. 0)) (FromClient command_default 5)
      (sample_node 1 [2, 3]) = Some (Inr n')" "outcomes n' = [(5, Answer (NotTheLeader None))]"
    by (simp add: sample_node_def run_once_def runtime_simps run_simps)
  have ok: "clients_ok (sample_node 1 [2, 3])" "c \<notin> known_clients (sample_node 1 [2, 3])" for c
    by (simp_all add: clients_ok_def known_clients_def sample_node_def)
  from clients_answered_at_most_once [OF ok(1) st(1)] ok(2) st show ?thesis by simp
qed

section \<open>Errors of the persistence are ignored\<close>

text \<open>Durability before responses does not hold when a write fails. With a persistence whose
  \<open>save\<close> returns an error, a node that grants a vote still sends the grant, although its disk is
  unchanged.\<close>

theorem vote_sent_though_not_saved:
  assumes "\<And>st d. save_state env st d = (d, Inl e)" "grants (raft n) m"
    and "runtime_step p env (EvMessage (MRequestVote m)) n = Inr n'"
  shows "persistence n' = persistence n \<and>
    transport n' = transport_send env (candidate_id m) (MRequestVoteResponse
      \<lparr>rvr_term = rv_term m, vote_granted = True, vote_from = raft_id (raft n)\<rparr>) (transport n) \<and>
    vote (raft n') = Some (candidate_id m)"
proof -
  obtain r where r: "handle_request_vote (raft n) m =
      (r, [PersistState, ResetElectionTimer, vote_response r (candidate_id m) True])"
    "cterm r = rv_term m" "vote r = Some (candidate_id m)" "raft_id r = raft_id (raft n)"
    using handle_request_vote_grant [OF assms(2)] by blast
  with assms(3) obtain n1 where n1: "process_actions env
      [PersistState, ResetElectionTimer, vote_response r (candidate_id m) True] (n\<lparr>raft := r\<rparr>) = Inr n1"
      "n' = update_metrics n1"
    by (auto simp: runtime_step_cases)
  from process_actions_effect [OF n1(1)] n1(2) r assms(1) show ?thesis
    by (simp add: vote_response_def)
qed

definition full_disk_env :: "(Command list, PersistentState, (NodeId \<times> Message) list) Env" where
  "full_disk_env = (spec_env (\<lambda>_. 0))\<lparr>save_state := (\<lambda>_ d. (d, Inl WriteError))\<rparr>"

definition first_request :: RequestVote where
  "first_request = \<lparr>rv_term = 1, candidate_id = 2, rv_last_log_index = 0, rv_last_log_term = 0\<rparr>"

theorem vote_sent_though_not_saved_witness:
  "\<exists>n'. runtime_step Debug full_disk_env (EvMessage (MRequestVote first_request)) (sample_node 1 [2, 3]) =
       Inr n' \<and> persistence n' = persistent_default \<and>
     transport n' = [(2, MRequestVoteResponse \<lparr>rvr_term = 1, vote_granted = True, vote_from = 1\<rparr>)]"
proof -
  let ?n = "sample_node 1 [2, 3]"
  have env: "save_state full_disk_env st d = (d, Inl WriteError)" for st d
    by (simp add: full_disk_env_def)
  have gr: "grants (raft ?n) first_request"
    by (simp add: grants_def first_request_def sample_node_def run_simps)
  obtain n' where st: "runtime_step Debug full_disk_env (EvMessage (MRequestVote first_request)) ?n = Inr n'"
    by (simp add: sample_node_def first_request_def full_disk_env_def runtime_simps run_simps)
  from vote_sent_though_not_saved [OF env gr st] st show ?thesis
    by (simp add: first_request_def sample_node_def full_disk_env_def spec_env_def raft_init_def)
qed

section \<open>Applied commands and their clients\<close>

text \<open>C32: when one step commits several entries, all their commands are applied, but the clients
  are looked up at the final \<open>last_applied\<close> each time: the client of the last entry is answered,
  already at the first command, and the clients of the other entries keep waiting.\<close>

theorem batch_answers_last_client_only:
  assumes "cs \<noteq> []" "process_actions env (map ApplyCommand cs) n = Inr n'"
  shows "state_machine n' = fold (apply_command env) cs (state_machine n) \<and>
    pending n' = pending_remove (rapplied (raft n)) (pending n) \<and>
    outcomes n' = outcomes n @ (case map_of (pending n) (rapplied (raft n)) of
      None \<Rightarrow> [] | Some c \<Rightarrow> [(c, Answer Applied)])"
proof -
  have gone: "map_of (pending_remove i ps) i = None" for i and ps :: "(LogIndex \<times> nat) list"
    by (auto simp: map_of_eq_None_iff pending_remove_def)
  have same: "pending_remove i ps = ps" if "map_of ps i = None" for i and ps :: "(LogIndex \<times> nat) list"
    using that by (force simp: map_of_eq_None_iff pending_remove_def filter_id_conv)
  have rest: "pending n' = pending n \<and> outcomes n' = outcomes n"
    if "process_actions env (map ApplyCommand ds) n = Inr n'" "map_of (pending n) (rapplied (raft n)) = None"
    for ds and n n' :: "('a, 'b, 'c) Node"
    using that
  proof (induction ds arbitrary: n)
    case (Cons d ds)
    let ?n = "n\<lparr>state_machine := apply_command env d (state_machine n)\<rparr>"
    from Cons.prems have "process_actions env (map ApplyCommand ds) ?n = Inr n'" by simp
    from Cons.IH [OF this] Cons.prems(2) show ?case by simp
  qed simp
  obtain d ds where cs: "cs = d # ds" using assms(1) by (cases cs) auto
  have sm: "state_machine n' = fold (apply_command env) cs (state_machine n)"
    using process_actions_effect [OF assms(2)] by simp
  show ?thesis
  proof (cases "map_of (pending n) (rapplied (raft n))")
    case None
    from rest [OF assms(2) None] None same sm show ?thesis by simp
  next
    case (Some c)
    let ?n = "reply c Applied (n\<lparr>state_machine := apply_command env d (state_machine n),
      pending := pending_remove (rapplied (raft n)) (pending n)\<rparr>)"
    from assms(2) cs Some have "process_actions env (map ApplyCommand ds) ?n = Inr n'" by simp
    from rest [OF this] gone sm Some show ?thesis by (simp add: reply_def)
  qed
qed

text \<open>Clients 7 and 8 wait at the indices 1 and 2, which are committed together.\<close>

definition two_waiting :: "(Command list, PersistentState, (NodeId \<times> Message) list) Node" where
  "two_waiting = (sample_node 1 [2, 3])
     \<lparr>raft := (raft_init 1 [2, 3])\<lparr>volatile := \<lparr>commit_index = 2, last_applied = 2\<rparr>\<rparr>,
      pending := [(1, 7), (2, 8)]\<rparr>"

theorem batch_answers_last_client_only_witness:
  "\<exists>n'. process_actions (spec_env (\<lambda>_. 0)) (map ApplyCommand [command_set ''a'' ''1'', command_set ''b'' ''2''])
       two_waiting = Inr n' \<and>
     outcomes n' = [(8, Answer Applied)] \<and> pending n' = [(1, 7)] \<and>
     state_machine n' = [command_set ''a'' ''1'', command_set ''b'' ''2'']"
proof -
  let ?cs = "[command_set ''a'' ''1'', command_set ''b'' ''2'']"
  obtain n' where st: "process_actions (spec_env (\<lambda>_. 0)) (map ApplyCommand ?cs) two_waiting = Inr n'"
    by (simp add: two_waiting_def sample_node_def runtime_simps Let_def)
  have "?cs \<noteq> []" by simp
  from batch_answers_last_client_only [OF this st]
  have "outcomes n' = [(8, Answer Applied)] \<and> pending n' = [(1, 7)] \<and> state_machine n' = ?cs"
    by (simp add: two_waiting_def sample_node_def pending_remove_def raft_init_def spec_env_def)
  with st show ?thesis by blast
qed

section \<open>A leader that steps down has no election timer\<close>

lemma live_cases: "timers_ok t \<Longrightarrow> live (tasks t) i = Some task \<Longrightarrow> \<not> armed TimerElection t \<Longrightarrow>
    fires task = TimerHeartbeat \<and> ht_handle (heartbeat_timer t) = Some i"
  by (cases "fires task") (auto dest: task_armed simp: timer_handle_def)

text \<open>A deposed leader has no timer. A leader, whose election timer was cancelled when it was
  elected, steps down on a reply of a higher term without restarting the timer. Its one
  remaining task is the heartbeat timer; once that has fired and the heartbeat timeout has
  been ignored, no timer task is left: the node never campaigns again unless a message
  arrives that restarts its timer.\<close>

theorem deposed_leader_has_no_timer:
  assumes "timers_ok (timers n)" "\<not> armed TimerElection (timers n)" "role (raft n) = Leader"
    and "cterm (raft n) < aer_term m"
    and "runtime_step p env (EvMessage (MAppendEntriesResponse m)) n = Inr n1"
  shows "role (raft n1) = Follower \<and> \<not> armed TimerElection (timers n1) \<and>
    (\<forall>i t. fire i (timers n1) = Some t \<and> timer_queue (timers n1) = [] \<longrightarrow>
       (\<exists>n2. run_once p env FromTimer (n1\<lparr>timers := t\<rparr>) = Some (Inr n2) \<and> raft n2 = raft n1 \<and>
          live (tasks (timers n2)) = (\<lambda>_. None) \<and> timer_queue (timers n2) = []))"
proof -
  have "raft_step p (raft n) (EvMessage (MAppendEntriesResponse m)) =
      Inr (step_down (raft n) (aer_term m), [])"
    using assms(4) by (simp add: handle_append_entries_response_def)
  with assms(5) have n1: "n1 = update_metrics (n\<lparr>raft := step_down (raft n) (aer_term m)\<rparr>)"
    by (auto simp: runtime_step_cases)
  have fired: "\<exists>n2. run_once p env FromTimer (n1\<lparr>timers := t\<rparr>) = Some (Inr n2) \<and> raft n2 = raft n1 \<and>
      live (tasks (timers n2)) = (\<lambda>_. None) \<and> timer_queue (timers n2) = []"
    if f: "fire i (timers n1) = Some t" "timer_queue (timers n1) = []" for i t
  proof -
    from f(1) obtain task where task: "live (tasks (timers n)) i = Some task"
      "timer_queue t = timer_queue (timers n1) @ [fires task]"
      "live (tasks t) = (live (tasks (timers n)))(i := None)"
      by (auto simp: fire_def n1 split: option.splits if_splits)
    note hb = live_cases [OF assms(1) task(1) assms(2)]
    have none: "live (tasks t) j = None" for j
    proof (cases "live (tasks (timers n)) j")
      case (Some b)
      with hb live_cases [OF assms(1) Some assms(2)] task(3) show ?thesis by simp
    qed (simp add: task(3))
    have q: "timer_queue t = [TimerHeartbeat]" using task(2) f(2) hb by simp
    have "raft_step p (raft n1) HeartbeatTimeout = Inr (raft n1, [])"
      by (simp add: n1 handle_heartbeat_timeout_def)
    then have "run_once p env FromTimer (n1\<lparr>timers := t\<rparr>) =
        Some (Inr (update_metrics (n1\<lparr>timers := t\<lparr>timer_queue := []\<rparr>\<rparr>)))"
      using q by (simp add: run_once_def runtime_step_def)
    then show ?thesis using none by (auto simp: fun_eq_iff)
  qed
  have "role (raft n1) = Follower" "\<not> armed TimerElection (timers n1)"
    using assms(2) n1 by simp_all
  with fired show ?thesis by blast
qed

text \<open>A leader of term 1 whose heartbeat timer is the only task.\<close>

definition leading_node :: "(Command list, PersistentState, (NodeId \<times> Message) list) Node" where
  "leading_node = (sample_node 1 [2, 3])
     \<lparr>raft := (raft_init 1 [2, 3])\<lparr>role := Leader,
        persistent := \<lparr>current_term = 1, voted_for = Some 1, log = []\<rparr>,
        leader_state := Some \<lparr>next_index = [1, 1], match_index = [0, 0]\<rparr>\<rparr>,
      timers := heartbeat_reset (election_cancel (timers_new node_config_default))\<rparr>"

theorem deposed_leader_has_no_timer_witness:
  "\<exists>n1 t n2. runtime_step Debug (spec_env (\<lambda>_. 0)) (EvMessage (MAppendEntriesResponse
       \<lparr>aer_term = 2, success = False, aer_from = 2, aer_match_index = 0\<rparr>)) leading_node = Inr n1 \<and>
     fire 0 (timers n1) = Some t \<and>
     run_once Debug (spec_env (\<lambda>_. 0)) FromTimer (n1\<lparr>timers := t\<rparr>) = Some (Inr n2) \<and>
     role (raft n2) = Follower \<and> live (tasks (timers n2)) = (\<lambda>_. None)"
proof -
  let ?m = "\<lparr>aer_term = 2, success = False, aer_from = 2, aer_match_index = 0\<rparr>"
  let ?t = "election_cancel (timers_new node_config_default)"
  have ok: "timers_ok ?t" by (rule timers_ok_election_cancel [OF timers_ok_new])
  have h1: "timers_ok (timers leading_node)"
    using timers_ok_heartbeat_reset [OF ok] by (simp add: leading_node_def)
  have h2: "\<not> armed TimerElection (timers leading_node)"
    using armed_heartbeat_reset(2) [OF ok] armed_election_cancel(1) [OF timers_ok_new]
    by (simp add: leading_node_def)
  have h3: "role (raft leading_node) = Leader" "cterm (raft leading_node) < aer_term ?m"
    by (simp_all add: leading_node_def)
  obtain n1 where st: "runtime_step Debug (spec_env (\<lambda>_. 0)) (EvMessage (MAppendEntriesResponse ?m))
      leading_node = Inr n1" and t1: "timers n1 = timers leading_node"
    by (simp add: leading_node_def runtime_step_def run_simps sample_node_def)
  obtain t where t: "fire 0 (timers n1) = Some t" "timer_queue (timers n1) = []"
    unfolding t1 by (simp add: leading_node_def fire_def runtime_simps spawn_def
        timer_channel_capacity_def Let_def)
  from deposed_leader_has_no_timer [OF h1 h2 h3 st] st t show ?thesis by fastforce
qed

end
