(* ===== verification/SimClock.thy ===== *)
theory SimClock
  imports Timer "HOL-Library.Multiset"
begin

text \<open>
  The simulated clock, \<open>raft-simulator/src/clock.rs\<close>: time moves only by \<open>tick\<close>, which wakes the
  sleeps whose deadline has passed. The waker heap is known to the clock by its operations
  only, an interface with the laws of a priority queue; the provider is a list
  searched for its least deadline. Polling a sleep and registering its waker is one atomic step, but for the last section.
\<close>

section \<open>The heap of wakers\<close>

lemma filter_mset_none: "\<forall>x \<in># M. \<not> P x \<Longrightarrow> filter_mset P M = {#}"
  by (induction M) auto

lemma filter_mset_all: "\<forall>x \<in># M. P x \<Longrightarrow> filter_mset P M = M"
  by (induction M) auto

record 'w WakeEntry =
  deadline_us :: u64
  waker :: 'w

text \<open>
  \<open>impl Ord for WakeEntry\<close>: entries compare by deadline alone. Entries with one deadline are below
  each other, so the order is a preorder.
\<close>

instantiation WakeEntry_ext :: (type, type) preorder
begin

definition less_eq_WakeEntry_ext :: "('a, 'b) WakeEntry_scheme \<Rightarrow> ('a, 'b) WakeEntry_scheme \<Rightarrow> bool" where [simp]:
  "less_eq_WakeEntry_ext e f \<longleftrightarrow> deadline_us e \<le> deadline_us f"

definition less_WakeEntry_ext :: "('a, 'b) WakeEntry_scheme \<Rightarrow> ('a, 'b) WakeEntry_scheme \<Rightarrow> bool" where [simp]:
  "less_WakeEntry_ext e f \<longleftrightarrow> deadline_us e < deadline_us f"

instance
  by standard (auto simp: not_le intro: order.trans)

end

locale waker_heap =
  fixes push :: "'w WakeEntry \<Rightarrow> 'h \<Rightarrow> 'h"
    and peek :: "'h \<Rightarrow> 'w WakeEntry option"
    and pop :: "'h \<Rightarrow> 'h"
    and entries_of :: "'h \<Rightarrow> 'w WakeEntry multiset"
  assumes entries_push: "entries_of (push e h) = add_mset e (entries_of h)"
    and peek_None: "peek h = None \<longleftrightarrow> entries_of h = {#}"
    and peek_min: "peek h = Some e \<Longrightarrow>
      e \<in># entries_of h \<and> (\<forall>x \<in># entries_of h. e \<le> x)"
    and entries_pop: "peek h = Some e \<Longrightarrow> entries_of (pop h) = entries_of h - {#e#}"
begin

text \<open>Popping while the least deadline has passed takes out exactly the due entries.\<close>

inductive drains :: "u64 \<Rightarrow> 'h \<Rightarrow> 'w WakeEntry list \<Rightarrow> 'h \<Rightarrow> bool" for now where
  stop: "(\<And>e. peek h = Some e \<Longrightarrow> now < deadline_us e) \<Longrightarrow> drains now h [] h"
| take: "peek h = Some e \<Longrightarrow> deadline_us e \<le> now \<Longrightarrow> drains now (pop h) es h' \<Longrightarrow>
    drains now h (e # es) h'"

lemma drains_due:
  "drains now h es h' \<Longrightarrow>
     mset es = {#e \<in># entries_of h. deadline_us e \<le> now#} \<and>
     entries_of h' = {#e \<in># entries_of h. \<not> deadline_us e \<le> now#} \<and>
     sorted (map deadline_us es)"
proof (induction rule: drains.induct)
  case (stop h)
  have late: "\<not> deadline_us x \<le> now" if "x \<in># entries_of h" for x
  proof (cases "peek h")
    case None
    with that show ?thesis by (simp add: peek_None)
  next
    case (Some e)
    with stop have "now < deadline_us e" by blast
    with peek_min [OF Some] that show ?thesis by fastforce
  qed
  then have "{#e \<in># entries_of h. deadline_us e \<le> now#} = {#}"
    by (intro filter_mset_none) blast
  moreover have "{#e \<in># entries_of h. \<not> deadline_us e \<le> now#} = entries_of h"
    using late by (intro filter_mset_all) blast
  ultimately show ?case by simp
next
  case (take h e es h')
  have e: "e \<in># entries_of h" "\<forall>x \<in># entries_of h. deadline_us e \<le> deadline_us x"
    using peek_min [OF take(1)] by auto
  have split: "entries_of h = add_mset e (entries_of (pop h))"
    using e(1) entries_pop [OF take(1)] by simp
  have "\<forall>x \<in> set es. deadline_us e \<le> deadline_us x"
  proof
    fix x assume "x \<in> set es"
    then have "x \<in># mset es" by simp
    with take(4) have "x \<in># entries_of (pop h)" by simp
    with e(2) split show "deadline_us e \<le> deadline_us x" by simp
  qed
  with take(2,4) show ?case unfolding split by simp
qed

end

section \<open>The provider\<close>

type_synonym 'w heap = "'w WakeEntry list"

definition heap_push :: "'w WakeEntry \<Rightarrow> 'w heap \<Rightarrow> 'w heap" where
  "heap_push e h = e # h"

primrec heap_peek :: "'w heap \<Rightarrow> 'w WakeEntry option" where
  "heap_peek [] = None"
| "heap_peek (e # h) =
     (case heap_peek h of None \<Rightarrow> Some e
      | Some m \<Rightarrow> if e \<le> m then Some e else Some m)"

definition heap_pop :: "'w heap \<Rightarrow> 'w heap" where
  "heap_pop h = (case heap_peek h of None \<Rightarrow> h | Some e \<Rightarrow> remove1 e h)"

lemma heap_peek_None: "heap_peek h = None \<longleftrightarrow> h = []"
  by (cases h) (auto split: option.splits)

lemma heap_peek_min:
  "heap_peek h = Some e \<Longrightarrow> e \<in> set h \<and> (\<forall>x \<in> set h. e \<le> x)"
proof (induction h arbitrary: e)
  case (Cons x h)
  then show ?case
    by (cases "heap_peek h") (fastforce simp: heap_peek_None split: if_splits)+
qed simp

interpretation wh: waker_heap heap_push heap_peek heap_pop mset
  by unfold_locales (auto simp: heap_push_def heap_pop_def heap_peek_None dest: heap_peek_min)

lemma heap_pop_less:
  assumes "heap_peek h = Some e"
  shows "length (heap_pop h) < length h"
proof -
  have e: "e \<in> set h" using heap_peek_min [OF assms] by blast
  then have "0 < length h" by (cases h) auto
  with assms e show ?thesis by (simp add: heap_pop_def length_remove1)
qed

section \<open>The clock\<close>

definition DEFAULT_STEP_MS :: u64 where
  "DEFAULT_STEP_MS = 10000"

record 'w SimulatedClock =
  now_us :: u64
  paused :: bool
  step_us :: u64
  wakers :: "'w heap"

definition clock_new :: "'w SimulatedClock" where
  "clock_new = \<lparr>now_us = 0, paused = False, step_us = DEFAULT_STEP_MS, wakers = []\<rparr>"

definition clock_pause :: "'w SimulatedClock \<Rightarrow> 'w SimulatedClock" where
  "clock_pause c = c\<lparr>paused := True\<rparr>"

definition clock_resume :: "'w SimulatedClock \<Rightarrow> 'w SimulatedClock" where
  "clock_resume c = c\<lparr>paused := False\<rparr>"

definition clamp :: "'a::linorder \<Rightarrow> 'a \<Rightarrow> 'a \<Rightarrow> 'a" where
  "clamp x lo hi = (if x < lo then lo else if hi < x then hi else x)"

definition set_speed_us :: "u64 \<Rightarrow> 'w SimulatedClock \<Rightarrow> 'w SimulatedClock" where
  "set_speed_us us c = c\<lparr>step_us := clamp us 1 10000\<rparr>"

text \<open>The \<open>while let\<close> loop of \<open>tick\<close>: the woken entries in order, and the heap that is left.\<close>

function wake_due :: "u64 \<Rightarrow> 'w heap \<Rightarrow> 'w WakeEntry list \<times> 'w heap" where
  "wake_due new_now h =
     (case heap_peek h of
        None \<Rightarrow> ([], h)
      | Some e \<Rightarrow>
          if deadline_us e \<le> new_now
          then (let (es, h') = wake_due new_now (heap_pop h) in (e # es, h'))
          else ([], h))"
  by pat_completeness auto
termination
  by (relation "measure (\<lambda>(_, h). length h)") (auto dest: heap_pop_less)

declare wake_due.simps [simp del]

definition tick :: "profile \<Rightarrow> u64 \<Rightarrow> 'w SimulatedClock \<Rightarrow> panic + 'w list \<times> 'w SimulatedClock" where
  "tick p us c =
     and_then (add_u64 p (now_us c) us) (\<lambda>new_now.
     (let (woken, h) = wake_due new_now (wakers c) in
      Inr (map waker woken, c\<lparr>now_us := new_now, wakers := h\<rparr>)))"

text \<open>\<open>sleep\<close> fixes the deadline; the future is polled until the clock has reached it.\<close>

definition sleep :: "profile \<Rightarrow> Duration \<Rightarrow> 'w SimulatedClock \<Rightarrow> panic + u64" where
  "sleep p d c = add_u64 p (now_us c) (of_nat (micros d))"

definition sleep_ready :: "u64 \<Rightarrow> 'w SimulatedClock \<Rightarrow> bool" where
  "sleep_ready deadline c \<longleftrightarrow> now_us c \<ge> deadline"

definition register_waker :: "u64 \<Rightarrow> 'w \<Rightarrow> 'w SimulatedClock \<Rightarrow> 'w SimulatedClock" where
  "register_waker deadline w c = c\<lparr>wakers := heap_push \<lparr>deadline_us = deadline, waker = w\<rparr> (wakers c)\<rparr>"

definition poll_sleep :: "u64 \<Rightarrow> 'w \<Rightarrow> 'w SimulatedClock \<Rightarrow> bool \<times> 'w SimulatedClock" where
  "poll_sleep deadline w c =
     (if sleep_ready deadline c then (True, c) else (False, register_waker deadline w c))"

text \<open>One turn of the auto-advance task.\<close>

definition auto_advance :: "profile \<Rightarrow> 'w SimulatedClock \<Rightarrow> panic + 'w list \<times> 'w SimulatedClock" where
  "auto_advance p c = (if \<not> paused c then tick p (step_us c) c else Inr ([], c))"

section \<open>The simulated clock is a clock\<close>

text \<open>What happens to the clock: ticks, the settings, and sleeps that register.\<close>

inductive clock_step :: "'w SimulatedClock \<Rightarrow> 'w SimulatedClock \<Rightarrow> bool" where
  ticks: "tick Debug us c = Inr (woken, c') \<Longrightarrow> clock_step c c'"
| pauses: "clock_step c (clock_pause c)"
| resumes: "clock_step c (clock_resume c)"
| speeds: "clock_step c (set_speed_us us c)"
| polls: "clock_step c (snd (poll_sleep d w c))"

lemma tick_time: "tick p us c = Inr (woken, c') \<Longrightarrow> now_us c' = now_us c + us"
  by (auto simp: tick_def and_then_eq_Inr case_prod_beta add_u64_def split: if_splits)

lemma tick_now: "tick Debug us c = Inr (woken, c') \<Longrightarrow> unat (now_us c') = unat (now_us c) + unat us"
  by (auto simp: tick_def and_then_eq_Inr case_prod_beta dest: add_u64_Debug_unat)

lemma clock_step_forward: "clock_step c c' \<Longrightarrow> unat (now_us c) \<le> unat (now_us c')"
  by (induction rule: clock_step.induct)
    (auto simp: clock_pause_def clock_resume_def set_speed_us_def poll_sleep_def register_waker_def dest: tick_now)

lemma sleep_deadline:
  assumes "sleep Debug d c = Inr s" "micros d < 2 ^ 64"
  shows "unat s = unat (now_us c) + micros d"
proof -
  have "unat (of_nat (micros d) :: u64) = micros d" using assms(2) by (simp add: unat_of_nat)
  with add_u64_Debug_unat [of "now_us c" "of_nat (micros d)" s] assms(1) show ?thesis
    by (simp add: sleep_def)
qed

interpretation sim_clock: clock_trait "\<lambda>c. unat (now_us c)" clock_step "\<lambda>d. micros d < 2 ^ 64" "sleep Debug" sleep_ready
  by unfold_locales (auto simp: sleep_ready_def word_le_nat_alt dest: clock_step_forward sleep_deadline)

section \<open>A tick wakes exactly the due sleeps\<close>

lemma wake_due_drains: "wh.drains now h (fst (wake_due now h)) (snd (wake_due now h))"
proof (induction now h rule: wake_due.induct)
  case (1 now h)
  show ?case
  proof (cases "heap_peek h")
    case None
    then show ?thesis by (subst (1 2) wake_due.simps) (auto intro: wh.drains.stop)
  next
    case (Some e)
    show ?thesis
    proof (cases "deadline_us e \<le> now")
      case True
      from 1 [OF Some True] have "wh.drains now h (e # fst (wake_due now (heap_pop h)))
          (snd (wake_due now (heap_pop h)))"
        by (rule wh.drains.take [OF Some True])
      with Some True show ?thesis
        by (subst (1 2) wake_due.simps) (simp add: case_prod_beta)
    next
      case False
      with Some show ?thesis by (subst (1 2) wake_due.simps) (auto intro: wh.drains.stop)
    qed
  qed
qed

text \<open>C36: a tick advances the clock by the given number of microseconds, wakes exactly the sleeps
  whose deadline has passed, earliest deadline first, and keeps exactly the others
  registered.\<close>

theorem tick_wakes_exactly_due:
  assumes "tick p us c = Inr (woken, c')"
  shows "now_us c' = now_us c + us \<and>
    (\<exists>es. woken = map waker es \<and> sorted (map deadline_us es) \<and>
       mset es = {#e \<in># mset (wakers c). deadline_us e \<le> now_us c + us#} \<and>
       mset (wakers c') = {#e \<in># mset (wakers c). \<not> deadline_us e \<le> now_us c + us#})"
proof -
  have now: "add_u64 p (now_us c) us = Inr n \<Longrightarrow> n = now_us c + us" for n
    by (auto simp: add_u64_def split: if_splits)
  let ?w = "wake_due (now_us c + us) (wakers c)"
  from assms now have "woken = map waker (fst ?w)" "c' = c\<lparr>now_us := now_us c + us, wakers := snd ?w\<rparr>"
    by (auto simp: tick_def and_then_eq_Inr case_prod_beta)
  with wh.drains_due [OF wake_due_drains [of "now_us c + us" "wakers c"]] show ?thesis
    by (intro conjI exI [of _ "fst ?w"]) simp_all
qed

theorem tick_wakes_exactly_due_witness:
  "\<exists>woken c'. tick Debug 7 \<lparr>now_us = 1, paused = False, step_us = 5,
       wakers = [\<lparr>deadline_us = 9, waker = ''late''\<rparr>, \<lparr>deadline_us = 8, waker = ''due''\<rparr>]\<rparr> = Inr (woken, c') \<and>
     length woken = 1"
proof -
  let ?c = "\<lparr>now_us = 1, paused = False, step_us = 5,
       wakers = [\<lparr>deadline_us = 9, waker = ''late''\<rparr>, \<lparr>deadline_us = 8, waker = ''due''\<rparr>]\<rparr>"
  obtain woken c' where t: "tick Debug 7 ?c = Inr (woken, c')"
    by (cases "wake_due 8 (wakers ?c)") (simp add: tick_def add_u64_def)
  from tick_wakes_exactly_due [OF t] obtain es where
    "woken = map waker es" "mset es = {#\<lparr>deadline_us = 8, waker = ''due''\<rparr>#}"
    by auto
  then have "length woken = 1" by (metis length_map size_mset size_single)
  with t show ?thesis by blast
qed


text \<open>No sleep is lost. A sleep that was polled before its deadline is woken by the first tick
  that reaches the deadline, and stays registered through every tick before it; polled again,
  it is ready exactly when the deadline has been reached.\<close>

theorem sleep_woken_at_deadline:
  assumes "\<lparr>deadline_us = d, waker = w\<rparr> \<in># mset (wakers c)" "tick p us c = Inr (woken, c')"
  shows "(d \<le> now_us c' \<longrightarrow> w \<in> set woken) \<and>
    (\<not> d \<le> now_us c' \<longrightarrow> \<lparr>deadline_us = d, waker = w\<rparr> \<in># mset (wakers c')) \<and>
    (fst (poll_sleep d w c') \<longleftrightarrow> d \<le> now_us c')"
proof -
  have now: "add_u64 p (now_us c) us = Inr n \<Longrightarrow> n = now_us c + us" for n
    by (auto simp: add_u64_def split: if_splits)
  let ?e = "\<lparr>deadline_us = d, waker = w\<rparr>" and ?w = "wake_due (now_us c + us) (wakers c)"
  from assms(2) now have eq: "woken = map waker (fst ?w)" "now_us c' = now_us c + us" "wakers c' = snd ?w"
    by (auto simp: tick_def and_then_eq_Inr case_prod_beta)
  have due: "mset (fst ?w) = {#e \<in># mset (wakers c). deadline_us e \<le> now_us c + us#}"
      "mset (snd ?w) = {#e \<in># mset (wakers c). \<not> deadline_us e \<le> now_us c + us#}"
    using wh.drains_due [OF wake_due_drains [of "now_us c + us" "wakers c"]] by simp_all
  have "w \<in> set woken" if "d \<le> now_us c'"
  proof -
    have "?e \<in># mset (fst ?w)" unfolding due using assms(1) that eq(2) by simp
    then have "?e \<in> set (fst ?w)" by simp
    then show ?thesis using eq(1) by force
  qed
  moreover have "?e \<in># mset (wakers c')" if "\<not> d \<le> now_us c'"
    unfolding eq(3) due using assms(1) that eq(2) by simp
  moreover have "fst (poll_sleep d w c') \<longleftrightarrow> d \<le> now_us c'" by (simp add: poll_sleep_def sleep_ready_def)
  ultimately show ?thesis by blast
qed

theorem sleep_woken_at_deadline_witness:
  "\<exists>c1 woken c2. poll_sleep 8 ''sleeper'' clock_new = (False, c1) \<and>
     tick Debug 9 c1 = Inr (woken, c2) \<and> ''sleeper'' \<in> set woken"
proof -
  obtain c1 where c1: "poll_sleep 8 ''sleeper'' clock_new = (False, c1)"
    by (simp add: poll_sleep_def sleep_ready_def clock_new_def)
  then have reg: "\<lparr>deadline_us = 8, waker = ''sleeper''\<rparr> \<in># mset (wakers c1)" and now: "now_us c1 = 0"
    by (auto simp: poll_sleep_def sleep_ready_def register_waker_def clock_new_def heap_push_def split: if_splits)
  obtain woken c2 where t: "tick Debug 9 c1 = Inr (woken, c2)"
    using now by (cases "wake_due 9 (wakers c1)") (simp add: tick_def add_u64_def)
  have "now_us c2 = 9" using t now by (auto simp: tick_def add_u64_def case_prod_beta)
  with sleep_woken_at_deadline [OF reg t] c1 t show ?thesis by auto
qed

section \<open>Polling is two steps\<close>

text \<open>
  \<open>poll\<close> reads the time and then registers its waker; the clock can tick in between, which \<open>poll_sleep\<close>
  leaves out. A sleep that finds its deadline in the future and is registered after it has passed is not
  lost: the next tick wakes it, however short (on a paused clock, not before).
\<close>

lemma late_registration_woken:
  assumes "tick p us (register_waker d w c) = Inr (woken, c')" "d \<le> now_us c"
    "unat (now_us c) + unat us < 2 ^ 64"
  shows "w \<in> set woken"
proof -
  have reg: "\<lparr>deadline_us = d, waker = w\<rparr> \<in># mset (wakers (register_waker d w c))"
    by (simp add: register_waker_def heap_push_def)
  have "now_us c' = now_us c + us"
    using tick_time [OF assms(1)] by (simp add: register_waker_def)
  moreover have "d \<le> now_us c + us"
    using assms(2,3) unat_add_no_overflow [of "now_us c" us] by (simp add: word_le_nat_alt)
  ultimately show ?thesis using sleep_woken_at_deadline [OF reg assms(1)] by simp
qed

end
