(* ===== verification/SimNetwork.thy ===== *)
theory SimNetwork
  imports Protocol SimClock
begin

text \<open>
  The simulated network, \<open>raft-simulator/src/network.rs\<close>: every live node has registered the
  sending end of its incoming channel; a message passes the checks of the fault pipeline and
  is pushed into the channel, at once or after the latency. Channels are bounded queues with
  an id; a channel whose receiver is gone is closed. Probabilities are compared only, so they
  are of any ordered type; the random number is a parameter of the delivery.
\<close>

section \<open>The state\<close>

record 'f NetworkConfig =
  drop_rate :: 'f
  latency_ms :: u64

record Channel =
  queue :: "(NodeId \<times> Message) list"
  capacity :: nat

text \<open>A delayed message: its latency, the channel it was meant for, sender and message.\<close>

record Flight =
  flight_ms :: u64
  flight_channel :: nat
  flight_from :: NodeId
  flight_msg :: Message

record 'f Network =
  senders :: "NodeId \<Rightarrow> nat option"
  partitions :: "(NodeId \<times> NodeId) set"
  net_config :: "'f NetworkConfig"
  channels :: "nat \<Rightarrow> Channel option"
  in_flight :: "Flight list"

definition network_new :: "'f::{zero,one,linorder} Network" where
  "network_new = \<lparr>senders = (\<lambda>_. None), partitions = {},
     net_config = \<lparr>drop_rate = 0, latency_ms = 0\<rparr>, channels = (\<lambda>_. None), in_flight = []\<rparr>"

definition register :: "NodeId \<Rightarrow> nat \<Rightarrow> 'f Network \<Rightarrow> 'f Network" where
  "register node_id tx net = net\<lparr>senders := (senders net)(node_id := Some tx)\<rparr>"

definition deregister :: "NodeId \<Rightarrow> 'f Network \<Rightarrow> 'f Network" where
  "deregister node_id net = net\<lparr>senders := (senders net)(node_id := None)\<rparr>"

definition partition_link :: "NodeId \<Rightarrow> NodeId \<Rightarrow> 'f Network \<Rightarrow> 'f Network" where
  "partition_link a b net = net\<lparr>partitions := insert (b, a) (insert (a, b) (partitions net))\<rparr>"

definition heal_link :: "NodeId \<Rightarrow> NodeId \<Rightarrow> 'f Network \<Rightarrow> 'f Network" where
  "heal_link a b net = net\<lparr>partitions := partitions net - {(a, b)} - {(b, a)}\<rparr>"

definition set_drop_rate :: "'f::{zero,one,linorder} \<Rightarrow> 'f Network \<Rightarrow> 'f Network" where
  "set_drop_rate rate net = net\<lparr>net_config := (net_config net)\<lparr>drop_rate := clamp rate 0 1\<rparr>\<rparr>"

definition set_latency_ms :: "u64 \<Rightarrow> 'f Network \<Rightarrow> 'f Network" where
  "set_latency_ms ms net = net\<lparr>net_config := (net_config net)\<lparr>latency_ms := ms\<rparr>\<rparr>"

section \<open>Delivery\<close>

definition try_send :: "nat \<Rightarrow> NodeId \<times> Message \<Rightarrow> 'f Network \<Rightarrow> 'f Network" where
  "try_send ch m net =
     (case channels net ch of
        None \<Rightarrow> net
      | Some c \<Rightarrow>
          if length (queue c) < capacity c
          then net\<lparr>channels := (channels net)(ch := Some (c\<lparr>queue := queue c @ [m]\<rparr>))\<rparr>
          else net)"

definition deliver ::
    "'f::{zero,one,linorder} \<Rightarrow> NodeId \<Rightarrow> NodeId \<Rightarrow> Message \<Rightarrow> 'f Network \<Rightarrow> 'f Network" where
  "deliver rnd frm to msg net =
     (case senders net to of
        None \<Rightarrow> net
      | Some tx \<Rightarrow>
          if (frm, to) \<in> partitions net then net
          else (let rate = drop_rate (net_config net); latency = latency_ms (net_config net) in
            if rate > 0 \<and> rnd < rate then net
            else if latency > 0
              then net\<lparr>in_flight := in_flight net @
                [\<lparr>flight_ms = latency, flight_channel = tx, flight_from = frm, flight_msg = msg\<rparr>]\<rparr>
            else try_send tx (frm, msg) net))"

text \<open>The latency task of the \<open>i\<close>-th message in flight ends its sleep.\<close>

definition arrive :: "nat \<Rightarrow> 'f Network \<Rightarrow> 'f Network" where
  "arrive i net =
     (if i < length (in_flight net)
      then (let f = in_flight net ! i in
        try_send (flight_channel f) (flight_from f, flight_msg f)
          (net\<lparr>in_flight := take i (in_flight net) @ drop (Suc i) (in_flight net)\<rparr>))
      else net)"

lemmas network_defs = register_def deregister_def partition_link_def heal_link_def set_drop_rate_def
  set_latency_ms_def try_send_def deliver_def arrive_def

section \<open>When a message reaches its channel\<close>

text \<open>The message passes every stage of the pipeline that can drop it.\<close>

definition passes :: "'f::{zero,one,linorder} \<Rightarrow> NodeId \<Rightarrow> NodeId \<Rightarrow> 'f Network \<Rightarrow> bool" where
  "passes rnd frm to net \<longleftrightarrow> senders net to \<noteq> None \<and> (frm, to) \<notin> partitions net \<and>
     \<not> (0 < drop_rate (net_config net) \<and> rnd < drop_rate (net_config net))"

definition has_room :: "nat \<Rightarrow> 'f Network \<Rightarrow> bool" where
  "has_room ch net \<longleftrightarrow> (case channels net ch of None \<Rightarrow> False | Some c \<Rightarrow> length (queue c) < capacity c)"

lemma try_send_effect:
  "try_send ch m net = (if has_room ch net
     then net\<lparr>channels := (channels net)(ch := Some ((the (channels net ch))
       \<lparr>queue := queue (the (channels net ch)) @ [m]\<rparr>))\<rparr>
     else net)"
  by (simp add: try_send_def has_room_def split: option.split)

text \<open>What a delivery does, stage by stage.\<close>

lemma deliver_cases:
  "deliver rnd frm to msg net =
     (if \<not> passes rnd frm to net then net
      else if 0 < latency_ms (net_config net)
        then net\<lparr>in_flight := in_flight net @ [\<lparr>flight_ms = latency_ms (net_config net),
          flight_channel = the (senders net to), flight_from = frm, flight_msg = msg\<rparr>]\<rparr>
      else try_send (the (senders net to)) (frm, msg) net)"
  by (auto simp: deliver_def passes_def Let_def split: option.split)

section \<open>The network neither forges nor duplicates\<close>

text \<open>Everything that can happen to the network, and what it hands out to the receivers.\<close>

datatype 'f NetOp =
    Open nat nat
  | Register NodeId nat
  | Deregister NodeId
  | Partition NodeId NodeId
  | Heal NodeId NodeId
  | SetDropRate 'f
  | SetLatency u64
  | SendMsg 'f NodeId NodeId Message
  | Arrive nat
  | Receive nat

fun net_op :: "'f::{zero,one,linorder} NetOp \<Rightarrow> 'f Network \<Rightarrow> 'f Network" where
  "net_op (Open ch cap) net = net\<lparr>channels := (channels net)(ch := Some \<lparr>queue = [], capacity = cap\<rparr>)\<rparr>"
| "net_op (Register i tx) net = register i tx net"
| "net_op (Deregister i) net = deregister i net"
| "net_op (Partition a b) net = partition_link a b net"
| "net_op (Heal a b) net = heal_link a b net"
| "net_op (SetDropRate r) net = set_drop_rate r net"
| "net_op (SetLatency ms) net = set_latency_ms ms net"
| "net_op (SendMsg rnd frm to msg) net = deliver rnd frm to msg net"
| "net_op (Arrive i) net = arrive i net"
| "net_op (Receive ch) net =
     (case channels net ch of None \<Rightarrow> net
      | Some c \<Rightarrow> net\<lparr>channels := (channels net)(ch := Some (c\<lparr>queue := tl (queue c)\<rparr>))\<rparr>)"

fun sent_by :: "'f NetOp list \<Rightarrow> (NodeId \<times> Message) list" where
  "sent_by [] = []"
| "sent_by (SendMsg rnd frm to msg # ops) = (frm, msg) # sent_by ops"
| "sent_by (_ # ops) = sent_by ops"

text \<open>What waits for the receiver of a channel: its queue and the messages in flight to it.\<close>

definition queued :: "nat \<Rightarrow> 'f Network \<Rightarrow> (NodeId \<times> Message) multiset" where
  "queued ch net = (case channels net ch of None \<Rightarrow> {#} | Some c \<Rightarrow> mset (queue c))"

definition flying :: "nat \<Rightarrow> 'f Network \<Rightarrow> (NodeId \<times> Message) multiset" where
  "flying ch net = image_mset (\<lambda>f. (flight_from f, flight_msg f))
     {#f \<in># mset (in_flight net). flight_channel f = ch#}"

lemma queued_try_send: "queued ch (try_send k m net) \<subseteq># queued ch net + (if k = ch then {#m#} else {#})"
  by (auto simp: queued_def try_send_def split: option.split)

lemma flying_try_send [simp]: "flying ch (try_send k m net) = flying ch net"
  by (simp add: flying_def try_send_def split: option.split)

definition content :: "nat \<Rightarrow> 'f Network \<Rightarrow> (NodeId \<times> Message) multiset" where
  "content ch net = queued ch net + flying ch net"

lemma content_try_send:
  "content ch (try_send k m net) \<subseteq># content ch net + (if k = ch then {#m#} else {#})"
proof -
  have "queued ch (try_send k m net) + flying ch net \<subseteq>#
      (queued ch net + (if k = ch then {#m#} else {#})) + flying ch net"
    by (rule subset_mset.add_right_mono [OF queued_try_send])
  then show ?thesis by (simp add: content_def ac_simps)
qed

lemma content_fly:
  "content ch (net\<lparr>in_flight := in_flight net @ [f]\<rparr>) = content ch net +
     (if flight_channel f = ch then {#(flight_from f, flight_msg f)#} else {#})"
  by (simp add: content_def queued_def flying_def)

lemma content_deliver:
  "content ch (deliver rnd frm to msg net) \<subseteq># add_mset (frm, msg) (content ch net)"
proof -
  have up: "content ch net + (if b then {#(frm, msg)#} else {#}) \<subseteq># add_mset (frm, msg) (content ch net)" for b
    by (cases b) simp_all
  have same: "content ch net \<subseteq># add_mset (frm, msg) (content ch net)" using up [of False] by simp
  have sent: "content ch (try_send k (frm, msg) net) \<subseteq># add_mset (frm, msg) (content ch net)" for k
    by (rule subset_mset.order_trans [OF content_try_send up])
  have flown: "content ch (net\<lparr>in_flight := in_flight net @ [\<lparr>flight_ms = l, flight_channel = k,
      flight_from = frm, flight_msg = msg\<rparr>]\<rparr>) \<subseteq># add_mset (frm, msg) (content ch net)" for k l
    unfolding content_fly using up [of "k = ch"] by simp
  show ?thesis unfolding deliver_cases using same sent flown by (auto split: if_splits)
qed

lemma content_arrive: "content ch (arrive i net) \<subseteq># content ch net"
proof (cases "i < length (in_flight net)")
  case False
  then show ?thesis by (simp add: arrive_def)
next
  case True
  let ?f = "in_flight net ! i" and ?rest = "take i (in_flight net) @ drop (Suc i) (in_flight net)"
  let ?net = "net\<lparr>in_flight := ?rest\<rparr>" and ?m = "(flight_from (in_flight net ! i), flight_msg (in_flight net ! i))"
  have "mset (in_flight net) = add_mset ?f (mset ?rest)"
    using arg_cong [OF id_take_nth_drop [OF True], of mset] by simp
  then have split: "content ch net = content ch ?net + (if flight_channel ?f = ch then {#?m#} else {#})"
    by (simp add: content_def queued_def flying_def)
  have "arrive i net = try_send (flight_channel ?f) ?m ?net"
    using True by (simp add: arrive_def Let_def)
  with content_try_send [of ch "flight_channel ?f" ?m ?net] split show ?thesis by simp
qed

lemma content_receive: "content ch (net_op (Receive k) net) \<subseteq># content ch net"
proof (cases "channels net k")
  case (Some c)
  have "mset (tl xs) \<subseteq># mset xs" for xs :: "(NodeId \<times> Message) list" by (cases xs) auto
  with Some show ?thesis
    by (auto simp: content_def queued_def flying_def)
qed simp

lemma content_net_op:
  "content ch (net_op a net) \<subseteq># content ch net + mset (sent_by [a])"
proof (cases a)
  case (SendMsg rnd frm to msg)
  then show ?thesis using content_deliver [of ch rnd frm to msg net] by simp
next
  case (Arrive i)
  then show ?thesis using content_arrive by simp
next
  case (Receive k)
  then show ?thesis using content_receive by simp
qed (auto simp: content_def queued_def flying_def register_def deregister_def partition_link_def
    heal_link_def set_drop_rate_def set_latency_ms_def)

text \<open>C35: the simulated network loses messages but never forges or duplicates them: after any
  sequence of operations on a fresh network, the messages queued in a channel and in flight to
  it, with their claimed senders and counted with multiplicity, are among the messages that
  were sent.\<close>

theorem network_neither_forges_nor_duplicates:
  "content ch (fold net_op ops network_new) \<subseteq># mset (sent_by ops)"
proof -
  have "content ch (fold net_op ops net) \<subseteq># content ch net + mset (sent_by ops)"
    for net :: "'a::{zero,one,linorder} Network"
  proof (induction ops arbitrary: net)
    case (Cons a ops)
    have "mset (sent_by (a # ops)) = mset (sent_by [a]) + mset (sent_by ops)"
      by (cases a) simp_all
    moreover have "content ch (fold net_op ops (net_op a net)) \<subseteq>#
        content ch net + mset (sent_by [a]) + mset (sent_by ops)"
      by (rule subset_mset.order_trans [OF Cons.IH subset_mset.add_right_mono [OF content_net_op]])
    ultimately show ?case by (simp add: add.assoc)
  qed simp
  from this [of network_new] show ?thesis
    by (simp add: content_def queued_def flying_def network_new_def)
qed

end
