(* ===== verification/SimCluster.thy ===== *)
theory SimCluster
  imports SimNetwork NodeRuntime RaftSystem
begin

text \<open>
  The simulated cluster, \<open>raft-simulator/src/cluster.rs\<close> and \<open>state_machine.rs\<close>: a key-value
  store per node, the handles of all nodes, and the operations that kill, restart and isolate
  them. A handle owns the running node; killing it drops the node and with it the receiving
  end of its incoming channel.
\<close>

section \<open>The key-value store\<close>

record KeyValueStore =
  data :: "string \<Rightarrow> string option"

definition kv_new :: KeyValueStore where
  "kv_new = \<lparr>data = (\<lambda>_. None)\<rparr>"

definition kv_apply :: "Command \<Rightarrow> KeyValueStore \<Rightarrow> KeyValueStore" where
  "kv_apply c s =
     (case op c of
        Set k v \<Rightarrow> s\<lparr>data := (data s)(k := Some v)\<rparr>
      | Delete k \<Rightarrow> s\<lparr>data := (data s)(k := None)\<rparr>)"

text \<open>The abstract store: what the last command on the key left there.\<close>

definition last_write :: "Command list \<Rightarrow> string \<Rightarrow> string option" where
  "last_write cs k =
     (case List.find (\<lambda>c. op_key (op c) = k) (rev cs) of
        None \<Rightarrow> None
      | Some c \<Rightarrow> (case op c of Set _ v \<Rightarrow> Some v | Delete _ \<Rightarrow> None))"

text \<open>The store is a map in which the last write wins: after applying any sequence of commands
  to an empty store, a key holds the value of the last command on it, if that was a \<open>Set\<close>, and
  nothing if it was a \<open>Delete\<close> or there was none.\<close>

theorem kv_last_write_wins:
  "data (fold kv_apply cs kv_new) k = last_write cs k"
proof (induction cs rule: rev_induct)
  case Nil
  show ?case by (simp add: kv_new_def last_write_def)
next
  case (snoc c cs)
  then show ?case by (cases "op c") (auto simp: kv_apply_def last_write_def)
qed

section \<open>Nodes and their handles\<close>

type_synonym SimNode = "(KeyValueStore, unit, NodeId) Node"

record NodeHandle =
  h_metrics :: MetricsInner
  h_clients :: "(Command \<times> nat) list"
  h_task :: "SimNode option"
  alive :: bool

record ('f, 'w) Cluster =
  handles :: "NodeId \<Rightarrow> NodeHandle option"
  network :: "'f Network"
  clock :: "'w SimulatedClock"
  node_ids :: "NodeId list"
  node_config :: NodeConfig
  next_channel :: nat

text \<open>\<open>mpsc::channel\<close> makes an open, empty queue and panics when its capacity is 0.\<close>

definition mpsc_channel :: "nat \<Rightarrow> ('f, 'w) Cluster \<Rightarrow> panic + nat \<times> ('f, 'w) Cluster" where
  "mpsc_channel cap cl =
     (if cap = 0 then Inl AssertFailed
      else Inr (next_channel cl, cl\<lparr>next_channel := next_channel cl + 1,
        network := (network cl)\<lparr>channels := (channels (network cl))
          (next_channel cl := Some \<lparr>queue = [], capacity = cap\<rparr>)\<rparr>\<rparr>))"

definition start_node ::
    "profile \<Rightarrow> NodeId \<Rightarrow> NodeId list \<Rightarrow> ('f, 'w) Cluster \<Rightarrow> panic + NodeHandle \<times> ('f, 'w) Cluster" where
  "start_node p i ps cl =
     and_then (mpsc_channel (incoming_channel_capacity (node_config cl)) cl) (\<lambda>(ch, cl1).
     if client_channel_capacity (node_config cl1) = 0 then Inl AssertFailed
     else
       (let cl2 = cl1\<lparr>network := register i ch (network cl1)\<rparr> in
        and_then (node_new p i ps None i () kv_new (now_us (clock cl2)) (node_config cl2) (metrics_new i))
          (\<lambda>n. Inr (\<lparr>h_metrics = metrics_new i, h_clients = [], h_task = Some n, alive = True\<rparr>, cl2))))"

fun start_nodes :: "profile \<Rightarrow> NodeId list \<Rightarrow> ('f, 'w) Cluster \<Rightarrow> panic + ('f, 'w) Cluster" where
  "start_nodes p [] cl = Inr cl"
| "start_nodes p (i # is) cl =
     and_then (start_node p i (others (node_ids cl) i) cl) (\<lambda>(h, cl').
     start_nodes p is (cl'\<lparr>handles := (handles cl')(i := Some h)\<rparr>))"

definition cluster_new ::
    "profile \<Rightarrow> NodeId list \<Rightarrow> 'w SimulatedClock \<Rightarrow> NodeConfig \<Rightarrow>
     panic + ('f::{zero,one,linorder}, 'w) Cluster" where
  "cluster_new p ids c config =
     start_nodes p ids \<lparr>handles = (\<lambda>_. None), network = network_new, clock = c, node_ids = ids,
       node_config = config, next_channel = 0\<rparr>"

text \<open>Aborting the task drops the receiving end of the node's channel: the channel closes.\<close>

definition close_channel :: "NodeId \<Rightarrow> 'f Network \<Rightarrow> 'f Network" where
  "close_channel i nw =
     (case senders nw i of None \<Rightarrow> nw
      | Some ch \<Rightarrow> nw\<lparr>channels := (channels nw)(ch := None)\<rparr>)"

definition kill_node :: "NodeId \<Rightarrow> ('f, 'w) Cluster \<Rightarrow> ('f, 'w) Cluster" where
  "kill_node i cl =
     (case handles cl i of
        None \<Rightarrow> cl
      | Some h \<Rightarrow>
          if \<not> alive h then cl
          else cl\<lparr>handles := (handles cl)(i := Some (h\<lparr>h_task := None, alive := False\<rparr>)),
                  network := deregister i (close_channel i (network cl))\<rparr>)"

definition restart_node :: "profile \<Rightarrow> NodeId \<Rightarrow> ('f, 'w) Cluster \<Rightarrow> panic + ('f, 'w) Cluster" where
  "restart_node p i cl =
     (if (case handles cl i of None \<Rightarrow> False | Some h \<Rightarrow> alive h) then Inr cl
      else and_then (start_node p i (others (node_ids cl) i) cl) (\<lambda>(h, cl').
        Inr (cl'\<lparr>handles := (handles cl')(i := Some h)\<rparr>)))"

definition isolate :: "NodeId \<Rightarrow> ('f, 'w) Cluster \<Rightarrow> ('f, 'w) Cluster" where
  "isolate i cl = cl\<lparr>network :=
     fold (\<lambda>j nw. if j \<noteq> i then partition_link i j nw else nw) (node_ids cl) (network cl)\<rparr>"

definition unisolate :: "NodeId \<Rightarrow> ('f, 'w) Cluster \<Rightarrow> ('f, 'w) Cluster" where
  "unisolate i cl = cl\<lparr>network :=
     fold (\<lambda>j nw. if j \<noteq> i then heal_link i j nw else nw) (node_ids cl) (network cl)\<rparr>"

text \<open>The settings are those of the shared network and clock.\<close>

definition cluster_set_drop_rate :: "'f::{zero,one,linorder} \<Rightarrow> ('f, 'w) Cluster \<Rightarrow> ('f, 'w) Cluster" where [simp]:
  "cluster_set_drop_rate rate cl = cl\<lparr>network := set_drop_rate rate (network cl)\<rparr>"

definition cluster_drop_rate :: "('f, 'w) Cluster \<Rightarrow> 'f" where [simp]:
  "cluster_drop_rate cl = drop_rate (net_config (network cl))"

definition cluster_set_latency_ms :: "u64 \<Rightarrow> ('f, 'w) Cluster \<Rightarrow> ('f, 'w) Cluster" where [simp]:
  "cluster_set_latency_ms ms cl = cl\<lparr>network := set_latency_ms ms (network cl)\<rparr>"

definition cluster_latency_ms :: "('f, 'w) Cluster \<Rightarrow> u64" where [simp]:
  "cluster_latency_ms cl = latency_ms (net_config (network cl))"

definition cluster_speed_us :: "('f, 'w) Cluster \<Rightarrow> u64" where [simp]:
  "cluster_speed_us cl = step_us (clock cl)"

definition cluster_set_speed_us :: "u64 \<Rightarrow> ('f, 'w) Cluster \<Rightarrow> ('f, 'w) Cluster" where [simp]:
  "cluster_set_speed_us us cl = cl\<lparr>clock := set_speed_us us (clock cl)\<rparr>"

text \<open>A submitted command waits in the client channel of a live node that has room.\<close>

definition submit ::
    "NodeId \<Rightarrow> Command \<Rightarrow> nat \<Rightarrow> ('f, 'w) Cluster \<Rightarrow> ('f, 'w) Cluster option" where
  "submit i cmd client cl =
     (case handles cl i of
        None \<Rightarrow> None
      | Some h \<Rightarrow>
          if \<not> alive h then None
          else if length (h_clients h) < client_channel_capacity (node_config cl)
          then Some (cl\<lparr>handles := (handles cl)
            (i := Some (h\<lparr>h_clients := h_clients h @ [(cmd, client)]\<rparr>))\<rparr>)
          else None)"

section \<open>Isolation\<close>

lemma partitions_isolate:
  "partitions (network (isolate i cl)) =
     partitions (network cl) \<union> {(i, j) | j. j \<in> set (node_ids cl) \<and> j \<noteq> i} \<union>
     {(j, i) | j. j \<in> set (node_ids cl) \<and> j \<noteq> i}"
proof -
  have "partitions (fold (\<lambda>j nw. if j \<noteq> i then partition_link i j nw else nw) js nw) =
      partitions nw \<union> {(i, j) | j. j \<in> set js \<and> j \<noteq> i} \<union> {(j, i) | j. j \<in> set js \<and> j \<noteq> i}" for js nw
    by (induction js arbitrary: nw) (auto simp: partition_link_def)
  then show ?thesis by (simp add: isolate_def)
qed

lemma partitions_unisolate:
  "partitions (network (unisolate i cl)) =
     partitions (network cl) - {(i, j) | j. j \<in> set (node_ids cl) \<and> j \<noteq> i} -
     {(j, i) | j. j \<in> set (node_ids cl) \<and> j \<noteq> i}"
proof -
  have "partitions (fold (\<lambda>j nw. if j \<noteq> i then heal_link i j nw else nw) js nw) =
      partitions nw - {(i, j) | j. j \<in> set js \<and> j \<noteq> i} - {(j, i) | j. j \<in> set js \<and> j \<noteq> i}" for js nw
    by (induction js arbitrary: nw) (auto simp: heal_link_def)
  then show ?thesis by (simp add: unisolate_def)
qed

text \<open>An isolated node is cut off: whatever is sent between it and another node of the cluster
  from then on has no effect on the network, while the links among the other nodes are as
  before; and lifting the isolation of a node that had no partitioned link restores the links
  exactly.\<close>

theorem isolated_node_cut_off:
  assumes "i \<in> set (node_ids cl)" "j \<in> set (node_ids cl)" "i \<noteq> j"
  shows "deliver rnd i j msg (network (isolate i cl)) = network (isolate i cl) \<and>
    deliver rnd j i msg (network (isolate i cl)) = network (isolate i cl) \<and>
    (\<forall>a b. a \<noteq> i \<and> b \<noteq> i \<longrightarrow>
       ((a, b) \<in> partitions (network (isolate i cl)) \<longleftrightarrow> (a, b) \<in> partitions (network cl))) \<and>
    ((\<forall>k. (i, k) \<notin> partitions (network cl) \<and> (k, i) \<notin> partitions (network cl)) \<longrightarrow>
       partitions (network (unisolate i (isolate i cl))) = partitions (network cl))"
proof -
  have "(i, j) \<in> partitions (network (isolate i cl))" "(j, i) \<in> partitions (network (isolate i cl))"
    using assms by (auto simp: partitions_isolate)
  then have "deliver rnd i j msg (network (isolate i cl)) = network (isolate i cl)"
    "deliver rnd j i msg (network (isolate i cl)) = network (isolate i cl)"
    by (simp_all add: deliver_cases passes_def)
  moreover have "node_ids (isolate i cl) = node_ids cl" by (simp add: isolate_def)
  ultimately show ?thesis
    by (auto simp: partitions_isolate partitions_unisolate)
qed


section \<open>The life cycle of nodes\<close>

text \<open>
  A node is alive exactly when it has a running task and exactly when it is registered with the
  network; its channel is open and not shared.
\<close>

fun node_status :: "NodeHandle option \<Rightarrow> nat option \<Rightarrow> bool" where
  "node_status None tx = (tx = None)"
| "node_status (Some h) tx =
     (if alive h then tx \<noteq> None \<and> h_task h \<noteq> None else tx = None \<and> h_task h = None)"

definition lifecycle_ok :: "('f, 'w) Cluster \<Rightarrow> bool" where
  "lifecycle_ok cl \<longleftrightarrow>
     (\<forall>i. node_status (handles cl i) (senders (network cl) i)) \<and>
     (\<forall>i ch. senders (network cl) i = Some ch \<longrightarrow>
        ch < next_channel cl \<and> channels (network cl) ch \<noteq> None) \<and>
     (\<forall>i j ch. senders (network cl) i = Some ch \<longrightarrow> senders (network cl) j = Some ch \<longrightarrow> i = j)"

lemma node_status_alive: "node_status (Some h) tx \<Longrightarrow> alive h \<Longrightarrow> \<exists>ch. tx = Some ch"
  by simp

lemma start_node_effect:
  assumes "start_node p i ps cl = Inr (h, cl')"
  shows "alive h \<and> (\<exists>n. h_task h = Some n \<and> raft n = raft_init i ps \<and> state_machine n = kv_new \<and>
      pending n = []) \<and>
    handles cl' = handles cl \<and> next_channel cl' = next_channel cl + 1 \<and> node_ids cl' = node_ids cl \<and>
    senders (network cl') = (senders (network cl))(i := Some (next_channel cl)) \<and>
    channels (network cl') = (channels (network cl))(next_channel cl :=
      Some \<lparr>queue = [], capacity = incoming_channel_capacity (node_config cl)\<rparr>) \<and>
    partitions (network cl') = partitions (network cl)"
  using assms
  by (auto simp: start_node_def mpsc_channel_def node_new_def and_then_eq_Inr register_def Let_def
      dest!: raft_new_Inr split: if_splits)

lemma lifecycle_ok_start:
  assumes "lifecycle_ok cl" "start_node p i ps cl = Inr (h, cl')"
  shows "lifecycle_ok (cl'\<lparr>handles := (handles cl')(i := Some h)\<rparr>)"
proof -
  note eff = start_node_effect [OF assms(2)]
  have old: "ch < next_channel cl \<and> channels (network cl) ch \<noteq> None" if "senders (network cl) j = Some ch" for j ch
    using assms(1) that by (simp add: lifecycle_ok_def)
  then have fresh: "senders (network cl) j \<noteq> Some (next_channel cl)" for j by fastforce
  with eff assms(1) old show ?thesis
    by (auto simp: lifecycle_ok_def less_Suc_eq)
qed

lemma lifecycle_ok_kill:
  assumes "lifecycle_ok cl"
  shows "lifecycle_ok (kill_node i cl)"
proof (cases "handles cl i")
  case (Some h)
  show ?thesis
  proof (cases "alive h")
    case True
    have "node_status (Some h) (senders (network cl) i)"
      using assms Some by (metis lifecycle_ok_def)
    from node_status_alive [OF this True] obtain ch where ch: "senders (network cl) i = Some ch"
      by blast
    with Some True have "kill_node i cl = cl\<lparr>handles := (handles cl)(i := Some (h\<lparr>h_task := None, alive := False\<rparr>)),
        network := (network cl)\<lparr>senders := (senders (network cl))(i := None),
          channels := (channels (network cl))(ch := None)\<rparr>\<rparr>"
      by (simp add: kill_node_def close_channel_def deregister_def)
    with assms ch show ?thesis by (simp add: lifecycle_ok_def) blast
  next
    case False
    with Some assms show ?thesis by (simp add: kill_node_def)
  qed
qed (use assms in \<open>simp add: kill_node_def\<close>)

text \<open>The node that runs under an id.\<close>

definition running :: "('f, 'w) Cluster \<Rightarrow> NodeId \<Rightarrow> SimNode option" where
  "running cl i = (case handles cl i of None \<Rightarrow> None | Some h \<Rightarrow> h_task h)"

lemma running_kill_node:
  assumes "lifecycle_ok cl"
  shows "running (kill_node i cl) i = None"
proof -
  have "node_status (handles cl i) (senders (network cl) i)" using assms by (simp add: lifecycle_ok_def)
  then show ?thesis by (auto simp: running_def kill_node_def split: option.splits if_splits)
qed

lemma lifecycle_ok_restart:
  "lifecycle_ok cl \<Longrightarrow> restart_node p i cl = Inr cl' \<Longrightarrow> lifecycle_ok cl'"
  by (auto simp: restart_node_def and_then_eq_Inr intro: lifecycle_ok_start split: if_splits)

lemma fold_network_frame:
  assumes "\<And>j nw. senders (f j nw) = senders nw \<and> channels (f j nw) = channels nw"
  shows "senders (fold f js nw) = senders nw" "channels (fold f js nw) = channels nw"
  using assms by (induction js arbitrary: nw) simp_all

lemma lifecycle_ok_network:
  assumes "lifecycle_ok cl" "senders nw = senders (network cl)" "channels nw = channels (network cl)"
  shows "lifecycle_ok (cl\<lparr>network := nw\<rparr>)"
  using assms by (simp add: lifecycle_ok_def)

lemma lifecycle_ok_isolate: "lifecycle_ok cl \<Longrightarrow> lifecycle_ok (isolate i cl)"
  unfolding isolate_def
  by (rule lifecycle_ok_network) (simp_all add: fold_network_frame partition_link_def)

lemma lifecycle_ok_unisolate: "lifecycle_ok cl \<Longrightarrow> lifecycle_ok (unisolate i cl)"
  unfolding unisolate_def
  by (rule lifecycle_ok_network) (simp_all add: fold_network_frame heal_link_def)

lemma lifecycle_ok_submit:
  assumes "lifecycle_ok cl" "submit i c k cl = Some cl'"
  shows "lifecycle_ok cl'"
proof -
  from assms(2) obtain h where h: "handles cl i = Some h"
    "cl' = cl\<lparr>handles := (handles cl)(i := Some (h\<lparr>h_clients := h_clients h @ [(c, k)]\<rparr>))\<rparr>"
    by (auto simp: submit_def split: option.splits if_splits)
  have "node_status (Some h) (senders (network cl) i)" using assms(1) h(1) by (metis lifecycle_ok_def)
  with assms(1) h(2) show ?thesis by (simp add: lifecycle_ok_def)
qed

lemma lifecycle_ok_start_nodes:
  "lifecycle_ok cl \<Longrightarrow> start_nodes p is cl = Inr cl' \<Longrightarrow> lifecycle_ok cl'"
proof (induction "is" arbitrary: cl)
  case (Cons i "is")
  from Cons.prems(2) obtain h cl1 where "start_node p i (others (node_ids cl) i) cl = Inr (h, cl1)"
    "start_nodes p is (cl1\<lparr>handles := (handles cl1)(i := Some h)\<rparr>) = Inr cl'"
    by (auto simp: and_then_eq_Inr)
  with Cons.IH lifecycle_ok_start [OF Cons.prems(1)] show ?case by blast
qed simp

lemma lifecycle_ok_new:
  assumes "cluster_new p ids c config = Inr cl"
  shows "lifecycle_ok cl"
  using assms unfolding cluster_new_def
  by (elim lifecycle_ok_start_nodes [rotated]) (simp add: lifecycle_ok_def network_new_def)

section \<open>Operating the cluster\<close>

datatype ClusterOp =
    Kill NodeId
  | Revive NodeId
  | Isolate NodeId
  | Unisolate NodeId
  | Submit NodeId Command nat

fun cluster_op :: "profile \<Rightarrow> ClusterOp \<Rightarrow> ('f, 'w) Cluster \<Rightarrow> panic + ('f, 'w) Cluster" where
  "cluster_op p (Kill i) cl = Inr (kill_node i cl)"
| "cluster_op p (Revive i) cl = restart_node p i cl"
| "cluster_op p (Isolate i) cl = Inr (isolate i cl)"
| "cluster_op p (Unisolate i) cl = Inr (unisolate i cl)"
| "cluster_op p (Submit i c k) cl = (case submit i c k cl of None \<Rightarrow> Inr cl | Some cl' \<Rightarrow> Inr cl')"

fun operate :: "profile \<Rightarrow> ClusterOp list \<Rightarrow> ('f, 'w) Cluster \<Rightarrow> panic + ('f, 'w) Cluster" where
  "operate p [] cl = Inr cl"
| "operate p (x # xs) cl = and_then (cluster_op p x cl) (operate p xs)"

lemma lifecycle_ok_operate: "lifecycle_ok cl \<Longrightarrow> operate p xs cl = Inr cl' \<Longrightarrow> lifecycle_ok cl'"
proof (induction xs arbitrary: cl)
  case (Cons x xs)
  from Cons.prems(2) obtain cl1 where cl1: "cluster_op p x cl = Inr cl1" "operate p xs cl1 = Inr cl'"
    by (auto simp: and_then_eq_Inr)
  have "lifecycle_ok cl1" using cl1(1) Cons.prems(1)
    by (cases x) (auto intro: lifecycle_ok_kill lifecycle_ok_restart lifecycle_ok_isolate
        lifecycle_ok_unisolate lifecycle_ok_submit split: option.splits)
  with Cons.IH cl1(2) show ?case by blast
qed simp

text \<open>The life cycle of the simulated nodes. After creating a cluster and any sequence of
  kills, restarts, isolations and submissions, a node is alive exactly when it is registered
  with the network, with an open channel of its own, and exactly when it has a running task;
  no message can be delivered to a dead node.\<close>

theorem cluster_lifecycle:
  assumes "cluster_new p ids c config = Inr cl0" "operate p xs cl0 = Inr cl" "handles cl i = Some h"
  shows "(alive h \<longleftrightarrow> (\<exists>ch. senders (network cl) i = Some ch \<and> channels (network cl) ch \<noteq> None)) \<and>
    (alive h \<longleftrightarrow> h_task h \<noteq> None) \<and>
    (\<not> alive h \<longrightarrow> deliver rnd j i msg (network cl) = network cl)"
proof -
  have "lifecycle_ok cl0" by (rule lifecycle_ok_new [OF assms(1)])
  from lifecycle_ok_operate [OF this assms(2)] have "lifecycle_ok cl" .
  then have "node_status (Some h) (senders (network cl) i)"
    "\<And>ch. senders (network cl) i = Some ch \<Longrightarrow> channels (network cl) ch \<noteq> None"
    using assms(3) by (metis lifecycle_ok_def)+
  then show ?thesis by (cases "alive h") (auto simp: deliver_cases passes_def)
qed


text \<open>A cluster of three nodes with the default configuration.\<close>

lemma sample_cluster_new:
  "\<exists>cl :: (nat, unit) Cluster. cluster_new Debug members3 clock_new node_config_default = Inr cl \<and>
     (\<exists>h. handles cl 3 = Some h \<and> alive h)"
  by (simp add: cluster_new_def members3_def start_node_def mpsc_channel_def node_new_def
      node_config_default_def others_def register_def Let_def)

theorem cluster_lifecycle_witness:
  "\<exists>(cl0 :: (nat, unit) Cluster) cl h.
     cluster_new Debug members3 clock_new node_config_default = Inr cl0 \<and>
     operate Debug [Kill 3] cl0 = Inr cl \<and> handles cl 3 = Some h \<and> \<not> alive h \<and> h_task h = None \<and>
     senders (network cl) 3 = None"
proof -
  obtain cl0 :: "(nat, unit) Cluster" and h0 where
    cl0: "cluster_new Debug members3 clock_new node_config_default = Inr cl0"
    and h0: "handles cl0 3 = Some h0" "alive h0"
    using sample_cluster_new by blast
  have op: "operate Debug [Kill 3] cl0 = Inr (kill_node 3 cl0)" by simp
  have h: "handles (kill_node 3 cl0) 3 = Some (h0\<lparr>h_task := None, alive := False\<rparr>)"
    "senders (network (kill_node 3 cl0)) 3 = None"
    using h0 by (simp_all add: kill_node_def deregister_def)
  from cluster_lifecycle [OF cl0 op h(1)] cl0 op h show ?thesis by auto
qed

theorem isolated_node_cut_off_witness:
  "\<exists>cl :: (nat, unit) Cluster. node_ids cl = members3 \<and>
     deliver 0 1 3 (MRequestVote \<lparr>rv_term = 1, candidate_id = 1, rv_last_log_index = 0, rv_last_log_term = 0\<rparr>)
       (network (isolate 1 cl)) = network (isolate 1 cl)"
proof -
  let ?cl = "\<lparr>handles = (\<lambda>_. None), network = network_new, clock = clock_new, node_ids = members3,
       node_config = node_config_default, next_channel = 0\<rparr> :: (nat, unit) Cluster"
  have mem: "1 \<in> set (node_ids ?cl)" "3 \<in> set (node_ids ?cl)" "(1 :: NodeId) \<noteq> 3"
    by (simp_all add: members3_def)
  have "node_ids ?cl = members3" by simp
  with isolated_node_cut_off [OF mem] show ?thesis by blast
qed

section \<open>A restart forgets the votes\<close>

text \<open>A restarted node starts from nothing: term 0, no vote, an empty log and an empty store,
  whatever it had persisted or promised before it was killed.\<close>

theorem restart_forgets_everything:
  assumes "handles cl i = Some h" "\<not> alive h" "restart_node p i cl = Inr cl'"
  shows "\<exists>h' n. handles cl' i = Some h' \<and> alive h' \<and> h_task h' = Some n \<and>
    raft n = raft_init i (others (node_ids cl) i) \<and> cterm (raft n) = 0 \<and> vote (raft n) = None \<and>
    rlog (raft n) = [] \<and> state_machine n = kv_new"
proof -
  from assms obtain h' cl1 where st: "start_node p i (others (node_ids cl) i) cl = Inr (h', cl1)"
    and cl': "cl' = cl1\<lparr>handles := (handles cl1)(i := Some h')\<rparr>"
    by (auto simp: restart_node_def and_then_eq_Inr)
  from start_node_effect [OF st] cl' show ?thesis
    by (auto simp: raft_init_def persistent_default_def)
qed

theorem restart_forgets_everything_witness:
  "\<exists>(cl :: (nat, unit) Cluster) cl' h' n. restart_node Debug 3 cl = Inr cl' \<and>
     handles cl' 3 = Some h' \<and> h_task h' = Some n \<and> vote (raft n) = None"
proof -
  obtain cl0 :: "(nat, unit) Cluster" and h0 where
    cl0: "cluster_new Debug members3 clock_new node_config_default = Inr cl0"
    and h0: "handles cl0 3 = Some h0" "alive h0"
    using sample_cluster_new by blast
  have ids: "node_ids cl0 = members3" "node_config cl0 = node_config_default"
    using cl0 by (auto simp: cluster_new_def members3_def start_node_def mpsc_channel_def node_new_def
        node_config_default_def others_def register_def Let_def)
  let ?cl = "kill_node 3 cl0"
  have h: "handles ?cl 3 = Some (h0\<lparr>h_task := None, alive := False\<rparr>)"
    "\<not> alive (h0\<lparr>h_task := None, alive := False\<rparr>)"
    using h0 by (simp_all add: kill_node_def)
  have "node_ids ?cl = members3" "node_config ?cl = node_config_default"
    using h0 ids by (simp_all add: kill_node_def)
  then obtain cl' where r: "restart_node Debug 3 ?cl = Inr cl'"
    using h by (simp add: restart_node_def start_node_def mpsc_channel_def node_new_def
        node_config_default_def others_def members3_def register_def Let_def)
  from restart_forgets_everything [OF h r] r show ?thesis by blast
qed

end
