(* ===== verification/SimUi.thy ===== *)
theory SimUi
  imports SimCluster
begin

text \<open>
  The user interface of the simulator without its drawing: the state and the text fields of
  \<open>raft-simulator/src/ui/app.rs\<close>, the decoding of key presses of \<open>ui/input.rs\<close> and what
  \<open>ui/renderer.rs\<close> does to the cluster for each user action. A Rust \<open>String\<close> is its bytes in
  UTF-8, one HOL character each; a Rust \<open>char\<close> is its scalar value. The texts that show a
  floating-point number are parameters, as are the arithmetic and the step of the drop rate.
\<close>

section \<open>Text fields\<close>

text \<open>\<open>String::push\<close> appends the encoding of a character, \<open>String::pop\<close> removes the last one:
  the continuation bytes at the end and the byte before them.\<close>

definition utf8 :: "nat \<Rightarrow> string" where
  "utf8 c = map char_of
     (if c < 128 then [c]
      else if c < 2048 then [192 + c div 64, 128 + c mod 64]
      else if c < 65536 then [224 + c div 4096, 128 + c div 64 mod 64, 128 + c mod 64]
      else [240 + c div 262144, 128 + c div 4096 mod 64, 128 + c div 64 mod 64, 128 + c mod 64])"

definition push_char :: "string \<Rightarrow> nat \<Rightarrow> string" where
  "push_char s c = s @ utf8 c"

definition continuation_byte :: "char \<Rightarrow> bool" where
  "continuation_byte b \<longleftrightarrow> 128 \<le> (of_char b :: nat) \<and> (of_char b :: nat) < 192"

definition pop_char :: "string \<Rightarrow> string" where
  "pop_char s = rev (tl (dropWhile continuation_byte (rev s)))"

text \<open>A scalar value of Unicode: what a Rust \<open>char\<close> can hold.\<close>

definition is_scalar :: "nat \<Rightarrow> bool" where
  "is_scalar c \<longleftrightarrow> c < 1114112 \<and> \<not> (55296 \<le> c \<and> c < 57344)"

lemma continuation_char_of [simp]:
  "(n :: nat) < 256 \<Longrightarrow> continuation_byte (char_of n) \<longleftrightarrow> 128 \<le> n \<and> n < 192"
  by (simp add: continuation_byte_def of_char_of)

lemma utf8_not_Nil [simp]: "utf8 c \<noteq> []"
  by (simp add: utf8_def)

lemma pop_push [simp]:
  assumes "is_scalar c"
  shows "pop_char (push_char s c) = s"
proof -
  have "c div 262144 < 5" "c < 65536 \<Longrightarrow> c div 4096 < 16" "c < 2048 \<Longrightarrow> c div 64 < 32"
    "c mod 64 < 64" "c div 64 mod 64 < 64" "c div 4096 mod 64 < 64"
    using assms by (auto simp: is_scalar_def)
  then show ?thesis
    by (auto simp: pop_char_def push_char_def utf8_def)
qed

section \<open>app.rs\<close>

datatype InputMode = Normal | EnteringKey | EnteringValue

record App =
  selected :: u64
  input_mode :: InputMode
  input_key :: string
  input_val :: string
  status :: string

definition app_default :: App where
  "app_default = \<lparr>selected = 0, input_mode = Normal, input_key = [], input_val = [],
     status = ''Ready '' @ [CHR 0xE2, CHR 0x80, CHR 0x94] @ '' press ? for help''\<rparr>"

definition select_next :: "profile \<Rightarrow> u64 \<Rightarrow> App \<Rightarrow> panic + App" where
  "select_next p node_count app =
     (if node_count > 0
      then and_then (add_u64 p (selected app) 1) (\<lambda>s. Inr (app\<lparr>selected := s mod node_count\<rparr>))
      else Inr app)"

definition select_prev :: "profile \<Rightarrow> u64 \<Rightarrow> App \<Rightarrow> panic + App" where
  "select_prev p node_count app =
     (if node_count > 0
      then and_then (add_u64 p (selected app) node_count) (\<lambda>s. Inr (app\<lparr>selected := (s - 1) mod node_count\<rparr>))
      else Inr app)"

definition start_command :: "App \<Rightarrow> App" where
  "start_command app = app\<lparr>input_mode := EnteringKey, input_key := [], input_val := []\<rparr>"

definition cancel_input :: "App \<Rightarrow> App" where
  "cancel_input app = app\<lparr>input_mode := Normal, input_key := [], input_val := []\<rparr>"

section \<open>input.rs\<close>

text \<open>The keys of the terminal library that the code tells apart, and the others by a number.\<close>

datatype KeyCode =
    KeyChar nat | Backspace | Enter | Tab | Esc | KeyRight | KeyUp | KeyDown | PageUp | PageDown
  | OtherKey nat

datatype UiAction =
    Quit | TogglePause | StepClock | KillNode | RestartNode | SelectNext | SelectPrev
  | IsolateNode | UnisolateNode | IncDropRate | DecDropRate | IncLatency | DecLatency
  | IncSpeed | DecSpeed | Inc10Speed | Dec10Speed | SubmitCommand string string | Handled

fun decode_entering_key :: "KeyCode \<Rightarrow> App \<Rightarrow> UiAction \<times> App" where
  "decode_entering_key (KeyChar c) app = (Handled, app\<lparr>input_key := push_char (input_key app) c\<rparr>)"
| "decode_entering_key Backspace app = (Handled, app\<lparr>input_key := pop_char (input_key app)\<rparr>)"
| "decode_entering_key Enter app =
     (Handled, if input_key app \<noteq> [] then app\<lparr>input_mode := EnteringValue\<rparr> else app)"
| "decode_entering_key Tab app =
     (Handled, if input_key app \<noteq> [] then app\<lparr>input_mode := EnteringValue\<rparr> else app)"
| "decode_entering_key Esc app = (Handled, cancel_input app)"
| "decode_entering_key _ app = (Handled, app)"

fun decode_entering_value :: "KeyCode \<Rightarrow> App \<Rightarrow> UiAction \<times> App" where
  "decode_entering_value (KeyChar c) app = (Handled, app\<lparr>input_val := push_char (input_val app) c\<rparr>)"
| "decode_entering_value Backspace app = (Handled, app\<lparr>input_val := pop_char (input_val app)\<rparr>)"
| "decode_entering_value Enter app = (SubmitCommand (input_key app) (input_val app), cancel_input app)"
| "decode_entering_value Esc app = (Handled, cancel_input app)"
| "decode_entering_value _ app = (Handled, app)"

text \<open>The character keys of the normal mode, in the order of the code.\<close>

definition normal_char :: "nat \<Rightarrow> UiAction option" where
  "normal_char c = map_of
     (map (\<lambda>(k, a). (of_char k, a))
       [(CHR ''q'', Quit), (CHR ''Q'', Quit), (CHR ''p'', TogglePause), (CHR ''k'', KillNode),
        (CHR ''r'', RestartNode), (CHR ''P'', IsolateNode), (CHR ''H'', UnisolateNode),
        (CHR ''d'', IncDropRate), (CHR ''D'', DecDropRate), (CHR ''l'', IncLatency),
        (CHR ''L'', DecLatency), (CHR ''+'', IncSpeed), (CHR ''-'', DecSpeed)]) c"

fun decode_normal :: "KeyCode \<Rightarrow> App \<Rightarrow> UiAction option \<times> App" where
  "decode_normal (KeyChar c) app =
     (if c = of_char (CHR ''c'') then (Some Handled, start_command app) else (normal_char c, app))"
| "decode_normal KeyRight app = (Some StepClock, app)"
| "decode_normal PageUp app = (Some Inc10Speed, app)"
| "decode_normal PageDown app = (Some Dec10Speed, app)"
| "decode_normal KeyDown app = (Some SelectNext, app)"
| "decode_normal KeyUp app = (Some SelectPrev, app)"
| "decode_normal _ app = (None, app)"

definition decode :: "KeyCode \<Rightarrow> App \<Rightarrow> UiAction option \<times> App" where
  "decode code app =
     (case input_mode app of
        EnteringKey \<Rightarrow> apfst Some (decode_entering_key code app)
      | EnteringValue \<Rightarrow> apfst Some (decode_entering_value code app)
      | Normal \<Rightarrow> decode_normal code app)"

section \<open>renderer.rs: applying an action\<close>

text \<open>What the display needs of floating-point numbers: the step of the drop rate, the rate as a
  percentage and the time in seconds as text.\<close>

record 'f Floats =
  DROP_RATE_STEP :: 'f
  show_percent :: "'f \<Rightarrow> string"
  show_seconds :: "u64 \<Rightarrow> string"

definition LATENCY_STEP_MS :: u64 where
  "LATENCY_STEP_MS = 10"

definition CLOCK_STEP_MS :: u64 where
  "CLOCK_STEP_MS = 1000"

definition SPEED_STEP_MS :: u64 where
  "SPEED_STEP_MS = 10"

datatype LoopControl = Continue | Break

text \<open>The node under the cursor.\<close>

definition selected_node :: "App \<Rightarrow> ('f, 'w) Cluster \<Rightarrow> NodeId option" where
  "selected_node app cl =
     (if unat (selected app) < length (node_ids cl) then Some (node_ids cl ! unat (selected app)) else None)"

definition node_alive :: "('f, 'w) Cluster \<Rightarrow> NodeId \<Rightarrow> bool" where
  "node_alive cl i \<longleftrightarrow> (case handles cl i of None \<Rightarrow> False | Some h \<Rightarrow> alive h)"

text \<open>The selected node if it is alive, otherwise the first live node.\<close>

definition submit_target :: "App \<Rightarrow> ('f, 'w) Cluster \<Rightarrow> NodeId option" where
  "submit_target app cl =
     (case selected_node app cl of
        Some i \<Rightarrow> if node_alive cl i then Some i else List.find (node_alive cl) (node_ids cl)
      | None \<Rightarrow> List.find (node_alive cl) (node_ids cl))"

definition new_drop_rate :: "'f \<Rightarrow> App \<Rightarrow> 'f::{zero,one,linorder} Floats \<Rightarrow> ('f, 'w) Cluster \<Rightarrow> App \<times> ('f, 'w) Cluster" where
  "new_drop_rate r app fl cl =
     (app\<lparr>status := ''Drop rate: '' @ show_percent fl r @ ''%''\<rparr>,
      cluster_set_drop_rate r cl)"

definition new_latency :: "u64 \<Rightarrow> App \<Rightarrow> ('f, 'w) Cluster \<Rightarrow> App \<times> ('f, 'w) Cluster" where
  "new_latency l app cl =
     (app\<lparr>status := ''Latency: '' @ show_u64 l @ ''ms''\<rparr>, cluster_set_latency_ms l cl)"

definition new_speed :: "u64 \<Rightarrow> App \<Rightarrow> ('f, 'w) Cluster \<Rightarrow> App \<times> ('f, 'w) Cluster" where
  "new_speed v app cl =
     (app\<lparr>status := ''Clock speed: '' @ show_u64 v @ '' sim-'' @ [CHR 0xCE, CHR 0xBC] @ ''s/tick''\<rparr>,
      cluster_set_speed_us v cl)"

definition node_status_line :: "NodeId \<Rightarrow> string \<Rightarrow> App \<Rightarrow> App" where
  "node_status_line i txt app = app\<lparr>status := ''Node '' @ show_u64 i @ txt\<rparr>"

text \<open>
  The result: whether the loop goes on, the wakers woken by a manual step of the clock, the user
  interface and the cluster. The client of a submitted command is the reply channel made for it.
\<close>

fun apply_action ::
    "profile \<Rightarrow> 'f::{zero,one,plus,minus,linorder} Floats \<Rightarrow> nat \<Rightarrow> UiAction \<Rightarrow> App \<Rightarrow> ('f, 'w) Cluster \<Rightarrow>
     panic + LoopControl \<times> 'w list \<times> App \<times> ('f, 'w) Cluster" where
  "apply_action p fl client Quit app cl = Inr (Break, [], app, cl)"
| "apply_action p fl client TogglePause app cl =
     Inr (Continue, [],
       if paused (clock cl) then (app\<lparr>status := ''Clock resumed.''\<rparr>, cl\<lparr>clock := clock_resume (clock cl)\<rparr>)
       else (app\<lparr>status := ''Clock paused.''\<rparr>, cl\<lparr>clock := clock_pause (clock cl)\<rparr>))"
| "apply_action p fl client StepClock app cl =
     and_then (tick p CLOCK_STEP_MS (clock cl)) (\<lambda>(woken, c).
     Inr (Continue, woken, app\<lparr>status := ''Stepped to t='' @ show_seconds fl (now_us c) @ ''s''\<rparr>,
       cl\<lparr>clock := c\<rparr>))"
| "apply_action p fl client KillNode app cl =
     (case selected_node app cl of None \<Rightarrow> Inr (Continue, [], app, cl)
      | Some i \<Rightarrow> Inr (Continue, [], node_status_line i '' killed.'' app, kill_node i cl))"
| "apply_action p fl client RestartNode app cl =
     (case selected_node app cl of None \<Rightarrow> Inr (Continue, [], app, cl)
      | Some i \<Rightarrow> and_then (restart_node p i cl) (\<lambda>cl'.
          Inr (Continue, [], node_status_line i '' restarted.'' app, cl')))"
| "apply_action p fl client SelectNext app cl =
     and_then (select_next p (of_nat (max (length (node_ids cl)) 1)) app) (\<lambda>app'. Inr (Continue, [], app', cl))"
| "apply_action p fl client SelectPrev app cl =
     and_then (select_prev p (of_nat (max (length (node_ids cl)) 1)) app) (\<lambda>app'. Inr (Continue, [], app', cl))"
| "apply_action p fl client IsolateNode app cl =
     (case selected_node app cl of None \<Rightarrow> Inr (Continue, [], app, cl)
      | Some i \<Rightarrow> Inr (Continue, [], node_status_line i '' isolated from all peers.'' app, isolate i cl))"
| "apply_action p fl client UnisolateNode app cl =
     (case selected_node app cl of None \<Rightarrow> Inr (Continue, [], app, cl)
      | Some i \<Rightarrow> Inr (Continue, [], node_status_line i '' reconnected to all peers.'' app, unisolate i cl))"
| "apply_action p fl client IncDropRate app cl =
     Inr (Continue, [], new_drop_rate (min (cluster_drop_rate cl + DROP_RATE_STEP fl) 1) app fl cl)"
| "apply_action p fl client DecDropRate app cl =
     Inr (Continue, [], new_drop_rate (max (cluster_drop_rate cl - DROP_RATE_STEP fl) 0) app fl cl)"
| "apply_action p fl client IncLatency app cl =
     and_then (add_u64 p (cluster_latency_ms cl) LATENCY_STEP_MS) (\<lambda>l.
     Inr (Continue, [], new_latency l app cl))"
| "apply_action p fl client DecLatency app cl =
     Inr (Continue, [], new_latency (saturating_sub (cluster_latency_ms cl) LATENCY_STEP_MS) app cl)"
| "apply_action p fl client IncSpeed app cl =
     and_then (add_u64 p (cluster_speed_us cl) SPEED_STEP_MS) (\<lambda>v.
     Inr (Continue, [], new_speed (min v 10000) app cl))"
| "apply_action p fl client DecSpeed app cl =
     Inr (Continue, [], new_speed (max (saturating_sub (cluster_speed_us cl) SPEED_STEP_MS) 1) app cl)"
| "apply_action p fl client Inc10Speed app cl =
     and_then (add_u64 p (cluster_speed_us cl) (SPEED_STEP_MS * 10)) (\<lambda>v.
     Inr (Continue, [], new_speed (min v 10000) app cl))"
| "apply_action p fl client Dec10Speed app cl =
     Inr (Continue, [], new_speed (max (saturating_sub (cluster_speed_us cl) (SPEED_STEP_MS * 10)) 1) app cl)"
| "apply_action p fl client (SubmitCommand key val) app cl =
     (case submit_target app cl of
        Some i \<Rightarrow>
          (case submit i (command_set key val) client cl of
             Some cl' \<Rightarrow> Inr (Continue, [], app\<lparr>status := ''SET '' @ key @ ''='' @ val @ '' '' @
               [CHR 0xE2, CHR 0x86, CHR 0x92] @ '' node '' @ show_u64 i\<rparr>, cl')
           | None \<Rightarrow> Inr (Continue, [], node_status_line i '' channel full.'' app, cl))
      | None \<Rightarrow> Inr (Continue, [], app\<lparr>status := ''No alive nodes to send command to.''\<rparr>, cl))"
| "apply_action p fl client Handled app cl = Inr (Continue, [], app, cl)"

text \<open>
  The event loop over the terminal events it polls, one per frame: a key press is decoded and
  applied, and any other event, or none within the frame, changes nothing.
\<close>

datatype UiEvent = KeyPress KeyCode | OtherUiEvent

fun event_loop ::
    "profile \<Rightarrow> 'f::{zero,one,plus,minus,linorder} Floats \<Rightarrow> nat \<Rightarrow> UiEvent list \<Rightarrow> App \<Rightarrow> ('f, 'w) Cluster \<Rightarrow>
     panic + LoopControl \<times> App \<times> ('f, 'w) Cluster" where
  "event_loop p fl client [] app cl = Inr (Continue, app, cl)"
| "event_loop p fl client (OtherUiEvent # evs) app cl = event_loop p fl client evs app cl"
| "event_loop p fl client (KeyPress k # evs) app cl =
     (case decode k app of
        (None, app1) \<Rightarrow> event_loop p fl client evs app1 cl
      | (Some a, app1) \<Rightarrow>
          and_then (apply_action p fl client a app1 cl) (\<lambda>(ctl, woken, app2, cl2).
          if ctl = Break then Inr (Break, app2, cl2)
          else event_loop p fl (client + 1) evs app2 cl2))"

section \<open>Typing a command\<close>

text \<open>The abstract editor: a field is the list of the characters typed and not erased.\<close>

fun edit :: "nat list \<Rightarrow> KeyCode \<Rightarrow> nat list" where
  "edit cs (KeyChar c) = cs @ [c]"
| "edit cs Backspace = butlast cs"
| "edit cs _ = cs"

fun editing_key :: "KeyCode \<Rightarrow> bool" where
  "editing_key (KeyChar c) = is_scalar c"
| "editing_key Backspace = True"
| "editing_key _ = False"

definition utf8s :: "nat list \<Rightarrow> string" where
  "utf8s cs = concat (map utf8 cs)"

lemma utf8s_snoc: "utf8s (cs @ [c]) = push_char (utf8s cs) c"
  by (simp add: utf8s_def push_char_def)

lemma utf8s_Nil [simp]: "utf8s [] = []"
  by (simp add: utf8s_def)

lemma utf8s_eq_Nil [simp]: "utf8s cs = [] \<longleftrightarrow> cs = []"
  by (cases cs) (simp_all add: utf8s_def)

lemma pop_utf8s: "list_all is_scalar cs \<Longrightarrow> pop_char (utf8s cs) = utf8s (butlast cs)"
  by (cases cs rule: rev_cases) (simp_all add: utf8s_snoc, simp add: pop_char_def)

lemma edit_scalars: "editing_key k \<Longrightarrow> list_all is_scalar cs \<Longrightarrow> list_all is_scalar (edit cs k)"
  by (cases k) (auto simp: list_all_iff dest: in_set_butlastD)

fun decode_keys :: "KeyCode list \<Rightarrow> App \<Rightarrow> UiAction option list \<times> App" where
  "decode_keys [] app = ([], app)"
| "decode_keys (k # ks) app =
     (let (a, app') = decode k app; (as, app'') = decode_keys ks app' in (a # as, app''))"

lemma decode_keys_append:
  "decode_keys (ks @ ls) app =
     (let (as, app') = decode_keys ks app; (bs, app'') = decode_keys ls app' in (as @ bs, app''))"
  by (induction ks arbitrary: app) (simp_all add: case_prod_beta Let_def)

lemma decode_key_field:
  assumes "list_all editing_key ks" "list_all is_scalar cs" "input_mode app = EnteringKey"
    "input_key app = utf8s cs"
  shows "decode_keys ks app = (replicate (length ks) (Some Handled), app\<lparr>input_key := utf8s (foldl edit cs ks)\<rparr>)"
  using assms
proof (induction ks arbitrary: app cs)
  case (Cons k ks)
  have k: "decode k app = (Some Handled, app\<lparr>input_key := utf8s (edit cs k)\<rparr>)"
    using Cons.prems by (cases k) (simp_all add: decode_def utf8s_snoc pop_utf8s)
  have IH: "decode_keys ks (app\<lparr>input_key := utf8s (edit cs k)\<rparr>) = (replicate (length ks) (Some Handled),
      (app\<lparr>input_key := utf8s (edit cs k)\<rparr>)\<lparr>input_key := utf8s (foldl edit (edit cs k) ks)\<rparr>)"
    using Cons.prems by (intro Cons.IH) (auto intro: edit_scalars)
  show ?case by (simp add: k IH)
qed simp

lemma decode_value_field:
  assumes "list_all editing_key ks" "list_all is_scalar cs" "input_mode app = EnteringValue"
    "input_val app = utf8s cs"
  shows "decode_keys ks app = (replicate (length ks) (Some Handled), app\<lparr>input_val := utf8s (foldl edit cs ks)\<rparr>)"
  using assms
proof (induction ks arbitrary: app cs)
  case (Cons k ks)
  have k: "decode k app = (Some Handled, app\<lparr>input_val := utf8s (edit cs k)\<rparr>)"
    using Cons.prems by (cases k) (simp_all add: decode_def utf8s_snoc pop_utf8s)
  have IH: "decode_keys ks (app\<lparr>input_val := utf8s (edit cs k)\<rparr>) = (replicate (length ks) (Some Handled),
      (app\<lparr>input_val := utf8s (edit cs k)\<rparr>)\<lparr>input_val := utf8s (foldl edit (edit cs k) ks)\<rparr>)"
    using Cons.prems by (intro Cons.IH) (auto intro: edit_scalars)
  show ?case by (simp add: k IH)
qed simp

text \<open>C38: what is typed is what is submitted. From the normal mode, \<open>c\<close>, any typing and erasing that
  leaves a key, Enter or Tab, any typing and erasing of the value and Enter decode to the submission
  of exactly the text left in the two fields, as UTF-8; no key in between, whatever it means in
  the normal mode, does anything but edit, and the interface is back in the normal mode with
  empty fields.\<close>

theorem typed_command_submitted:
  assumes "input_mode app = Normal" "list_all editing_key ks" "list_all editing_key vs"
    "foldl edit [] ks \<noteq> []" "e = Enter \<or> e = Tab"
  shows "decode_keys (KeyChar (of_char (CHR ''c'')) # ks @ e # vs @ [Enter]) app =
    (replicate (length ks + length vs + 2) (Some Handled) @
       [Some (SubmitCommand (utf8s (foldl edit [] ks)) (utf8s (foldl edit [] vs)))],
     app\<lparr>input_mode := Normal, input_key := [], input_val := []\<rparr>)"
proof -
  define a0 where "a0 = app\<lparr>input_mode := EnteringKey, input_key := [], input_val := []\<rparr>"
  define a1 where "a1 = a0\<lparr>input_key := utf8s (foldl edit [] ks)\<rparr>"
  define a2 where "a2 = a1\<lparr>input_mode := EnteringValue\<rparr>"
  define a3 where "a3 = a2\<lparr>input_val := utf8s (foldl edit [] vs)\<rparr>"
  have c: "decode (KeyChar 99) app = (Some Handled, a0)"
    using assms(1) by (simp add: decode_def start_command_def a0_def)
  have ks: "decode_keys ks a0 = (replicate (length ks) (Some Handled), a1)"
    unfolding a1_def by (rule decode_key_field) (use assms in \<open>simp_all add: a0_def\<close>)
  have e: "decode e a1 = (Some Handled, a2)"
    using assms(4,5) by (auto simp: decode_def a0_def a1_def a2_def)
  have vs: "decode_keys vs a2 = (replicate (length vs) (Some Handled), a3)"
    unfolding a3_def by (rule decode_value_field) (use assms in \<open>simp_all add: a0_def a1_def a2_def\<close>)
  have enter: "decode Enter a3 = (Some (SubmitCommand (utf8s (foldl edit [] ks)) (utf8s (foldl edit [] vs))),
      app\<lparr>input_mode := Normal, input_key := [], input_val := []\<rparr>)"
    by (simp add: decode_def cancel_input_def a0_def a1_def a2_def a3_def)
  have rep: "replicate (length ks + length vs + 2) (Some Handled) =
      Some Handled # replicate (length ks) (Some Handled) @ Some Handled # replicate (length vs) (Some Handled)"
    by (simp add: replicate_add replicate_app_Cons_same)
  show ?thesis
    unfolding rep by (simp add: c ks e vs enter decode_keys_append)
qed

theorem typed_command_submitted_witness:
  "decode_keys [KeyChar 99, KeyChar 113, KeyChar 955, Backspace, Enter, KeyChar 955, Enter] app_default =
     ([Some Handled, Some Handled, Some Handled, Some Handled, Some Handled, Some Handled,
       Some (SubmitCommand ''q'' [CHR 0xCE, CHR 0xBB])], app_default)"
proof -
  have c: "(of_char (CHR ''c'') :: nat) = 99" by simp
  have d: "app_default\<lparr>input_mode := Normal, input_key := [], input_val := []\<rparr> = app_default"
    by (simp add: app_default_def)
  have n: "input_mode app_default = Normal" by (simp add: app_default_def)
  have k: "list_all editing_key [KeyChar 113, KeyChar 955, Backspace]" "list_all editing_key [KeyChar 955]"
    "foldl edit [] [KeyChar 113, KeyChar 955, Backspace] \<noteq> []" "Enter = Enter \<or> Enter = Tab"
    by (simp_all add: is_scalar_def)
  have u: "utf8 113 = ''q''" "utf8 955 = [CHR 0xCE, CHR 0xBB]" by code_simp+
  show ?thesis
    using typed_command_submitted [OF n k] by (simp add: c d u utf8s_def)
qed

section \<open>The controls keep the simulation in bounds\<close>

definition ui_ok :: "App \<Rightarrow> ('f::{zero,one,linorder}, 'w) Cluster \<Rightarrow> bool" where
  "ui_ok app cl \<longleftrightarrow> lifecycle_ok cl \<and> unat (selected app) < max (length (node_ids cl)) 1 \<and>
     0 \<le> drop_rate (net_config (network cl)) \<and> drop_rate (net_config (network cl)) \<le> 1 \<and>
     1 \<le> step_us (clock cl) \<and> step_us (clock cl) \<le> 10000"

lemma clamp_bounds: "lo \<le> hi \<Longrightarrow> lo \<le> clamp x lo hi \<and> clamp x lo hi \<le> hi"
  by (auto simp: clamp_def)

lemma selected_mod:
  assumes "length xs < 2 ^ 64"
  shows "unat (s mod (of_nat (max (length xs) 1) :: u64)) < max (length xs) 1"
proof -
  have "max (length xs) 1 < 2 ^ 64" using assms by simp
  then have n: "unat (of_nat (max (length xs) 1) :: u64) = max (length xs) 1"
    by (simp only: unat_of_nat mod_less len_of_numeral_defs len_num0 len_num1) simp
  then show ?thesis by (simp add: unat_mod)
qed

lemma decode_frame: "selected (snd (decode k app)) = selected app"
  by (cases k; cases "input_mode app")
    (auto simp: decode_def start_command_def cancel_input_def)

lemma start_node_config:
  "start_node p i ps cl = Inr (h, cl') \<Longrightarrow>
     net_config (network cl') = net_config (network cl) \<and> clock cl' = clock cl \<and> node_ids cl' = node_ids cl \<and>
     node_config cl' = node_config cl"
  by (auto simp: start_node_def mpsc_channel_def and_then_eq_Inr register_def Let_def split: if_splits)

lemma ui_ok_frame:
  assumes "ui_ok app cl" "lifecycle_ok cl'" "selected app' = selected app" "node_ids cl' = node_ids cl"
    "net_config (network cl') = net_config (network cl)" "clock cl' = clock cl"
  shows "ui_ok app' cl'"
  using assms by (simp add: ui_ok_def)

lemma fold_net_config:
  assumes "\<And>j nw. net_config (f j nw) = net_config nw"
  shows "net_config (fold f js nw) = net_config nw"
  using assms by (induction js arbitrary: nw) simp_all

lemma kill_node_config:
  "net_config (network (kill_node i cl)) = net_config (network cl) \<and> clock (kill_node i cl) = clock cl \<and>
     node_ids (kill_node i cl) = node_ids cl \<and> node_config (kill_node i cl) = node_config cl"
  by (simp add: kill_node_def deregister_def close_channel_def split: option.split)

lemma restart_node_config:
  "restart_node p i cl = Inr cl' \<Longrightarrow> net_config (network cl') = net_config (network cl) \<and>
     clock cl' = clock cl \<and> node_ids cl' = node_ids cl \<and> node_config cl' = node_config cl"
  by (auto simp: restart_node_def and_then_eq_Inr dest: start_node_config split: if_splits)

lemma isolate_config:
  "net_config (network (isolate i cl)) = net_config (network cl) \<and> clock (isolate i cl) = clock cl \<and>
     node_ids (isolate i cl) = node_ids cl \<and> node_config (isolate i cl) = node_config cl"
  by (simp add: isolate_def fold_net_config partition_link_def)

lemma unisolate_config:
  "net_config (network (unisolate i cl)) = net_config (network cl) \<and> clock (unisolate i cl) = clock cl \<and>
     node_ids (unisolate i cl) = node_ids cl \<and> node_config (unisolate i cl) = node_config cl"
  by (simp add: unisolate_def fold_net_config heal_link_def)

lemma submit_config:
  "submit i c k cl = Some cl' \<Longrightarrow> net_config (network cl') = net_config (network cl) \<and>
     clock cl' = clock cl \<and> node_ids cl' = node_ids cl \<and> node_config cl' = node_config cl"
  by (auto simp: submit_def split: option.splits if_splits)

lemma tick_config: "tick p us c = Inr (w, c') \<Longrightarrow> step_us c' = step_us c"
  by (auto simp: tick_def and_then_eq_Inr case_prod_beta)

lemma lifecycle_ok_settings:
  "lifecycle_ok cl \<Longrightarrow> lifecycle_ok (cl\<lparr>network := set_drop_rate r (network cl)\<rparr>)"
  "lifecycle_ok cl \<Longrightarrow> lifecycle_ok (cl\<lparr>network := set_latency_ms l (network cl)\<rparr>)"
  "lifecycle_ok cl \<Longrightarrow> lifecycle_ok (cl\<lparr>clock := c\<rparr>)"
  by (simp_all add: lifecycle_ok_def set_drop_rate_def set_latency_ms_def)

lemmas controls = new_drop_rate_def new_latency_def new_speed_def node_status_line_def
lemmas config_frames = kill_node_config isolate_config unisolate_config

lemma ui_ok_apply_action:
  assumes "ui_ok app cl" "length (node_ids cl) < 2 ^ 64"
    "apply_action p fl client a app cl = Inr (ctl, woken, app', cl')"
  shows "ui_ok app' cl' \<and> node_ids cl' = node_ids cl"
proof -
  have life: "lifecycle_ok cl" using assms(1) by (simp add: ui_ok_def)
  note lives = life lifecycle_ok_kill [OF life] lifecycle_ok_isolate [OF life]
    lifecycle_ok_unisolate [OF life] lifecycle_ok_settings [OF life]
  have speed: "1 \<le> clamp v 1 (10000 :: u64) \<and> clamp v 1 (10000 :: u64) \<le> 10000" for v
    by (rule clamp_bounds) simp
  show ?thesis
  proof (cases a)
    case RestartNode
    with assms show ?thesis
      by (auto simp: and_then_eq_Inr controls ui_ok_def dest: restart_node_config lifecycle_ok_restart
          split: option.splits)
  next
    case (SubmitCommand k v)
    with assms show ?thesis
      by (auto simp: controls ui_ok_def dest: submit_config lifecycle_ok_submit split: option.splits)
  next
    case StepClock
    with assms lives show ?thesis
      by (auto simp: and_then_eq_Inr ui_ok_def dest: tick_config)
  next
    case SelectNext
    with assms selected_mod [OF assms(2)] show ?thesis
      by (auto simp: and_then_eq_Inr select_next_def ui_ok_def split: if_splits)
  next
    case SelectPrev
    with assms selected_mod [OF assms(2)] show ?thesis
      by (auto simp: and_then_eq_Inr select_prev_def ui_ok_def split: if_splits)
  qed (use assms lives speed in \<open>auto simp: and_then_eq_Inr controls ui_ok_def config_frames
      set_drop_rate_def set_latency_ms_def set_speed_us_def clamp_bounds clock_pause_def clock_resume_def
      split: option.splits if_splits\<close>)
qed

lemma ui_ok_event_loop:
  assumes "event_loop p fl client evs app cl = Inr (ctl, app', cl')"
    "ui_ok app cl" "length (node_ids cl) < 2 ^ 64"
  shows "ui_ok app' cl' \<and> node_ids cl' = node_ids cl"
  using assms
proof (induction p fl client evs app cl arbitrary: ctl app' cl' rule: event_loop.induct)
  case (3 p fl client k evs app cl)
  obtain a app1 where d: "decode k app = (a, app1)" by (cases "decode k app")
  have ok1: "ui_ok app1 cl"
    using 3(4) decode_frame [of k app] d by (simp add: ui_ok_def)
  show ?case
  proof (cases a)
    case None
    with 3 d ok1 show ?thesis by simp
  next
    case (Some act)
    with 3(3) d obtain c2 w2 app2 cl2 where step: "apply_action p fl client act app1 cl = Inr (c2, w2, app2, cl2)"
      and rest: "if c2 = Break then ctl = Break \<and> app' = app2 \<and> cl' = cl2
        else event_loop p fl (client + 1) evs app2 cl2 = Inr (ctl, app', cl')"
      by (auto simp: and_then_eq_Inr split: if_splits)
    from ui_ok_apply_action [OF ok1 3(5) step] have ok2: "ui_ok app2 cl2" "node_ids cl2 = node_ids cl"
      by auto
    show ?thesis
    proof (cases "c2 = Break")
      case False
      with 3(2) [OF d [symmetric] Some False] rest ok2 3(5) show ?thesis by auto
    qed (use rest ok2 in simp)
  qed
qed simp_all

text \<open>C39: the controls keep the simulation in bounds. Whatever keys are pressed after creating a
  cluster, the life cycle of its nodes stays consistent, the drop rate is a probability, the
  clock advances by 1 to 10000 microseconds per tick, and the cursor is on a node of the cluster.\<close>

theorem ui_keeps_cluster_sound:
  fixes cl0 :: "('f::{zero,one,plus,minus,linorder}, 'w) Cluster"
  assumes "cluster_new p ids clock_new config = Inr cl0" "(0 :: 'f) \<le> 1" "length ids < 2 ^ 64"
    "event_loop p fl client evs app_default cl0 = Inr (ctl, app, cl)"
  shows "lifecycle_ok cl \<and> node_ids cl = ids \<and> unat (selected app) < max (length ids) 1 \<and>
    0 \<le> drop_rate (net_config (network cl)) \<and> drop_rate (net_config (network cl)) \<le> 1 \<and>
    1 \<le> step_us (clock cl) \<and> step_us (clock cl) \<le> 10000"
proof -
  have "net_config (network cl2) = net_config (network cl1) \<and> clock cl2 = clock cl1 \<and> node_ids cl2 = node_ids cl1"
    if "start_nodes p js cl1 = Inr cl2" for js and cl1 cl2 :: "('f, 'w) Cluster"
    using that by (induction js arbitrary: cl1) (fastforce simp: and_then_eq_Inr dest: start_node_config)+
  with assms(1) have new: "net_config (network cl0) = \<lparr>drop_rate = 0, latency_ms = 0\<rparr>"
    "clock cl0 = clock_new" "node_ids cl0 = ids"
    unfolding cluster_new_def by (fastforce simp: network_new_def)+
  have "ui_ok app_default cl0"
    using assms(2) new lifecycle_ok_new [OF assms(1)]
    by (simp add: ui_ok_def app_default_def clock_new_def DEFAULT_STEP_MS_def)
  from ui_ok_event_loop [OF assms(4) this] assms(3) new have "ui_ok app cl" "node_ids cl = ids" by auto
  then show ?thesis by (auto simp: ui_ok_def)
qed

theorem ui_keeps_cluster_sound_witness:
  "\<exists>(cl0 :: (nat, unit) Cluster) app cl.
     cluster_new Debug members3 clock_new node_config_default = Inr cl0 \<and>
     event_loop Debug \<lparr>DROP_RATE_STEP = 1, show_percent = decimal, show_seconds = show_u64\<rparr> 0
       [KeyPress KeyUp, KeyPress (KeyChar 100), OtherUiEvent, KeyPress PageUp, KeyPress (KeyChar 113)]
       app_default cl0 = Inr (Break, app, cl) \<and>
     unat (selected app) < 3 \<and> drop_rate (net_config (network cl)) \<le> 1 \<and> step_us (clock cl) \<le> 10000"
proof -
  obtain cl0 :: "(nat, unit) Cluster" where
    cl0: "cluster_new Debug members3 clock_new node_config_default = Inr cl0"
    using sample_cluster_new by blast
  let ?fl = "\<lparr>DROP_RATE_STEP = 1 :: nat, show_percent = decimal, show_seconds = show_u64\<rparr>"
  let ?evs = "[KeyPress KeyUp, KeyPress (KeyChar 100), OtherUiEvent, KeyPress PageUp, KeyPress (KeyChar 113)]"
  have ids: "node_ids cl0 = members3" "clock cl0 = clock_new"
    using cl0 by (auto simp: cluster_new_def members3_def start_node_def mpsc_channel_def node_new_def
        node_config_default_def others_def register_def Let_def)
  obtain app cl where run: "event_loop Debug ?fl 0 ?evs app_default cl0 = Inr (Break, app, cl)"
    using ids by (simp add: decode_def app_default_def select_prev_def normal_char_def controls
        add_u64_def members3_def clock_new_def DEFAULT_STEP_MS_def SPEED_STEP_MS_def)
  from ui_keeps_cluster_sound [OF cl0 _ _ run] have "unat (selected app) < 3"
    "drop_rate (net_config (network cl)) \<le> 1" "step_us (clock cl) \<le> 10000"
    by (simp_all add: members3_def)
  with cl0 run show ?thesis by blast
qed

end
