(* ===== verification/SimView.thy ===== *)
theory SimView
  imports SimUi RuntimeProps "HOL-Library.Sublist"
begin

text \<open>
  What the terminal shows: the widgets of \<open>raft-simulator/src/ui/widgets\<close> and the \<open>draw\<close> function of
  \<open>ui/renderer.rs\<close>, up to the styled texts each panel consists of. The borders and the placement of
  the panels on the screen belong to the terminal library. Texts that show a floating-point number
  are parameters.
\<close>

section \<open>Styled text\<close>

datatype Color = Red | Green | Yellow | Cyan | Magenta | White | LightBlue | DarkGray

record Style =
  style_fg :: "Color option"
  style_bg :: "Color option"
  style_bold :: bool

definition plain :: Style where
  "plain = \<lparr>style_fg = None, style_bg = None, style_bold = False\<rparr>"

abbreviation fg :: "Color \<Rightarrow> Style" where
  "fg c \<equiv> plain\<lparr>style_fg := Some c\<rparr>"

type_synonym Span = "string \<times> Style"
type_synonym Line = "Span list"
type_synonym Row = "Span list \<times> Style"

record Panel =
  panel_title :: string
  panel_items :: "Line list"

text \<open>The characters outside ASCII: a dash, a check mark, a circle, a dot, a cursor block, the micro
  sign, arrows and plus-minus.\<close>

definition em_dash :: string where "em_dash = [CHR 0xE2, CHR 0x80, CHR 0x94]"
definition check_mark :: string where "check_mark = [CHR 0xE2, CHR 0x9C, CHR 0x93]"
definition circle :: string where "circle = [CHR 0xE2, CHR 0x97, CHR 0x8B]"
definition dot :: string where "dot = [CHR 0xC2, CHR 0xB7]"
definition cursor_block :: string where "cursor_block = [CHR 0xE2, CHR 0x96, CHR 0x88]"
definition micro :: string where "micro = [CHR 0xCE, CHR 0xBC]"
definition right_arrow :: string where "right_arrow = [CHR 0xE2, CHR 0x86, CHR 0x92]"
definition up_arrow :: string where "up_arrow = [CHR 0xE2, CHR 0x86, CHR 0x91]"
definition down_arrow :: string where "down_arrow = [CHR 0xE2, CHR 0x86, CHR 0x93]"
definition plus_minus :: string where "plus_minus = [CHR 0xC2, CHR 0xB1]"

text \<open>\<open>{:>n}\<close> of a number.\<close>

definition pad_left :: "nat \<Rightarrow> string \<Rightarrow> string" where
  "pad_left w s = replicate (w - length s) CHR '' '' @ s"

section \<open>cluster_overview.rs\<close>

fun role_cell :: "Role \<Rightarrow> Span" where
  "role_cell Leader = (''Leader'', (fg Green)\<lparr>style_bold := True\<rparr>)"
| "role_cell Candidate = (''Candidate'', fg Yellow)"
| "role_cell Follower = (''Follower'', fg Cyan)"

definition overview_header :: "Span list" where
  "overview_header = map (\<lambda>h. (h, plain\<lparr>style_bold := True\<rparr>))
     [''Node'', ''Status'', ''Role'', ''Term'', ''Commit'', ''Applied'', ''Log'']"

definition overview_row :: "nat \<Rightarrow> nat \<Rightarrow> NodeId \<times> MetricsSnapshot option \<Rightarrow> Row" where
  "overview_row sel i = (\<lambda>(id, snap).
     let selected_style = (if i = sel then plain\<lparr>style_bg := Some DarkGray\<rparr> else plain) in
     case snap of
       None \<Rightarrow> ((show_u64 id, plain) # (''DEAD'', fg Red) # replicate 5 (em_dash, plain), selected_style)
     | Some s \<Rightarrow> ([(show_u64 id, plain), (''alive'', fg Green), role_cell (snap_role s),
          (show_u64 (snap_term s), plain), (show_u64 (snap_commit_index s), plain),
          (show_u64 (snap_last_applied s), plain), (show_u64 (snap_log_length s), plain)], selected_style))"

definition cluster_overview :: "(NodeId \<times> MetricsSnapshot option) list \<Rightarrow> nat \<Rightarrow> Row list" where
  "cluster_overview snapshots sel = map (\<lambda>(i, x). overview_row sel i x) (enumerate 0 snapshots)"

section \<open>log_view.rs\<close>

definition log_marker :: "bool \<Rightarrow> bool \<Rightarrow> string \<times> Color" where
  "log_marker is_committed is_applied =
     (if is_committed \<and> is_applied then (check_mark, Green)
      else if is_committed then (circle, Yellow)
      else (dot, DarkGray))"

definition marked :: "string \<times> Color \<Rightarrow> u64 \<Rightarrow> Line" where
  "marked = (\<lambda>(marker, c) idx. [(''  ['' @ marker @ ''] '' @ pad_left 4 (show_u64 idx), fg c)])"

text \<open>The range \<open>1..=length\<close> of the code, as a list.\<close>

definition indices_to :: "u64 \<Rightarrow> u64 list" where
  "indices_to n = map of_nat [1 ..< Suc (unat n)]"

definition log_view :: "MetricsSnapshot option \<Rightarrow> Panel" where
  "log_view snap = (case snap of
     None \<Rightarrow> \<lparr>panel_title = '' Log '', panel_items = [[(''  (node dead)'', plain)]]\<rparr>
   | Some s \<Rightarrow>
       \<lparr>panel_title = '' Log '' @ em_dash @ '' node '' @ show_u64 (snap_node_id s) @ ''  commit='' @
          show_u64 (snap_commit_index s) @ ''  applied='' @ show_u64 (snap_last_applied s) @ '' '',
        panel_items =
          (if snap_log_length s = 0 then [[(''  (empty log)'', fg DarkGray)]]
           else map (\<lambda>idx. marked (log_marker (idx \<le> snap_commit_index s) (idx \<le> snap_last_applied s)) idx)
                  (indices_to (snap_log_length s)))\<rparr>)"

section \<open>message_log.rs\<close>

definition label_color :: "string \<Rightarrow> Style" where
  "label_color label =
     (if prefix ''RequestVote('' label then fg Yellow
      else if prefix ''VoteResp'' label then fg Magenta
      else if prefix ''AppendEntries('' label then fg Cyan
      else fg Green)"

text \<open>\<open>sort_by\<close> is stable and compares by falling tick; \<open>truncate\<close> keeps the first 200.\<close>

definition shown_events :: "MetricsSnapshot list \<Rightarrow> MessageEvent list" where
  "shown_events snapshots =
     take 200 (sort_key (\<lambda>e. - int (unat (ev_tick e))) (concat (map snap_message_log snapshots)))"

definition message_line :: "(u64 \<Rightarrow> string) \<Rightarrow> MessageEvent \<Rightarrow> Line" where
  "message_line show_tick e =
     [(''t='' @ show_tick (ev_tick e) @ ''s '', fg DarkGray),
      (show_u64 (ev_from e) @ ''->'' @ show_u64 (ev_to e) @ '' '', fg White),
      (ev_label e, label_color (ev_label e))]"

definition message_log_view :: "(u64 \<Rightarrow> string) \<Rightarrow> MetricsSnapshot list \<Rightarrow> Panel" where
  "message_log_view show_tick snapshots =
     \<lparr>panel_title = '' Messages  (newest first) '',
      panel_items = map (message_line show_tick) (shown_events snapshots)\<rparr>"

section \<open>controls.rs\<close>

text \<open>What the controls need of floating-point numbers, besides the percentage: the time in
  seconds, right-aligned and with two digits, and the clock step in thousandths.\<close>

record 'f ViewFloats = "'f Floats" +
  show_event_time :: "u64 \<Rightarrow> string"
  show_clock_time :: "u64 \<Rightarrow> string"
  show_clock_step :: "u64 \<Rightarrow> string"

definition fault_str :: "('f::{zero,linorder}, 'x) Floats_scheme \<Rightarrow> 'f \<Rightarrow> u64 \<Rightarrow> string" where
  "fault_str fl rate latency =
     (if rate > 0 \<and> latency > 0
        then ''  drop='' @ show_percent fl rate @ ''%  lat='' @ show_u64 latency @ ''ms''
      else if rate > 0 then ''  drop='' @ show_percent fl rate @ ''%''
      else if latency > 0 then ''  lat='' @ show_u64 latency @ ''ms''
      else [])"

definition help_line :: string where
  "help_line = ''  | p=pause  '' @ right_arrow @ ''=step  k=kill  r=restart  c=command  '' @
     ''P=partition  H=heal  d/D=drop'' @ plus_minus @ ''  l/L=latency'' @ plus_minus @ ''  '' @
     up_arrow @ ''/'' @ down_arrow @ ''=cycle  ?=help  q=quit''"

definition controls ::
    "'f::{zero,linorder} ViewFloats \<Rightarrow> u64 \<Rightarrow> bool \<Rightarrow> u64 \<Rightarrow> 'f \<Rightarrow> u64 \<Rightarrow> App \<Rightarrow> Line" where
  "controls fl clock_us is_paused speed_us rate latency app =
     (case input_mode app of
        EnteringKey \<Rightarrow>
          [(''  SET key: '', plain), (input_key app @ cursor_block, fg Yellow),
           (''  (Enter/Tab = confirm key   Esc = cancel)'', fg DarkGray)]
      | EnteringValue \<Rightarrow>
          [(''  SET '' @ input_key app @ ''='', plain), (input_val app @ cursor_block, fg Yellow),
           (''  (Enter = submit   Esc = cancel)'', fg DarkGray)]
      | Normal \<Rightarrow>
          (let (clock_label, clock_color) = (if is_paused then (''PAUSED'', Yellow) else (''RUNNING'', Green)) in
           [(''  t='' @ show_clock_time fl clock_us @ ''s step='' @ show_clock_step fl speed_us @ micro @
               ''s ['' @ clock_label @ '']'', (fg clock_color)\<lparr>style_bold := True\<rparr>),
            (fault_str fl rate latency, fg Red), (''  '', plain), (status app, fg LightBlue),
            (help_line, fg DarkGray)]))"

section \<open>renderer.rs: drawing a frame\<close>

text \<open>The metrics are shared between the running node and its handle.\<close>

definition handle_metrics :: "NodeHandle \<Rightarrow> MetricsInner" where
  "handle_metrics h = (case h_task h of Some n \<Rightarrow> metrics n | None \<Rightarrow> h_metrics h)"

definition node_snapshot :: "('f, 'w) Cluster \<Rightarrow> NodeId \<Rightarrow> MetricsSnapshot option" where
  "node_snapshot cl i = (case handles cl i of
     None \<Rightarrow> None
   | Some h \<Rightarrow> if alive h then Some (to_snapshot (handle_metrics h)) else None)"

definition snapshots :: "('f, 'w) Cluster \<Rightarrow> (NodeId \<times> MetricsSnapshot option) list" where
  "snapshots cl = map (\<lambda>i. (i, node_snapshot cl i)) (node_ids cl)"

record Frame =
  frame_overview :: "Row list"
  frame_log :: Panel
  frame_messages :: Panel
  frame_controls :: Line

definition draw :: "'f::{zero,linorder} ViewFloats \<Rightarrow> App \<Rightarrow> ('f, 'w) Cluster \<Rightarrow> Frame" where
  "draw fl app cl =
     (let snaps = snapshots cl;
          sel = unat (selected app);
          selected_snap = (if sel < length snaps then snd (snaps ! sel) else None);
          all_snaps = List.map_filter snd snaps in
      \<lparr>frame_overview = cluster_overview snaps sel,
       frame_log = log_view selected_snap,
       frame_messages = message_log_view (show_event_time fl) all_snaps,
       frame_controls = controls fl (now_us (clock cl)) (paused (clock cl)) (step_us (clock cl))
         (cluster_drop_rate cl) (cluster_latency_ms cl) app\<rparr>)"

section \<open>The overview\<close>

lemma node_snapshot_running:
  assumes "lifecycle_ok cl"
  shows "node_snapshot cl i = map_option (\<lambda>n. to_snapshot (metrics n)) (running cl i)"
proof -
  have "node_status (handles cl i) (senders (network cl) i)" using assms by (simp add: lifecycle_ok_def)
  then show ?thesis
    by (auto simp: node_snapshot_def running_def handle_metrics_def split: option.splits if_splits)
qed

lemma nth_cluster_overview:
  "k < length xs \<Longrightarrow> cluster_overview xs sel ! k = overview_row sel k (xs ! k)"
  by (simp add: cluster_overview_def nth_enumerate_eq)

text \<open>The overview shows the cluster: one row per node, in order, the selected one highlighted; a dead
  node is shown as such, a running one with the role, term, indices and log length of its state.\<close>

theorem overview_shows_cluster:
  assumes "lifecycle_ok cl" "k < length (node_ids cl)"
    "\<And>n. running cl (node_ids cl ! k) = Some n \<Longrightarrow> metrics_in_sync n"
  shows "length (frame_overview (draw fl app cl)) = length (node_ids cl) \<and>
    (style_bg (snd (frame_overview (draw fl app cl) ! k)) = Some DarkGray \<longleftrightarrow> k = unat (selected app)) \<and>
    map fst (fst (frame_overview (draw fl app cl) ! k)) = show_u64 (node_ids cl ! k) #
      (case running cl (node_ids cl ! k) of
         None \<Rightarrow> ''DEAD'' # replicate 5 em_dash
       | Some n \<Rightarrow> [''alive'', fst (role_cell (role (raft n))), show_u64 (cterm (raft n)),
           show_u64 (rcommit (raft n)), show_u64 (rapplied (raft n)),
           show_u64 (of_nat (length (rlog (raft n))))])"
proof -
  have "frame_overview (draw fl app cl) ! k =
      overview_row (unat (selected app)) k (node_ids cl ! k, node_snapshot cl (node_ids cl ! k))"
    using assms(2) by (simp add: draw_def Let_def snapshots_def nth_cluster_overview)
  with assms(3) show ?thesis
    by (auto simp: draw_def Let_def snapshots_def cluster_overview_def overview_row_def plain_def
        node_snapshot_running [OF assms(1)] metrics_in_sync_def to_snapshot_def split: option.splits)
qed

section \<open>The log panel\<close>

lemma upt_three: "a \<le> b \<Longrightarrow> b \<le> c \<Longrightarrow> [1 ..< Suc c] = [1 ..< Suc a] @ [Suc a ..< Suc b] @ [Suc b ..< Suc c]"
  using upt_add_eq_append [of 1 "Suc a" "c - a"] upt_add_eq_append [of "Suc a" "Suc b" "c - b"] by simp

lemma le_of_nat_u64: "k < 2 ^ 64 \<Longrightarrow> (of_nat k :: u64) \<le> w \<longleftrightarrow> k \<le> unat w"
  by (simp add: word_le_nat_alt unat_of_nat take_bit_nat_eq_self)

lemma log_view_blocks:
  assumes "snap_last_applied s \<le> snap_commit_index s" "snap_commit_index s \<le> snap_log_length s"
    "0 < snap_log_length s"
  shows "panel_items (log_view (Some s)) =
    map (\<lambda>k. marked (check_mark, Green) (of_nat k)) [1 ..< Suc (unat (snap_last_applied s))] @
    map (\<lambda>k. marked (circle, Yellow) (of_nat k))
      [Suc (unat (snap_last_applied s)) ..< Suc (unat (snap_commit_index s))] @
    map (\<lambda>k. marked (dot, DarkGray) (of_nat k))
      [Suc (unat (snap_commit_index s)) ..< Suc (unat (snap_log_length s))]"
proof -
  let ?a = "unat (snap_last_applied s)" and ?c = "unat (snap_commit_index s)" and ?l = "unat (snap_log_length s)"
  have ac: "?a \<le> ?c" "?c \<le> ?l" using assms(1,2) by (simp_all add: word_le_nat_alt)
  have le: "(of_nat k :: u64) \<le> w \<longleftrightarrow> k \<le> unat w" if "k \<le> ?l" for k w
    by (rule le_of_nat_u64) (use that unsigned_less [of "snap_log_length s", where 'a = nat] in simp)
  let ?line = "\<lambda>k. marked (log_marker ((of_nat k :: u64) \<le> snap_commit_index s) ((of_nat k :: u64) \<le> snap_last_applied s)) (of_nat k)"
  have "snap_log_length s \<noteq> 0" using assms(3) by auto
  then have "panel_items (log_view (Some s)) = map ?line [1 ..< Suc ?l]"
    by (simp add: log_view_def indices_to_def comp_def del: upt_Suc)
  also have "\<dots> = map ?line [1 ..< Suc ?a] @ map ?line [Suc ?a ..< Suc ?c] @ map ?line [Suc ?c ..< Suc ?l]"
    by (simp only: upt_three [OF ac] map_append)
  also have "map ?line [1 ..< Suc ?a] = map (\<lambda>k. marked (check_mark, Green) (of_nat k)) [1 ..< Suc ?a]"
    using ac by (intro map_cong) (simp_all add: le log_marker_def del: upt_Suc)
  also have "map ?line [Suc ?a ..< Suc ?c] = map (\<lambda>k. marked (circle, Yellow) (of_nat k)) [Suc ?a ..< Suc ?c]"
    using ac by (intro map_cong) (simp_all add: le log_marker_def del: upt_Suc)
  also have "map ?line [Suc ?c ..< Suc ?l] = map (\<lambda>k. marked (dot, DarkGray) (of_nat k)) [Suc ?c ..< Suc ?l]"
    by (intro map_cong) (simp_all add: le log_marker_def del: upt_Suc)
  finally show ?thesis .
qed

text \<open>The log panel. For a live node whose indices are in order, the panel of the selected node
  lists every index of its log once and in order, as three blocks: the applied entries with a
  check mark, the committed ones that wait for their turn with a circle, and the others with a
  dot. It shows nothing of a dead node.\<close>

theorem log_panel_blocks:
  assumes "lifecycle_ok cl" "unat (selected app) < length (node_ids cl)"
    "running cl (node_ids cl ! unat (selected app)) = Some n" "metrics_in_sync n"
    "rapplied (raft n) \<le> rcommit (raft n)" "unat (rcommit (raft n)) \<le> length (rlog (raft n))"
    "rlog (raft n) \<noteq> []" "length (rlog (raft n)) < 2 ^ 64"
  shows "panel_items (frame_log (draw fl app cl)) =
      map (\<lambda>k. marked (check_mark, Green) (of_nat k)) [1 ..< Suc (unat (rapplied (raft n)))] @
      map (\<lambda>k. marked (circle, Yellow) (of_nat k))
        [Suc (unat (rapplied (raft n))) ..< Suc (unat (rcommit (raft n)))] @
      map (\<lambda>k. marked (dot, DarkGray) (of_nat k))
        [Suc (unat (rcommit (raft n))) ..< Suc (length (rlog (raft n)))] \<and>
    panel_items (frame_log (draw fl app (kill_node (node_ids cl ! unat (selected app)) cl))) =
      [[(''  (node dead)'', plain)]]"
proof
  let ?i = "node_ids cl ! unat (selected app)"
  let ?s = "to_snapshot (metrics n)"
  have len: "unat (of_nat (length (rlog (raft n))) :: u64) = length (rlog (raft n))"
    using assms(8) by (simp add: unat_of_nat take_bit_nat_eq_self)
  have s: "snap_last_applied ?s = rapplied (raft n)" "snap_commit_index ?s = rcommit (raft n)"
    "snap_log_length ?s = of_nat (length (rlog (raft n)))"
    using assms(4) by (simp_all add: metrics_in_sync_def to_snapshot_def Let_def)
  have "0 < snap_log_length ?s" "snap_commit_index ?s \<le> snap_log_length ?s"
    using assms(6,7) len by (simp_all add: s word_less_nat_alt word_le_nat_alt)
  from log_view_blocks [OF _ this(2,1)] assms(5)
  have "panel_items (log_view (Some ?s)) =
      map (\<lambda>k. marked (check_mark, Green) (of_nat k)) [1 ..< Suc (unat (rapplied (raft n)))] @
      map (\<lambda>k. marked (circle, Yellow) (of_nat k))
        [Suc (unat (rapplied (raft n))) ..< Suc (unat (rcommit (raft n)))] @
      map (\<lambda>k. marked (dot, DarkGray) (of_nat k))
        [Suc (unat (rcommit (raft n))) ..< Suc (length (rlog (raft n)))]"
    by (simp add: s len del: upt_Suc)
  moreover have "frame_log (draw fl app cl) = log_view (Some ?s)"
    using assms(2,3) by (simp add: draw_def Let_def snapshots_def node_snapshot_running [OF assms(1)])
  ultimately show "panel_items (frame_log (draw fl app cl)) =
      map (\<lambda>k. marked (check_mark, Green) (of_nat k)) [1 ..< Suc (unat (rapplied (raft n)))] @
      map (\<lambda>k. marked (circle, Yellow) (of_nat k))
        [Suc (unat (rapplied (raft n))) ..< Suc (unat (rcommit (raft n)))] @
      map (\<lambda>k. marked (dot, DarkGray) (of_nat k))
        [Suc (unat (rcommit (raft n))) ..< Suc (length (rlog (raft n)))]"
    by simp
  have ids: "node_ids (kill_node ?i cl) = node_ids cl"
    by (simp add: kill_node_def split: option.split)
  with assms(2) running_kill_node [OF assms(1)] have "frame_log (draw fl app (kill_node ?i cl)) = log_view None"
    by (simp add: draw_def Let_def snapshots_def node_snapshot_running [OF lifecycle_ok_kill [OF assms(1)]])
  then show "panel_items (frame_log (draw fl app (kill_node ?i cl))) = [[(''  (node dead)'', plain)]]"
    by (simp add: log_view_def)
qed

section \<open>The message panel\<close>

text \<open>The prefix tests of the panel tell the four labels of the node runtime apart.\<close>

lemma label_color_msg_label:
  "label_color (msg_label m) = (case m of
     MRequestVote _ \<Rightarrow> fg Yellow | MRequestVoteResponse _ \<Rightarrow> fg Magenta
   | MAppendEntries _ \<Rightarrow> fg Cyan | MAppendEntriesResponse _ \<Rightarrow> fg Green)"
  by (simp add: label_color_def msg_label_def split: Message.split)

lemma map_filter_snapshots:
  assumes "lifecycle_ok cl"
  shows "List.map_filter snd (snapshots cl) =
    map (\<lambda>n. to_snapshot (metrics n)) (List.map_filter (running cl) (node_ids cl))"
  by (auto simp: snapshots_def node_snapshot_running [OF assms] map_filter_def comp_def filter_map)

text \<open>The message panel. It shows the up to 200 newest of the messages the live nodes remember:
  newest first, each as often as remembered, and none left out that is newer than one shown;
  messages of the same tick stay in the order of the nodes and of their sending.\<close>

theorem message_panel_newest_first:
  fixes cl :: "('f::{zero,linorder}, 'w) Cluster"
  assumes "lifecycle_ok cl"
  defines "all \<equiv> concat (map (\<lambda>n. m_message_log (metrics n)) (List.map_filter (running cl) (node_ids cl)))"
  shows "\<exists>shown hidden. panel_items (frame_messages (draw fl app cl)) = map (message_line (show_event_time fl)) shown \<and>
    length shown = min 200 (length all) \<and> mset shown + mset hidden = mset all \<and>
    sorted_wrt (\<lambda>a b. ev_tick b \<le> ev_tick a) shown \<and>
    (\<forall>a \<in> set shown. \<forall>b \<in> set hidden. ev_tick b \<le> ev_tick a) \<and>
    (\<forall>t. filter (\<lambda>e. ev_tick e = t) (shown @ hidden) = filter (\<lambda>e. ev_tick e = t) all)"
proof -
  let ?key = "\<lambda>e. - int (unat (ev_tick e))"
  define es where "es = sort_key ?key all"
  have "concat (map snap_message_log (List.map_filter snd (snapshots cl))) = all"
    by (simp add: map_filter_snapshots [OF assms(1)] all_def comp_def to_snapshot_def)
  then have items: "panel_items (frame_messages (draw fl app cl)) =
      map (message_line (show_event_time fl)) (take 200 es)"
    by (simp add: draw_def Let_def message_log_view_def shown_events_def es_def)
  have "sorted (map ?key es)" by (simp add: es_def)
  then have sorted: "sorted_wrt (\<lambda>a b. ev_tick b \<le> ev_tick a) es"
    by (simp add: sorted_map word_le_def)
  then have two: "sorted_wrt (\<lambda>a b. ev_tick b \<le> ev_tick a) (take 200 es @ drop 200 es)" by simp
  have ms: "mset (take 200 es) + mset (drop 200 es) = mset all"
    by (metis append_take_drop_id es_def mset_append mset_sort)
  have stable: "filter (\<lambda>e. ev_tick e = t) es = filter (\<lambda>e. ev_tick e = t) all" for t
  proof -
    have eq: "(\<lambda>e. ev_tick e = t) = (\<lambda>e. ?key e = - int (unat t))" by (auto simp: fun_eq_iff word_eq_iff_unsigned [where 'a = int])
    show ?thesis unfolding es_def eq by (rule sort_key_stable)
  qed
  have "length (take 200 es) = min 200 (length all)" by (simp add: es_def)
  with items two ms stable show ?thesis
    unfolding sorted_wrt_append by (intro exI [of _ "take 200 es"] exI [of _ "drop 200 es"]) auto
qed

section \<open>A frame\<close>

text \<open>A new cluster in which node 1 has run for a while: two entries, one of them applied, and two
  messages sent.\<close>

definition busy_raft :: Raft where
  "busy_raft = (raft_init 1 [2, 3])\<lparr>persistent := \<lparr>current_term = 1, voted_for = Some 1,
       log = [\<lparr>entry_term = 1, index = 1, command = command_default\<rparr>,
              \<lparr>entry_term = 1, index = 2, command = command_default\<rparr>]\<rparr>,
     volatile := \<lparr>commit_index = 1, last_applied = 1\<rparr>\<rparr>"

definition first_event :: MessageEvent where
  "first_event = \<lparr>ev_tick = 5, ev_from = 1, ev_to = 2, ev_label = ''VoteResponse(t=1, granted=true)''\<rparr>"

definition second_event :: MessageEvent where
  "second_event = \<lparr>ev_tick = 7, ev_from = 1, ev_to = 3, ev_label = ''AppendEntries(t=1, n=0)''\<rparr>"

definition busy_node :: "SimNode \<Rightarrow> SimNode" where
  "busy_node n = update_metrics (n\<lparr>raft := busy_raft,
     metrics := (metrics n)\<lparr>m_message_log := [first_event, second_event]\<rparr>\<rparr>)"

lemma busy_cluster:
  "\<exists>(cl :: (nat, unit) Cluster) n. lifecycle_ok cl \<and> node_ids cl = members3 \<and>
     running cl 1 = Some (busy_node n) \<and> running cl 2 = None \<and> running cl 3 = None"
proof -
  obtain cl0 :: "(nat, unit) Cluster" where
    cl0: "cluster_new Debug members3 clock_new node_config_default = Inr cl0"
    using sample_cluster_new by blast
  then have ok: "lifecycle_ok cl0" by (rule lifecycle_ok_new)
  have "\<exists>h n. handles cl0 1 = Some h \<and> alive h \<and> h_task h = Some n" and ids: "node_ids cl0 = members3"
    using cl0 by (auto simp: cluster_new_def members3_def start_node_def mpsc_channel_def node_new_def
        node_config_default_def others_def register_def Let_def)
  then obtain h n where h: "handles cl0 1 = Some h" "alive h" "h_task h = Some n" by blast
  let ?c1 = "cl0\<lparr>handles := (handles cl0)(1 := Some (h\<lparr>h_task := Some (busy_node n)\<rparr>))\<rparr>"
  have "node_status (Some h) (senders (network cl0) 1)" using ok h(1) by (metis lifecycle_ok_def)
  then have ok1: "lifecycle_ok ?c1" using ok h by (simp add: lifecycle_ok_def)
  let ?c = "kill_node 3 (kill_node 2 ?c1)"
  have "lifecycle_ok ?c" using ok1 by (intro lifecycle_ok_kill)
  moreover have "node_ids ?c = members3" by (simp add: kill_node_def ids split: option.split)
  moreover have "running ?c 1 = Some (busy_node n)"
    by (simp add: kill_node_def running_def split: option.split)
  moreover have "running ?c 3 = None" "running (kill_node 2 ?c1) 2 = None"
    using running_kill_node [OF ok1] running_kill_node [OF lifecycle_ok_kill [OF ok1]] by blast+
  moreover have "running (kill_node 3 cl) 2 = running cl 2" for cl :: "(nat, unit) Cluster"
    by (simp add: kill_node_def running_def split: option.split)
  ultimately show ?thesis by metis
qed

definition sample_floats :: "nat ViewFloats" where
  "sample_floats = \<lparr>DROP_RATE_STEP = 1, show_percent = decimal, show_seconds = show_u64,
     show_event_time = show_u64, show_clock_time = show_u64, show_clock_step = show_u64\<rparr>"

theorem log_panel_blocks_witness:
  "\<exists>cl :: (nat, unit) Cluster. lifecycle_ok cl \<and>
     panel_items (frame_log (draw sample_floats app_default cl)) =
       [marked (check_mark, Green) 1, marked (dot, DarkGray) 2]"
proof -
  obtain cl :: "(nat, unit) Cluster" and n where
    cl: "lifecycle_ok cl" "node_ids cl = members3" "running cl 1 = Some (busy_node n)"
    using busy_cluster by blast
  have r: "raft (busy_node n) = busy_raft" by (simp add: busy_node_def update_metrics_def)
  have sync: "metrics_in_sync (busy_node n)" by (simp add: busy_node_def)
  have sel: "unat (selected app_default) < length (node_ids cl)"
    "running cl (node_ids cl ! unat (selected app_default)) = Some (busy_node n)"
    using cl by (simp_all add: app_default_def members3_def)
  have two: "[1 ..< Suc 1] = [1]" "[Suc 1 ..< Suc 1] = []" "[Suc 1 ..< Suc 2] = [2]" by (simp_all add: upt_rec)
  have b: "rapplied busy_raft = 1" "rcommit busy_raft = 1" "length (rlog busy_raft) = 2" "rlog busy_raft \<noteq> []"
    by (simp_all add: busy_raft_def)
  have "panel_items (frame_log (draw sample_floats app_default cl)) =
      [marked (check_mark, Green) 1, marked (dot, DarkGray) 2]"
    using log_panel_blocks [OF cl(1) sel sync, of sample_floats]
    unfolding r b unat_1 two by (simp add: b(4))
  with cl(1) show ?thesis by blast
qed

theorem message_panel_newest_first_witness:
  "\<exists>(cl :: (nat, unit) Cluster) shown. lifecycle_ok cl \<and>
     panel_items (frame_messages (draw sample_floats app_default cl)) = map (message_line show_u64) shown \<and>
     length shown = 2 \<and> sorted_wrt (\<lambda>a b. ev_tick b \<le> ev_tick a) shown \<and>
     mset shown = {#second_event, first_event#}"
proof -
  obtain cl :: "(nat, unit) Cluster" and n where
    cl: "lifecycle_ok cl" "node_ids cl = members3" "running cl 1 = Some (busy_node n)"
      "running cl 2 = None" "running cl 3 = None"
    using busy_cluster by blast
  have log: "m_message_log (metrics (busy_node n)) = [first_event, second_event]"
    by (simp add: busy_node_def update_metrics_def update_fields_def)
  have "concat (map (\<lambda>n. m_message_log (metrics n)) (List.map_filter (running cl) (node_ids cl))) =
      [first_event, second_event]"
    by (simp add: cl members3_def map_filter_simps log)
  with message_panel_newest_first [OF cl(1), of sample_floats app_default]
  obtain shown hidden where
    "panel_items (frame_messages (draw sample_floats app_default cl)) = map (message_line show_u64) shown"
    "length shown = 2" "mset shown + mset hidden = {#first_event, second_event#}"
    "sorted_wrt (\<lambda>a b. ev_tick b \<le> ev_tick a) shown"
    by (auto simp: sample_floats_def)
  moreover from arg_cong [OF this(3), of size] this(2) have "hidden = []" by simp
  ultimately show ?thesis using cl(1) by (auto simp: add_mset_commute)
qed

end
