(* ===== verification/SimRun.thy ===== *)
theory SimRun
  imports SimUi RuntimeProps
begin

text \<open>
  The whole simulator in motion: the running nodes of \<open>raft-runtime\<close>, with the transport, the
  persistence and the state machine that \<open>raft-simulator/src/cluster.rs\<close> gives them, over the shared
  network and clock, and the user at the controls. Every turn of an event loop, every timer, every
  landing message, every tick and every user action is one step, and the steps can come in any order.
\<close>

section \<open>The cluster of the program\<close>

text \<open>\<open>main.rs\<close>: five nodes with timeouts shorter than the defaults of the runtime.\<close>

definition sim_config :: NodeConfig where
  "sim_config =
     \<lparr>election_timeout_min = from_millis 150, election_timeout_max = from_millis 300,
      heartbeat_interval = from_millis 50, incoming_channel_capacity = 256, client_channel_capacity = 64\<rparr>"

definition sim_node_ids :: "NodeId list" where
  "sim_node_ids = [1, 2, 3, 4, 5]"

definition start_cluster :: "profile \<Rightarrow> panic + ('f::{zero,one,linorder}, 'w) Cluster" where
  "start_cluster p = cluster_new p sim_node_ids clock_new sim_config"

section \<open>The components of a simulated node\<close>

text \<open>
  While a node runs, its transport (a \<open>NodeNetwork\<close>) holds its id and the shared network; the number
  counts the random numbers drawn. The store applies the commands, nothing is persisted, and sending
  is \<open>Network::deliver\<close>.
\<close>

type_synonym 'f Shared = "NodeId \<times> nat \<times> 'f Network"

definition sim_env ::
    "(nat \<Rightarrow> nat) \<Rightarrow> (nat \<Rightarrow> 'f::{zero,one,linorder}) \<Rightarrow> (KeyValueStore, unit, 'f Shared) Env" where
  "sim_env rg rnds =
     \<lparr>apply_command = kv_apply, save_state = (\<lambda>st d. (d, no_save st)),
      transport_send = (\<lambda>to msg (i, k, nw). (i, Suc k, deliver (rnds k) i to msg nw)), rng = rg\<rparr>"

text \<open>The shared parts, the network and the time, are handed to a node for its turn and taken back.\<close>

definition attach :: "'f Network \<Rightarrow> u64 \<Rightarrow> SimNode \<Rightarrow> (KeyValueStore, unit, 'f Shared) Node" where
  "attach nw now n =
     \<lparr>raft = raft n, transport = (transport n, 0, nw), persistence = persistence n,
      state_machine = state_machine n, metrics = metrics n, timers = timers n, pending = pending n,
      outcomes = outcomes n, clock_tick = now\<rparr>"

definition detach :: "(KeyValueStore, unit, 'f Shared) Node \<Rightarrow> SimNode" where
  "detach n =
     \<lparr>raft = raft n, transport = fst (transport n), persistence = persistence n,
      state_machine = state_machine n, metrics = metrics n, timers = timers n, pending = pending n,
      outcomes = outcomes n, clock_tick = clock_tick n\<rparr>"

definition shared_network :: "(KeyValueStore, unit, 'f Shared) Node \<Rightarrow> 'f Network" where
  "shared_network n = snd (snd (transport n))"

definition put_node :: "NodeId \<Rightarrow> SimNode \<Rightarrow> ('f, 'w) Cluster \<Rightarrow> ('f, 'w) Cluster" where
  "put_node i n cl = cl\<lparr>handles := (handles cl)(i := map_option (\<lambda>h. h\<lparr>h_task := Some n\<rparr>) (handles cl i))\<rparr>"

section \<open>One turn of a node\<close>

text \<open>Receiving from a channel: its oldest message, when there is one.\<close>

definition recv :: "nat \<Rightarrow> 'f Network \<Rightarrow> ((NodeId \<times> Message) \<times> 'f Network) option" where
  "recv ch nw =
     (case channels nw ch of
        None \<Rightarrow> None
      | Some c \<Rightarrow>
          (case queue c of
             [] \<Rightarrow> None
           | m # rest \<Rightarrow> Some (m, nw\<lparr>channels := (channels nw)(ch := Some (c\<lparr>queue := rest\<rparr>))\<rparr>)))"

text \<open>The three branches of \<open>select!\<close>; the receiving end of a live node's channel is the other end of
  the one registered for it.\<close>

datatype Source = Timer | Peer | Client

fun select_input :: "NodeId \<Rightarrow> Source \<Rightarrow> ('f, 'w) Cluster \<Rightarrow> (Input \<times> ('f, 'w) Cluster) option" where
  "select_input i Timer cl = Some (FromTimer, cl)"
| "select_input i Peer cl =
     (case senders (network cl) i of
        None \<Rightarrow> None
      | Some ch \<Rightarrow> map_option (\<lambda>((frm, msg), nw). (FromPeer frm msg, cl\<lparr>network := nw\<rparr>)) (recv ch (network cl)))"
| "select_input i Client cl =
     (case handles cl i of
        None \<Rightarrow> None
      | Some h \<Rightarrow>
          (case h_clients h of
             [] \<Rightarrow> None
           | (cmd, client) # rest \<Rightarrow> Some (FromClient cmd client,
               cl\<lparr>handles := (handles cl)(i := Some (h\<lparr>h_clients := rest\<rparr>))\<rparr>)))"

text \<open>A node handles inputs from the moment it has begun to run, which it does once; it begins by starting
  its election timer, the first task its timers spawn.\<close>

definition begun :: "SimNode \<Rightarrow> bool" where
  "begun n \<longleftrightarrow> 0 < spawned (tasks (timers n))"

definition turn ::
    "profile \<Rightarrow> (nat \<Rightarrow> nat) \<Rightarrow> (nat \<Rightarrow> 'f::{zero,one,linorder}) \<Rightarrow> NodeId \<Rightarrow> Source \<Rightarrow> ('f, 'w) Cluster \<Rightarrow>
     (panic + ('f, 'w) Cluster) option" where
  "turn p rg rnds i src cl =
     (case running cl i of
        None \<Rightarrow> None
      | Some n \<Rightarrow>
          if \<not> begun n then None
          else (case select_input i src cl of
             None \<Rightarrow> None
           | Some (inp, cl1) \<Rightarrow>
               map_option (\<lambda>x. and_then x (\<lambda>n'.
                   Inr (put_node i (detach n') (cl1\<lparr>network := shared_network n'\<rparr>))))
                 (run_once p (sim_env rg rnds) inp (attach (network cl1) (now_us (clock cl1)) n))))"

text \<open>The beginning of \<open>Node::run\<close>, before its loop.\<close>

definition begin_run ::
    "(nat \<Rightarrow> nat) \<Rightarrow> NodeId \<Rightarrow> ('f::{zero,one,linorder}, 'w) Cluster \<Rightarrow> (panic + ('f, 'w) Cluster) option" where
  "begin_run rg i cl =
     (case running cl i of
        None \<Rightarrow> None
      | Some n \<Rightarrow>
          if begun n then None
          else Some (and_then (node_start (sim_env rg (\<lambda>_. 0 :: 'f)) (attach (network cl) (now_us (clock cl)) n))
            (\<lambda>n'. Inr (put_node i (detach n') cl))))"

definition timer_fires :: "NodeId \<Rightarrow> nat \<Rightarrow> ('f, 'w) Cluster \<Rightarrow> ('f, 'w) Cluster option" where
  "timer_fires i k cl =
     (case running cl i of
        None \<Rightarrow> None
      | Some n \<Rightarrow> map_option (\<lambda>t. put_node i (n\<lparr>timers := t\<rparr>) cl) (fire k (timers n)))"

section \<open>The steps of the simulator\<close>

text \<open>
  \<open>Fires i k\<close> ends the sleep of timer task \<open>k\<close> of node \<open>i\<close>, \<open>Lands k\<close> that of the \<open>k\<close>-th message in
  flight; when they happen is left open. The client number of a user action names the reply channel
  of a submitted command. A step that cannot happen is None.
\<close>

datatype 'f SimEvent =
    Begins NodeId "nat \<Rightarrow> nat"
  | Turn NodeId Source "nat \<Rightarrow> nat" "nat \<Rightarrow> 'f"
  | Fires NodeId nat
  | Lands nat
  | Advances
  | User UiAction App nat

fun sim_event ::
    "profile \<Rightarrow> 'f::{zero,one,plus,minus,linorder} Floats \<Rightarrow> 'f SimEvent \<Rightarrow> ('f, 'w) Cluster \<Rightarrow>
     (panic + ('f, 'w) Cluster) option" where
  "sim_event p fl (Begins i rg) cl = begin_run rg i cl"
| "sim_event p fl (Turn i src rg rnds) cl = turn p rg rnds i src cl"
| "sim_event p fl (Fires i k) cl = map_option Inr (timer_fires i k cl)"
| "sim_event p fl (Lands k) cl = Some (Inr (cl\<lparr>network := arrive k (network cl)\<rparr>))"
| "sim_event p fl Advances cl =
     Some (and_then (auto_advance p (clock cl)) (\<lambda>(woken, c). Inr (cl\<lparr>clock := c\<rparr>)))"
| "sim_event p fl (User a app client) cl =
     Some (and_then (apply_action p fl client a app cl) (\<lambda>(_, _, _, cl'). Inr cl'))"

text \<open>A run of the simulator; it ends at a panic.\<close>

fun simulate ::
    "profile \<Rightarrow> 'f::{zero,one,plus,minus,linorder} Floats \<Rightarrow> 'f SimEvent list \<Rightarrow> ('f, 'w) Cluster \<Rightarrow>
     ('f, 'w) Cluster option" where
  "simulate p fl [] cl = Some cl"
| "simulate p fl (e # es) cl =
     (case sim_event p fl e cl of Some (Inr cl') \<Rightarrow> simulate p fl es cl' | _ \<Rightarrow> None)"

lemma simulate_append:
  "simulate p fl (xs @ ys) cl = (case simulate p fl xs cl of None \<Rightarrow> None | Some cl' \<Rightarrow> simulate p fl ys cl')"
  by (induction xs arbitrary: cl) (auto split: option.split sum.split)

text \<open>Restarting a node, which forgets its state, is the one action a Raft cluster does not allow for.\<close>

fun restarts :: "'f SimEvent \<Rightarrow> bool" where
  "restarts (User RestartNode _ _) = True"
| "restarts _ = False"

end
