(* ===== verification/SimRefinement.thy ===== *)
theory SimRefinement
  imports SimRun StateMachineSafety
begin

text \<open>
  The simulator refines the cluster model: what the running nodes hold, and what waits in their
  channels, is what the model of the consensus protocol allows. Each step of the simulator is an
  event of that model or invisible to it; a forward simulation carries this over to runs.
\<close>

section \<open>The channels hold only what was sent\<close>

text \<open>Whatever waits for a registered node, in its channel or in flight to it, is in \<open>N\<close>.\<close>

definition net_ok :: "(NodeId \<times> Message) set \<Rightarrow> 'f Network \<Rightarrow> bool" where
  "net_ok N nw \<longleftrightarrow> (\<forall>i ch. senders nw i = Some ch \<longrightarrow>
     (\<forall>c. channels nw ch = Some c \<longrightarrow> (\<forall>x \<in> set (queue c). (i, snd x) \<in> N)) \<and>
     (\<forall>fl \<in> set (in_flight nw). flight_channel fl = ch \<longrightarrow> (i, flight_msg fl) \<in> N))"

definition senders_inj :: "'f Network \<Rightarrow> bool" where
  "senders_inj nw \<longleftrightarrow> (\<forall>i j ch. senders nw i = Some ch \<longrightarrow> senders nw j = Some ch \<longrightarrow> i = j)"

text \<open>What sending, landing and receiving change: the registry stays, no channel opens or closes,
  messages fly only to registered channels.\<close>

definition traffic :: "(NodeId \<times> Message) set \<Rightarrow> 'f Network \<Rightarrow> 'f Network \<Rightarrow> bool" where
  "traffic N nw nw' \<longleftrightarrow> senders nw' = senders nw \<and>
     (\<forall>ch. channels nw' ch = None \<longleftrightarrow> channels nw ch = None) \<and>
     (\<forall>fl \<in> set (in_flight nw'). fl \<in> set (in_flight nw) \<or> flight_channel fl \<in> ran (senders nw)) \<and>
     (senders_inj nw \<longrightarrow> net_ok N nw \<longrightarrow> net_ok N nw')"

lemma traffic_refl [simp]: "traffic N nw nw"
  by (simp add: traffic_def)

lemma traffic_trans: "traffic N a b \<Longrightarrow> traffic N b c \<Longrightarrow> traffic N a c"
  by (auto simp: traffic_def senders_inj_def)

lemma traffic_mono_ok: "net_ok N nw \<Longrightarrow> N \<subseteq> N' \<Longrightarrow> net_ok N' nw"
  by (fastforce simp: net_ok_def)

lemma traffic_try_send:
  assumes "\<And>i. senders nw i = Some ch \<Longrightarrow> (i, snd m) \<in> N"
  shows "traffic N nw (try_send ch m nw)"
  using assms by (auto simp: traffic_def try_send_def net_ok_def split: option.splits)

lemma traffic_deliver:
  assumes "(to, msg) \<in> N"
  shows "traffic N nw (deliver rnd frm to msg nw)"
proof (cases "senders nw to")
  case None
  then show ?thesis by (simp add: deliver_def)
next
  case (Some tx)
  show ?thesis
  proof (cases "senders_inj nw")
    case True
    with Some have "i = to" if "senders nw i = Some tx" for i using that by (auto simp: senders_inj_def)
    with assms have "traffic N nw (try_send tx (frm, msg) nw)" by (intro traffic_try_send) auto
    moreover have "traffic N nw (nw\<lparr>in_flight := in_flight nw @ [\<lparr>flight_ms = l, flight_channel = tx,
        flight_from = frm, flight_msg = msg\<rparr>]\<rparr>)" for l
      using Some True assms by (auto simp: traffic_def net_ok_def senders_inj_def ran_def)
    ultimately show ?thesis using Some by (simp add: deliver_def Let_def)
  next
    case False
    with Some show ?thesis
      by (auto simp: traffic_def deliver_def Let_def try_send_def ran_def split: option.splits)
  qed
qed

lemma traffic_arrive: "traffic N nw (arrive k nw)"
proof (cases "senders_inj nw \<and> net_ok N nw \<and> k < length (in_flight nw)")
  case True
  let ?f = "in_flight nw ! k"
  let ?nw = "nw\<lparr>in_flight := take k (in_flight nw) @ drop (Suc k) (in_flight nw)\<rparr>"
  have sub: "set (take k (in_flight nw) @ drop (Suc k) (in_flight nw)) \<subseteq> set (in_flight nw)"
    using set_take_subset set_drop_subset by (metis Un_least set_append)
  have "(i, flight_msg ?f) \<in> N" if "senders nw i = Some (flight_channel ?f)" for i
    using True that by (auto simp: net_ok_def)
  then have "traffic N ?nw (try_send (flight_channel ?f) (flight_from ?f, flight_msg ?f) ?nw)"
    by (intro traffic_try_send) simp
  moreover have "traffic N nw ?nw" using sub by (fastforce simp: traffic_def net_ok_def)
  ultimately have "traffic N nw (try_send (flight_channel ?f) (flight_from ?f, flight_msg ?f) ?nw)"
    by (rule traffic_trans [rotated])
  with True show ?thesis by (simp add: arrive_def Let_def)
next
  case False
  then show ?thesis
    using set_take_subset [of k "in_flight nw"] set_drop_subset [of "Suc k" "in_flight nw"]
    by (auto simp: traffic_def arrive_def Let_def try_send_def split: option.splits)
qed

lemma recv_effect:
  assumes "recv ch nw = Some ((frm, msg), nw')"
  shows "traffic N nw nw' \<and> (net_ok N nw \<longrightarrow> senders nw i = Some ch \<longrightarrow> (i, msg) \<in> N)"
  using assms by (fastforce simp: recv_def traffic_def net_ok_def split: option.splits list.splits if_splits)

text \<open>The messages of a turn, sent one after the other.\<close>

lemma traffic_sends:
  assumes "set ms \<subseteq> N" "fold (\<lambda>(to, m). transport_send (sim_env rg rnds) to m) ms (i, k, nw) = (j, l, nw')"
  shows "j = i \<and> traffic N nw nw'"
  using assms
proof (induction ms arbitrary: k nw)
  case Nil
  then show ?case by simp
next
  case (Cons x ms)
  obtain to m where x: "x = (to, m)" by fastforce
  with Cons.prems have rest: "fold (\<lambda>(to, m). transport_send (sim_env rg rnds) to m) ms
      (i, Suc k, deliver (rnds k) i to m nw) = (j, l, nw')"
    by (simp add: sim_env_def)
  from x Cons.prems(1) have "traffic N nw (deliver (rnds k) i to m nw)" by (intro traffic_deliver) simp
  with Cons.IH [OF _ rest] Cons.prems(1) show ?case by (auto intro: traffic_trans)
qed

section \<open>A turn of a node is a step of the cluster model\<close>

lemma handle_client_effect:
  assumes "handle_client p env cmd client n = Inr n'"
  shows "\<exists>r as m m'. raft_step p (raft n) (ClientRequest cmd) = Inr (r, as) \<and>
    raft m = r \<and> transport m = transport n \<and> state_machine m = state_machine n \<and> timers m = timers n \<and>
    process_actions env as m = Inr m' \<and> n' = update_metrics m'"
proof -
  obtain r as where st: "raft_step p (raft n) (ClientRequest cmd) = Inr (r, as)"
    using assms by (auto simp: handle_client_def Let_def and_then_eq_Inr)
  let ?m = "if last_log_index r > last_log_index (raft n)
    then pending_insert (last_log_index r) client (n\<lparr>raft := r\<rparr>)
    else reply client (NotTheLeader (known_leader r)) (n\<lparr>raft := r\<rparr>)"
  obtain m' where "process_actions env as ?m = Inr m'" "n' = update_metrics m'"
    using assms st by (auto simp: handle_client_def Let_def and_then_eq_Inr)
  moreover have "raft ?m = r" "transport ?m = transport n" "state_machine ?m = state_machine n"
    "timers ?m = timers n"
    by (simp_all add: pending_insert_def reply_def)
  ultimately show ?thesis using st by blast
qed

text \<open>One event handled by the node, in terms of the Raft core and the components.\<close>

text \<open>What a list of actions does to the timers.\<close>

fun timer_action :: "(nat \<Rightarrow> nat) \<Rightarrow> Action \<Rightarrow> Timers \<Rightarrow> panic + Timers" where
  "timer_action rg ResetElectionTimer t = election_reset rg t"
| "timer_action rg ResetHeartbeatTimer t = Inr (heartbeat_reset (election_cancel t))"
| "timer_action rg _ t = Inr t"

fun timer_actions :: "(nat \<Rightarrow> nat) \<Rightarrow> Action list \<Rightarrow> Timers \<Rightarrow> panic + Timers" where
  "timer_actions rg [] t = Inr t"
| "timer_actions rg (a # as) t = and_then (timer_action rg a t) (timer_actions rg as)"

definition resets :: "Action list \<Rightarrow> bool" where
  "resets as \<longleftrightarrow> ResetElectionTimer \<in> set as \<or> ResetHeartbeatTimer \<in> set as"

text \<open>Taking events from the queue.\<close>

definition timers_left :: "Timers \<Rightarrow> Timers \<Rightarrow> bool" where
  "timers_left t t' \<longleftrightarrow> (\<exists>q. t' = t\<lparr>timer_queue := q\<rparr> \<and> set q \<subseteq> set (timer_queue t) \<and>
     length q \<le> length (timer_queue t))"

lemma timers_left_refl [simp]: "timers_left t t"
  unfolding timers_left_def by (rule exI [of _ "timer_queue t"]) simp

definition carried_out ::
    "profile \<Rightarrow> ('s, 'd, 't) Env \<Rightarrow> Event \<Rightarrow> ('s, 'd, 't) Node \<Rightarrow> ('s, 'd, 't) Node \<Rightarrow> Action list \<Rightarrow> bool" where
  "carried_out p env ev n n' as \<longleftrightarrow> raft_step p (raft n) ev = Inr (raft n', as) \<and>
     transport n' = fold (\<lambda>(to, m). transport_send env to m) (sends as) (transport n) \<and>
     state_machine n' = fold (apply_command env) (applied_commands as) (state_machine n) \<and>
     (\<exists>t. timers_left (timers n) t \<and> timer_actions (rng env) as t = Inr (timers n'))"

lemma process_actions_timers:
  "process_actions env as n = Inr n' \<Longrightarrow> timer_actions (rng env) as (timers n) = Inr (timers n')"
proof (induction as arbitrary: n)
  case (Cons a as)
  then obtain n1 where n1: "process_action env a n = Inr n1" "process_actions env as n1 = Inr n'"
    by (auto simp: and_then_eq_Inr)
  have "timer_action (rng env) a (timers n) = Inr (timers n1)"
    using n1(1) by (cases a) (auto simp: record_outgoing_def reply_def and_then_eq_Inr Let_def
        split: option.splits prod.splits sum.splits)
  with Cons.IH [OF n1(2)] show ?case by simp
qed simp

lemma timer_actions_quiet:
  "timer_actions rg as t = Inr t' \<Longrightarrow> \<not> resets as \<Longrightarrow> t' = t"
proof (induction as arbitrary: t)
  case (Cons a as)
  then have "timer_action rg a t = Inr t" by (cases a) (auto simp: resets_def)
  with Cons show ?case by (simp add: resets_def)
qed simp

lemma timer_actions_spawned: "timer_actions rg as t = Inr t' \<Longrightarrow> spawned (tasks t) \<le> spawned (tasks t')"
proof (induction as arbitrary: t)
  case (Cons a as)
  then obtain t1 where t1: "timer_action rg a t = Inr t1" "timer_actions rg as t1 = Inr t'"
    by (auto simp: and_then_eq_Inr)
  have "spawned (tasks t) \<le> spawned (tasks t1)"
    using t1(1) by (cases a) (auto dest: election_reset_effect)
  with Cons.IH [OF t1(2)] show ?case by simp
qed simp

text \<open>Where an event comes from: a message from the channel, an election timeout from the queue.\<close>

definition event_from :: "Input \<Rightarrow> ('s, 'd, 't) Node \<Rightarrow> Event \<Rightarrow> bool" where
  "event_from inp n ev \<longleftrightarrow> (\<forall>m. ev = EvMessage m \<longleftrightarrow> (\<exists>f. inp = FromPeer f m)) \<and>
     (ev = ElectionTimeout \<longrightarrow> TimerElection \<in> set (timer_queue (timers n))) \<and>
     (\<forall>q. inp = FromTimer \<longrightarrow> timer_queue (timers n) = TimerElection # q \<longrightarrow> ev = ElectionTimeout)"

lemma runtime_step_carried_out:
  assumes "runtime_step p env ev n = Inr n'"
  shows "\<exists>as. carried_out p env ev n n' as"
proof -
  obtain r as m where "raft_step p (raft n) ev = Inr (r, as)"
    "process_actions env as (n\<lparr>raft := r\<rparr>) = Inr m" "n' = update_metrics m"
    using assms by (auto simp: runtime_step_cases)
  with process_actions_effect [OF this(2)] process_actions_timers [OF this(2)] show ?thesis
    by (auto simp: carried_out_def intro!: exI [of _ "timers n"])
qed

lemma handle_client_carried_out:
  assumes "handle_client p env cmd client n = Inr n'"
  shows "\<exists>as. carried_out p env (ClientRequest cmd) n n' as"
proof -
  from handle_client_effect [OF assms] obtain r as m m' where
    "raft_step p (raft n) (ClientRequest cmd) = Inr (r, as)" "raft m = r" "transport m = transport n"
    "state_machine m = state_machine n" "timers m = timers n" "process_actions env as m = Inr m'"
    "n' = update_metrics m'"
    by blast
  with process_actions_effect [OF this(6)] process_actions_timers [OF this(6)] show ?thesis
    by (auto simp: carried_out_def intro!: exI [of _ "timers n"])
qed

lemma run_once_carried_out:
  assumes "run_once p env inp n = Some (Inr n')"
  shows "\<exists>ev as. carried_out p env ev n n' as \<and> event_from inp n ev"
proof (cases inp)
  case FromTimer
  then obtain te rest where te: "timer_queue (timers n) = te # rest" "runtime_step p env
      (case te of TimerElection \<Rightarrow> ElectionTimeout | TimerHeartbeat \<Rightarrow> HeartbeatTimeout)
      (n\<lparr>timers := (timers n)\<lparr>timer_queue := rest\<rparr>\<rparr>) = Inr n'"
    using assms by (auto simp: run_once_def split: list.splits)
  let ?ev = "case te of TimerElection \<Rightarrow> ElectionTimeout | TimerHeartbeat \<Rightarrow> HeartbeatTimeout"
  have left: "timers_left (timers n) t" if "timers_left ((timers n)\<lparr>timer_queue := rest\<rparr>) t" for t
    using that te(1) by (force simp: timers_left_def)
  obtain as where "carried_out p env ?ev (n\<lparr>timers := (timers n)\<lparr>timer_queue := rest\<rparr>\<rparr>) n' as"
    using runtime_step_carried_out [OF te(2)] by blast
  with left have "carried_out p env ?ev n n' as" by (auto simp: carried_out_def)
  moreover have "event_from inp n ?ev" using te(1) FromTimer by (cases te) (simp_all add: event_from_def)
  ultimately show ?thesis by blast
next
  case (FromPeer f m)
  then have "runtime_step p env (EvMessage m) n = Inr n'" using assms by (simp add: run_once_def)
  from runtime_step_carried_out [OF this] FromPeer show ?thesis by (auto simp: event_from_def)
next
  case (FromClient cmd client)
  then have "handle_client p env cmd client n = Inr n'" using assms by (simp add: run_once_def)
  from handle_client_carried_out [OF this] FromClient show ?thesis
    by (intro exI [of _ "ClientRequest cmd"]) (simp add: event_from_def)
qed

lemma running_update [simp]:
  "running (cl\<lparr>network := nw\<rparr>) = running cl" "running (cl\<lparr>clock := c\<rparr>) = running cl"
  by (simp_all add: running_def fun_eq_iff)

lemma running_put_node [simp]:
  "running (put_node i n cl) = (if handles cl i = None then running cl else (running cl)(i := Some n))"
  by (auto simp: running_def put_node_def fun_eq_iff split: option.split)

lemma put_node_frame [simp]:
  "network (put_node i n cl) = network cl" "node_ids (put_node i n cl) = node_ids cl"
  "next_channel (put_node i n cl) = next_channel cl"
  by (simp_all add: put_node_def)

lemma running_handle: "running cl i = Some n \<Longrightarrow> \<exists>h. handles cl i = Some h \<and> h_task h = Some n"
  by (auto simp: running_def split: option.splits)

lemma lifecycle_ok_put_node:
  assumes "lifecycle_ok cl" "running cl i = Some m"
  shows "lifecycle_ok (put_node i n cl)"
proof -
  obtain h where h: "handles cl i = Some h" "h_task h = Some m" using running_handle [OF assms(2)] by blast
  have "node_status (Some h) (senders (network cl) i)" using assms(1) h(1) by (metis lifecycle_ok_def)
  then show ?thesis using assms(1) h by (auto simp: lifecycle_ok_def put_node_def split: if_splits)
qed

lemma lifecycle_ok_traffic:
  assumes "lifecycle_ok cl" "traffic N (network cl) nw"
  shows "lifecycle_ok (cl\<lparr>network := nw\<rparr>)"
  using assms by (simp add: lifecycle_ok_def traffic_def)

lemma lifecycle_ok_senders_inj: "lifecycle_ok cl \<Longrightarrow> senders_inj (network cl)"
  by (simp add: lifecycle_ok_def senders_inj_def)

lemma select_input_effect:
  assumes "select_input i src cl = Some (inp, cl1)" "lifecycle_ok cl"
  shows "lifecycle_ok cl1 \<and> running cl1 = running cl \<and> node_ids cl1 = node_ids cl \<and>
    next_channel cl1 = next_channel cl \<and> traffic N (network cl) (network cl1) \<and>
    (\<forall>f m. inp = FromPeer f m \<longrightarrow> net_ok N (network cl) \<longrightarrow> (i, m) \<in> N)"
proof (cases src)
  case Timer
  with assms show ?thesis by auto
next
  case Peer
  with assms(1) obtain ch frm msg nw where ch: "senders (network cl) i = Some ch"
    and r: "recv ch (network cl) = Some ((frm, msg), nw)" "inp = FromPeer frm msg" "cl1 = cl\<lparr>network := nw\<rparr>"
    by (auto split: option.splits)
  from recv_effect [OF r(1), of N i] have t: "traffic N (network cl) nw"
    "net_ok N (network cl) \<longrightarrow> (i, msg) \<in> N" using ch by simp_all
  with r(2,3) lifecycle_ok_traffic [OF assms(2) t(1)] show ?thesis by (auto simp: running_def)
next
  case Client
  with assms(1) obtain h cmd c rest where h: "handles cl i = Some h" "inp = FromClient cmd c"
    "cl1 = cl\<lparr>handles := (handles cl)(i := Some (h\<lparr>h_clients := rest\<rparr>))\<rparr>"
    by (auto split: option.splits list.splits)
  have "node_status (Some h) (senders (network cl) i)" using assms(2) h(1) by (metis lifecycle_ok_def)
  with h assms(2) have "lifecycle_ok cl1" by (simp add: lifecycle_ok_def)
  moreover have "running cl1 = running cl" using h by (auto simp: running_def fun_eq_iff)
  ultimately show ?thesis using h by simp
qed

section \<open>The simulation relation\<close>

definition sim_rel :: "NodeId list \<Rightarrow> System \<Rightarrow> ('f, 'w) Cluster \<Rightarrow> bool" where
  "sim_rel members s cl \<longleftrightarrow> lifecycle_ok cl \<and> node_ids cl = members \<and>
     (\<forall>i n. running cl i = Some n \<longrightarrow> i \<in> set members \<and> transport n = i \<and> raft n = nodes s i \<and>
        state_machine n = fold kv_apply (apps s i) kv_new) \<and>
     net_ok (set (net s)) (network cl) \<and>
     (\<forall>fl \<in> set (in_flight (network cl)). flight_channel fl < next_channel cl)"

text \<open>Steps that start no node and send nothing.\<close>

lemma sim_rel_frame:
  assumes "sim_rel members s cl" "lifecycle_ok cl'" "node_ids cl' = node_ids cl"
    "next_channel cl' = next_channel cl"
    "\<And>i n. running cl' i = Some n \<Longrightarrow> \<exists>m. running cl i = Some m \<and> transport n = transport m \<and>
       raft n = raft m \<and> state_machine n = state_machine m"
    "net_ok (set (net s)) (network cl) \<Longrightarrow> net_ok (set (net s)) (network cl')"
    "set (in_flight (network cl')) \<subseteq> set (in_flight (network cl))"
  shows "sim_rel members s cl'"
  using assms unfolding sim_rel_def by fastforce

lemma sends_shared:
  assumes "transport n' = fold (\<lambda>(to, m). transport_send (sim_env rg rnds) to m) ms (i, 0, nw)" "set ms \<subseteq> N"
  shows "fst (transport n') = i \<and> traffic N nw (shared_network n')"
proof -
  obtain j l nw' where eq: "transport n' = (j, l, nw')" by (cases "transport n'") auto
  have "j = i \<and> traffic N nw nw'" by (rule traffic_sends [OF assms(2) assms(1) [symmetric, unfolded eq]])
  then show ?thesis by (simp add: eq shared_network_def)
qed

text \<open>A turn of node \<open>i\<close>, in full: the event it handles, the step of the model it is, and what becomes
  of the node's timers.\<close>

definition turn_steps ::
    "NodeId list \<Rightarrow> NodeId \<Rightarrow> Source \<Rightarrow> (nat \<Rightarrow> nat) \<Rightarrow> System \<Rightarrow> ('f, 'w) Cluster \<Rightarrow> ('f, 'w) Cluster \<Rightarrow> Event \<Rightarrow> Action list \<Rightarrow> System \<Rightarrow> bool" where
  "turn_steps members i src rg s cl cl' ev as s' \<longleftrightarrow>
     node_step members s i ev (nodes s' i) as \<and> s' = handled s i (nodes s' i) as \<and> sim_rel members s' cl' \<and>
     (\<exists>n n'. running cl i = Some n \<and> raft n = nodes s i \<and> running cl' = (running cl)(i := Some n') \<and>
        begun n \<and> begun n' \<and>
        (\<forall>m. ev = EvMessage m \<longleftrightarrow> (\<exists>f cl1. select_input i src cl = Some (FromPeer f m, cl1))) \<and>
        (ev = ElectionTimeout \<longrightarrow> TimerElection \<in> set (timer_queue (timers n))) \<and>
        (\<forall>q. src = Timer \<longrightarrow> timer_queue (timers n) = TimerElection # q \<longrightarrow> ev = ElectionTimeout) \<and>
        (\<exists>t. timers_left (timers n) t \<and> timer_actions rg as t = Inr (timers n')))"

lemma turn_step:
  assumes "sim_rel members s cl" "turn Debug rg rnds i src cl = Some (Inr cl')"
  shows "\<exists>ev as s'. turn_steps members i src rg s cl cl' ev as s'"
proof -
  obtain n inp cl1 n' where run: "running cl i = Some n" "begun n" and sel: "select_input i src cl = Some (inp, cl1)"
    and once: "run_once Debug (sim_env rg rnds) inp (attach (network cl1) (now_us (clock cl1)) n) = Some (Inr n')"
    and cl': "cl' = put_node i (detach n') (cl1\<lparr>network := shared_network n'\<rparr>)"
    using assms(2) by (auto simp: turn_def and_then_eq_Inr split: option.splits if_splits)
  have life: "lifecycle_ok cl" and ids: "node_ids cl = members" and net: "net_ok (set (net s)) (network cl)"
    and fl: "\<forall>fl \<in> set (in_flight (network cl)). flight_channel fl < next_channel cl"
    and n: "i \<in> set members" "transport n = i" "raft n = nodes s i"
      "state_machine n = fold kv_apply (apps s i) kv_new"
    using assms(1) run by (auto simp: sim_rel_def)
  note in1 = select_input_effect [OF sel life]
  let ?a = "attach (network cl1) (now_us (clock cl1)) n"
  obtain ev as where out: "carried_out Debug (sim_env rg rnds) ev ?a n' as" and from_in: "event_from inp ?a ev"
    using run_once_carried_out [OF once] by blast
  let ?s = "handled s i (raft n') as" and ?N = "set (net (handled s i (raft n') as))"
  from out n have st: "raft_step Debug (nodes s i) ev = Inr (raft n', as)"
    and tr: "transport n' = fold (\<lambda>(to, m). transport_send (sim_env rg rnds) to m) (sends as) (i, 0, network cl1)"
    and sm: "state_machine n' = fold kv_apply (applied_commands as) (state_machine n)"
    by (simp_all add: carried_out_def attach_def) (simp add: sim_env_def)
  have "possible s i ev"
    using from_in in1 [of "set (net s)"] net by (auto simp: possible_def event_from_def split: Event.split)
  with st n(1) have step: "node_step members s i ev (raft n') as" by (simp add: node_step_def)
  let ?nw = "shared_network n'"
  have "fst (transport n') = i \<and> traffic ?N (network cl1) ?nw" by (rule sends_shared [OF tr]) auto
  then have j: "fst (transport n') = i" and t: "traffic ?N (network cl) ?nw" "traffic ?N (network cl1) ?nw"
    using in1 [of ?N] by (auto intro: traffic_trans)
  have "net_ok ?N (network cl)" by (rule traffic_mono_ok [OF net]) auto
  then have ok: "net_ok ?N ?nw" using t(1) lifecycle_ok_senders_inj [OF life] by (simp add: traffic_def)
  have fl': "flight_channel f < next_channel cl" if "f \<in> set (in_flight ?nw)" for f
    using that t(1) fl life by (auto simp: traffic_def ran_def lifecycle_ok_def)
  have "lifecycle_ok (cl1\<lparr>network := ?nw\<rparr>)" using in1 t(2) lifecycle_ok_traffic by blast
  moreover have run1: "running (cl1\<lparr>network := ?nw\<rparr>) = running cl" using in1 by simp
  ultimately have "lifecycle_ok cl'" using lifecycle_ok_put_node run(1) by (metis cl')
  moreover have "handles (cl1\<lparr>network := ?nw\<rparr>) i \<noteq> None"
    using running_handle [of "cl1\<lparr>network := ?nw\<rparr>" i n] run(1) run1 by auto
  then have run': "running cl' = (running cl)(i := Some (detach n'))" using run1 by (auto simp: cl')
  ultimately have "sim_rel members ?s cl'"
    using assms(1) n ids in1 ok fl' sm j
    by (auto simp: sim_rel_def cl' detach_def)
  moreover obtain t where t: "timers_left (timers n) t" "timer_actions rg as t = Inr (timers (detach n'))"
    using out by (auto simp: carried_out_def attach_def detach_def sim_env_def)
  moreover have "begun (detach n')"
    using timer_actions_spawned [OF t(2)] t(1) run(2) by (auto simp: begun_def timers_left_def)
  moreover have "\<forall>m. ev = EvMessage m \<longleftrightarrow> (\<exists>f cl1. select_input i src cl = Some (FromPeer f m, cl1))"
    "ev = ElectionTimeout \<longrightarrow> TimerElection \<in> set (timer_queue (timers n))"
    "\<forall>q. src = Timer \<longrightarrow> timer_queue (timers n) = TimerElection # q \<longrightarrow> ev = ElectionTimeout"
    using from_in sel by (auto simp: event_from_def attach_def)
  ultimately have "turn_steps members i src rg s cl cl' ev as ?s"
    using step run run' n(3) unfolding turn_steps_def by auto
  then show ?thesis by blast
qed

lemma turn_refines:
  assumes "sim_rel members s cl" "turn Debug rg rnds i src cl = Some (Inr cl')"
  shows "\<exists>ev s'. sys_step members s (Handle i ev) = Some s' \<and> sim_rel members s' cl' \<and>
    (\<forall>m. ev = EvMessage m \<longrightarrow> (\<exists>n f cl1. running cl i = Some n \<and> raft n = nodes s i \<and>
       select_input i src cl = Some (FromPeer f m, cl1)))"
proof -
  obtain ev as s' where t: "turn_steps members i src rg s cl cl' ev as s'" using turn_step [OF assms] by blast
  then have "handle members s i ev = Some (nodes s' i, as)" "s' = handled s i (nodes s' i) as"
    by (simp_all add: turn_steps_def)
  then have "sys_step members s (Handle i ev) = Some s'" by (simp del: handle_Some)
  with t show ?thesis unfolding turn_steps_def by metis
qed

section \<open>The other steps\<close>

lemma begin_run_refines:
  assumes "sim_rel members s cl" "begin_run rg i cl = Some (Inr cl')"
  shows "sim_rel members s cl'"
proof -
  obtain n n' where n: "running cl i = Some n" and n': "node_start (sim_env rg (\<lambda>_. 0 :: 'a))
      (attach (network cl) (now_us (clock cl)) n) = Inr n'" and cl': "cl' = put_node i (detach n') cl"
    using assms(2) by (auto simp: begin_run_def and_then_eq_Inr split: option.splits if_splits)
  have life: "lifecycle_ok cl" using assms(1) by (simp add: sim_rel_def)
  have same: "raft n' = raft n" "state_machine n' = state_machine n" "fst (transport n') = transport n"
    using n' by (auto simp: node_start_def and_then_eq_Inr attach_def)
  have "handles cl i \<noteq> None" using n by (auto simp: running_def split: option.splits)
  with n same cl' lifecycle_ok_put_node [OF life n] show ?thesis
    by (intro sim_rel_frame [OF assms(1)]) (auto simp: detach_def split: if_splits)
qed

lemma timer_fires_refines:
  assumes "sim_rel members s cl" "timer_fires i k cl = Some cl'"
  shows "sim_rel members s cl'"
proof -
  obtain n t where n: "running cl i = Some n" and cl': "cl' = put_node i (n\<lparr>timers := t\<rparr>) cl"
    using assms(2) by (auto simp: timer_fires_def split: option.splits)
  have life: "lifecycle_ok cl" using assms(1) by (simp add: sim_rel_def)
  have "handles cl i \<noteq> None" using n by (auto simp: running_def split: option.splits)
  with n cl' lifecycle_ok_put_node [OF life n] show ?thesis
    by (intro sim_rel_frame [OF assms(1)]) (auto split: if_splits)
qed

lemma lands_refines:
  assumes "sim_rel members s cl"
  shows "sim_rel members s (cl\<lparr>network := arrive k (network cl)\<rparr>)"
proof -
  have life: "lifecycle_ok cl" using assms by (simp add: sim_rel_def)
  have "set (in_flight (arrive k (network cl))) \<subseteq> set (in_flight (network cl))"
    using set_take_subset [of k "in_flight (network cl)"] set_drop_subset [of "Suc k" "in_flight (network cl)"]
    by (auto simp: arrive_def Let_def try_send_def split: option.splits)
  moreover have "net_ok (set (net s)) (network cl) \<Longrightarrow> net_ok (set (net s)) (arrive k (network cl))"
    using traffic_arrive [of "set (net s)" "network cl" k] lifecycle_ok_senders_inj [OF life]
    by (simp add: traffic_def)
  ultimately show ?thesis
    using lifecycle_ok_traffic [OF life traffic_arrive] by (intro sim_rel_frame [OF assms]) auto
qed

text \<open>Starting a node, at the beginning or again, makes it the initial node of the model.\<close>

lemma start_node_running:
  assumes "start_node p i ps cl = Inr (h, cl')"
  shows "(\<exists>n. h_task h = Some n \<and> raft n = raft_init i ps \<and> state_machine n = kv_new \<and> transport n = i) \<and>
    in_flight (network cl') = in_flight (network cl)"
  using assms
  by (auto simp: start_node_def mpsc_channel_def node_new_def and_then_eq_Inr register_def Let_def
      dest!: raft_new_Inr split: if_splits)

lemma start_node_refines:
  assumes "sim_rel members s cl" "start_node p i (others (node_ids cl) i) cl = Inr (h, cl')"
    "i \<in> set members" "nodes s i = raft_init i (others members i)" "apps s i = []"
  shows "sim_rel members s (cl'\<lparr>handles := (handles cl')(i := Some h)\<rparr>)"
proof -
  note eff = start_node_effect [OF assms(2)] and new = start_node_running [OF assms(2)]
  have life: "lifecycle_ok cl" and ids: "node_ids cl = members"
    and net: "net_ok (set (net s)) (network cl)"
    and fl: "\<forall>f \<in> set (in_flight (network cl)). flight_channel f < next_channel cl"
    using assms(1) by (simp_all add: sim_rel_def)
  have fresh: "senders (network cl) j \<noteq> Some (next_channel cl)" for j
    using life by (auto simp: lifecycle_ok_def)
  have "net_ok (set (net s)) (network cl')"
    using net fresh fl eff new by (auto simp: net_ok_def)
  moreover have "running (cl'\<lparr>handles := (handles cl')(i := Some h)\<rparr>) = (running cl)(i := h_task h)"
    using eff by (auto simp: running_def fun_eq_iff)
  ultimately show ?thesis
    using assms eff new fl lifecycle_ok_start [OF life assms(2)] ids
    by (auto simp: sim_rel_def less_Suc_eq)
qed

lemma new_cluster_refines:
  assumes "cluster_new Debug members c config = Inr cl"
  shows "sim_rel members (sys_init members) cl"
proof -
  have "sim_rel members (sys_init members) cl2"
    if "start_nodes Debug js cl1 = Inr cl2" "set js \<subseteq> set members" "sim_rel members (sys_init members) cl1"
    for js and cl1 cl2 :: "('a, 'b) Cluster"
    using that
  proof (induction js arbitrary: cl1)
    case (Cons j js)
    obtain h cl3 where st: "start_node Debug j (others (node_ids cl1) j) cl1 = Inr (h, cl3)"
      "start_nodes Debug js (cl3\<lparr>handles := (handles cl3)(j := Some h)\<rparr>) = Inr cl2"
      using Cons.prems(1) by (auto simp: and_then_eq_Inr)
    have "sim_rel members (sys_init members) (cl3\<lparr>handles := (handles cl3)(j := Some h)\<rparr>)"
      using start_node_refines [OF Cons.prems(3) st(1)] Cons.prems(2) by (simp add: sys_init_def)
    with Cons.IH [OF st(2)] Cons.prems(2) show ?case by simp
  qed simp
  moreover have "sim_rel members (sys_init members) \<lparr>handles = (\<lambda>_. None), network = network_new, clock = c,
      node_ids = members, node_config = config, next_channel = 0\<rparr>"
    by (simp add: sim_rel_def lifecycle_ok_def network_new_def net_ok_def running_def)
  ultimately show ?thesis using assms unfolding cluster_new_def by blast
qed

section \<open>The user\<close>

lemma net_ok_kill:
  assumes "lifecycle_ok cl" "net_ok N (network cl)"
  shows "net_ok N (network (kill_node i cl))"
proof (cases "handles cl i")
  case (Some h)
  show ?thesis
  proof (cases "alive h")
    case True
    have "node_status (Some h) (senders (network cl) i)" using assms(1) Some by (metis lifecycle_ok_def)
    from node_status_alive [OF this True] obtain ch where "senders (network cl) i = Some ch" by blast
    with Some True assms(2) show ?thesis
      by (auto simp: kill_node_def close_channel_def deregister_def net_ok_def)
  qed (use Some assms in \<open>simp add: kill_node_def\<close>)
qed (use assms in \<open>simp add: kill_node_def\<close>)

lemma kill_node_refines:
  assumes "sim_rel members s cl"
  shows "sim_rel members s (kill_node i cl)"
proof -
  have life: "lifecycle_ok cl" using assms by (simp add: sim_rel_def)
  have "running (kill_node i cl) j = Some n \<Longrightarrow> running cl j = Some n" for j n
    by (auto simp: running_def kill_node_def split: option.splits if_splits)
  moreover have "in_flight (network (kill_node i cl)) = in_flight (network cl)"
    "next_channel (kill_node i cl) = next_channel cl"
    by (auto simp: kill_node_def close_channel_def deregister_def split: option.split)
  ultimately show ?thesis
    using lifecycle_ok_kill [OF life] net_ok_kill [OF life] kill_node_config [of i cl]
    by (intro sim_rel_frame [OF assms]) auto
qed

text \<open>Actions on links, settings, clock and clients leave nodes, channels and registry alone.\<close>

lemma settings_refine:
  assumes "sim_rel members s cl" "running cl' = running cl" "lifecycle_ok cl'" "node_ids cl' = node_ids cl"
    "next_channel cl' = next_channel cl" "senders (network cl') = senders (network cl)"
    "channels (network cl') = channels (network cl)" "in_flight (network cl') = in_flight (network cl)"
  shows "sim_rel members s cl'"
  using assms by (intro sim_rel_frame [OF assms(1)]) (auto simp: net_ok_def)

lemma fold_in_flight:
  assumes "\<And>j nw. in_flight (f j nw) = in_flight nw"
  shows "in_flight (fold f js nw) = in_flight nw"
  using assms by (induction js arbitrary: nw) simp_all

lemma isolate_refines:
  assumes "sim_rel members s cl"
  shows "sim_rel members s (isolate i cl)" "sim_rel members s (unisolate i cl)"
proof -
  have life: "lifecycle_ok cl" using assms by (simp add: sim_rel_def)
  show "sim_rel members s (isolate i cl)"
    using lifecycle_ok_isolate [OF life]
    by (intro settings_refine [OF assms])
       (simp_all add: isolate_def fold_network_frame fold_in_flight partition_link_def)
  show "sim_rel members s (unisolate i cl)"
    using lifecycle_ok_unisolate [OF life]
    by (intro settings_refine [OF assms])
       (simp_all add: unisolate_def fold_network_frame fold_in_flight heal_link_def)
qed

lemma network_settings_refine:
  assumes "sim_rel members s cl"
  shows "sim_rel members s (cl\<lparr>network := set_drop_rate r (network cl)\<rparr>)"
    "sim_rel members s (cl\<lparr>network := set_latency_ms l (network cl)\<rparr>)"
    "sim_rel members s (cl\<lparr>clock := c\<rparr>)"
proof -
  have life: "lifecycle_ok cl" using assms by (simp add: sim_rel_def)
  then have "lifecycle_ok (cl\<lparr>network := set_drop_rate r (network cl)\<rparr>)"
    "lifecycle_ok (cl\<lparr>network := set_latency_ms l (network cl)\<rparr>)" "lifecycle_ok (cl\<lparr>clock := c\<rparr>)"
    by (simp_all add: lifecycle_ok_def set_drop_rate_def set_latency_ms_def)
  then show "sim_rel members s (cl\<lparr>network := set_drop_rate r (network cl)\<rparr>)"
    "sim_rel members s (cl\<lparr>network := set_latency_ms l (network cl)\<rparr>)"
    "sim_rel members s (cl\<lparr>clock := c\<rparr>)"
    by (auto intro!: settings_refine [OF assms] simp: set_drop_rate_def set_latency_ms_def)
qed

lemma submit_refines:
  assumes "sim_rel members s cl" "submit i c k cl = Some cl'"
  shows "sim_rel members s cl'"
proof -
  have life: "lifecycle_ok cl" using assms(1) by (simp add: sim_rel_def)
  obtain h where "handles cl i = Some h"
    "cl' = cl\<lparr>handles := (handles cl)(i := Some (h\<lparr>h_clients := h_clients h @ [(c, k)]\<rparr>))\<rparr>"
    using assms(2) by (auto simp: submit_def split: option.splits if_splits)
  then show ?thesis
    using lifecycle_ok_submit [OF life assms(2)]
    by (intro settings_refine [OF assms(1)]) (auto simp: running_def fun_eq_iff)
qed

text \<open>
  What a restart amounts to: the cluster model, with a step that puts a node back to its initial state
  and its store to the empty one, in place of the restart from disk. The restarts of the simulator are
  shown to be such steps.
\<close>

datatype ForgetfulStep = StepEvent NodeId Event | Forgets NodeId

fun forgetful_step :: "NodeId list \<Rightarrow> System \<Rightarrow> ForgetfulStep \<Rightarrow> System option" where
  "forgetful_step members s (StepEvent i ev) = sys_step members s (Handle i ev)"
| "forgetful_step members s (Forgets i) =
     (case raft_new Debug i (others members i) of
        Inl _ \<Rightarrow> None
      | Inr r \<Rightarrow> Some (s\<lparr>nodes := (nodes s)(i := r), apps := (apps s)(i := [])\<rparr>))"

inductive forgetful_reachable :: "NodeId list \<Rightarrow> System \<Rightarrow> bool" for members where
  forgetful_init: "forgetful_reachable members (sys_init members)"
| forgetful_next: "forgetful_reachable members s \<Longrightarrow> forgetful_step members s st = Some s' \<Longrightarrow>
     forgetful_reachable members s'"

lemma restart_node_refines:
  assumes "sim_rel members s cl" "restart_node Debug i cl = Inr cl'" "i \<in> set members"
  shows "\<exists>s'. (s' = s \<or> forgetful_step members s (Forgets i) = Some s') \<and> sim_rel members s' cl'"
proof (cases "case handles cl i of None \<Rightarrow> False | Some h \<Rightarrow> alive h")
  case True
  with assms(1,2) show ?thesis by (auto simp: restart_node_def)
next
  case False
  let ?s = "s\<lparr>nodes := (nodes s)(i := raft_init i (others members i)), apps := (apps s)(i := [])\<rparr>"
  obtain h cl1 where st: "start_node Debug i (others (node_ids cl) i) cl = Inr (h, cl1)"
    "cl' = cl1\<lparr>handles := (handles cl1)(i := Some h)\<rparr>"
    using assms(2) False by (auto simp: restart_node_def and_then_eq_Inr)
  have "node_status (handles cl i) (senders (network cl) i)"
    using assms(1) by (simp add: sim_rel_def lifecycle_ok_def)
  with False have "running cl i = None" by (auto simp: running_def split: option.splits)
  with assms(1) have "sim_rel members ?s cl" by (auto simp: sim_rel_def)
  from start_node_refines [OF this st(1) assms(3)] st(2) have "sim_rel members ?s cl'" by simp
  moreover have "i \<notin> set (others members i)" by (simp add: others_def)
  then have "forgetful_step members s (Forgets i) = Some ?s" by simp
  ultimately show ?thesis by blast
qed

lemma selected_node_member: "selected_node app cl = Some i \<Longrightarrow> i \<in> set (node_ids cl)"
  by (auto simp: selected_node_def split: if_splits)

text \<open>No action but a restart starts a node.\<close>

lemma running_kill: "running (kill_node i cl) j = Some n \<Longrightarrow> running cl j = Some n"
  by (auto simp: running_def kill_node_def split: option.splits if_splits)

lemma running_isolate [simp]: "running (isolate i cl) = running cl" "running (unisolate i cl) = running cl"
  by (simp_all add: isolate_def unisolate_def)

lemma running_submit: "submit i c k cl = Some cl' \<Longrightarrow> running cl' = running cl"
  by (auto simp: submit_def running_def fun_eq_iff split: option.splits if_splits)

lemma apply_action_running:
  assumes "apply_action p fl client a app cl = Inr (ctl, woken, app', cl')" "a \<noteq> RestartNode"
    "running cl' j = Some n"
  shows "running cl j = Some n"
proof (cases a)
  case (SubmitCommand k v)
  with assms show ?thesis by (auto simp: running_submit split: option.splits)
qed (use assms in \<open>auto simp: controls and_then_eq_Inr dest: running_kill split: option.splits if_splits\<close>)

lemma apply_action_refines:
  assumes "sim_rel members s cl" "apply_action Debug fl client a app cl = Inr (ctl, woken, app', cl')"
    "a \<noteq> RestartNode"
  shows "sim_rel members s cl'"
proof -
  note kept = assms(1) kill_node_refines [OF assms(1)] isolate_refines [OF assms(1)]
    network_settings_refine [OF assms(1)]
  show ?thesis
  proof (cases a)
    case (SubmitCommand k v)
    with assms submit_refines [OF assms(1)] show ?thesis
      by (auto split: option.splits)
  qed (use assms(2,3) kept in \<open>auto simp: controls and_then_eq_Inr split: option.splits if_splits\<close>)
qed

section \<open>Every step of the simulator\<close>

text \<open>The turn answers an \<open>AppendEntries\<close> with the report of a stale tail (theory \<open>TruthfulRuns\<close>).\<close>

fun stale_report :: "'f SimEvent \<Rightarrow> ('f, 'w) Cluster \<Rightarrow> bool" where
  "stale_report (Turn i src _ _) cl =
     (case running cl i of
        None \<Rightarrow> False
      | Some n \<Rightarrow>
          (case select_input i src cl of
             Some (FromPeer _ m, _) \<Rightarrow> reports_stale_tail (raft n) (EvMessage m)
           | _ \<Rightarrow> False))"
| "stale_report _ _ = False"

lemma turn_truthful:
  assumes "\<not> stale_report (Turn i src rg rnds) cl"
    "\<forall>m. ev = EvMessage m \<longrightarrow> (\<exists>n f cl1. running cl i = Some n \<and> raft n = nodes s i \<and>
       select_input i src cl = Some (FromPeer f m, cl1))"
  shows "truthful_step s (Handle i ev)"
proof (cases ev)
  case (EvMessage m)
  with assms(2) obtain n f cl1 where "running cl i = Some n" "raft n = nodes s i"
    "select_input i src cl = Some (FromPeer f m, cl1)" by blast
  with assms(1) EvMessage show ?thesis by simp
qed simp_all

text \<open>A step leaves the state of the model, or is one event of it; without the report of a stale
  tail, a truthful one.\<close>

lemma sim_event_refines:
  assumes "sim_rel members s cl" "sim_event Debug fl e cl = Some (Inr cl')" "\<not> restarts e"
  shows "sim_rel members s cl' \<or> (\<exists>st s'. sys_step members s st = Some s' \<and> sim_rel members s' cl' \<and>
    (\<not> stale_report e cl \<longrightarrow> truthful_step s st) \<and> (\<exists>i ev. st = Handle i ev))"
proof (cases e)
  case (Begins i rg)
  with assms begin_run_refines show ?thesis by auto
next
  case (Turn i src rg rnds)
  have "turn Debug rg rnds i src cl = Some (Inr cl')" using assms(2) Turn by simp
  from turn_refines [OF assms(1) this] obtain ev s' where t: "sys_step members s (Handle i ev) = Some s'"
    "sim_rel members s' cl'"
    "\<forall>m. ev = EvMessage m \<longrightarrow> (\<exists>n f cl1. running cl i = Some n \<and> raft n = nodes s i \<and>
       select_input i src cl = Some (FromPeer f m, cl1))" by blast
  from turn_truthful [OF _ t(3)] have "\<not> stale_report e cl \<longrightarrow> truthful_step s (Handle i ev)"
    unfolding Turn by blast
  with t(1,2) show ?thesis by blast
next
  case (Fires i k)
  then have "timer_fires i k cl = Some cl'" using assms(2) by auto
  with timer_fires_refines [OF assms(1)] show ?thesis by blast
next
  case (Lands k)
  with assms(2) lands_refines [OF assms(1)] show ?thesis by auto
next
  case Advances
  with assms(2) network_settings_refine(3) [OF assms(1)] show ?thesis by (auto simp: and_then_eq_Inr)
next
  case (User a app client)
  then have a: "a \<noteq> RestartNode" using assms(3) by auto
  obtain ctl w app' where "apply_action Debug fl client a app cl = Inr (ctl, w, app', cl')"
    using assms(2) User by (auto simp: and_then_eq_Inr)
  from apply_action_refines [OF assms(1) this a] show ?thesis by blast
qed

lemma sim_event_restart_refines:
  assumes "sim_rel members s cl" "sim_event Debug fl e cl = Some (Inr cl')"
  shows "sim_rel members s cl' \<or> (\<exists>st s'. forgetful_step members s st = Some s' \<and> sim_rel members s' cl')"
proof (cases "restarts e")
  case False
  from sim_event_refines [OF assms False] show ?thesis
    by (metis forgetful_step.simps(1))
next
  case True
  then obtain app client where e: "e = User RestartNode app client" by (auto elim!: restarts.elims)
  show ?thesis
  proof (cases "selected_node app cl")
    case None
    with assms e show ?thesis by auto
  next
    case (Some i)
    have "i \<in> set members" using selected_node_member [OF Some] assms(1) by (simp add: sim_rel_def)
    moreover have "restart_node Debug i cl = Inr cl'"
      using assms(2) e Some by (auto simp: and_then_eq_Inr)
    ultimately show ?thesis using restart_node_refines [OF assms(1)] by blast
  qed
qed

section \<open>Forward simulation\<close>

text \<open>
  A system refines another one when each of its steps from related states can be followed by the
  other one, in any number of steps, to related states again. Then so can its runs.
\<close>

locale forward_simulation =
  fixes rel :: "'a \<Rightarrow> 'c \<Rightarrow> bool"
    and astep :: "'a \<Rightarrow> 'a \<Rightarrow> bool"
    and cstep :: "'c \<Rightarrow> 'c \<Rightarrow> bool"
  assumes follows: "rel a c \<Longrightarrow> cstep c c' \<Longrightarrow> \<exists>a'. rtranclp astep a a' \<and> rel a' c'"
begin

lemma runs:
  assumes "rtranclp cstep c c'" "rel a c"
  shows "\<exists>a'. rtranclp astep a a' \<and> rel a' c'"
  using assms
proof (induction rule: rtranclp_induct)
  case (step d e)
  then obtain a1 where a1: "rtranclp astep a a1" "rel a1 d" by blast
  from follows [OF a1(2) step.hyps(2)] a1(1) show ?case by (meson rtranclp_trans)
qed blast

text \<open>What holds in the beginning and is kept by the other system holds of the related state.\<close>

lemma transfer:
  assumes "rtranclp cstep c c'" "rel a c" "P a" "\<And>x y. P x \<Longrightarrow> astep x y \<Longrightarrow> P y"
  obtains a' where "rel a' c'" "P a'"
proof -
  obtain a' where a': "rtranclp astep a a'" "rel a' c'" using runs [OF assms(1,2)] by blast
  from a'(1) have "P a'" by (induction rule: rtranclp_induct) (auto intro: assms(3,4))
  with a'(2) that show thesis by blast
qed

end

text \<open>The steps of the simulator at which \<open>P\<close> holds, and the runs made of them.\<close>

definition sim_can ::
    "'f::{zero,one,plus,minus,linorder} Floats \<Rightarrow> ('f SimEvent \<Rightarrow> ('f, 'w) Cluster \<Rightarrow> bool) \<Rightarrow>
     ('f, 'w) Cluster \<Rightarrow> ('f, 'w) Cluster \<Rightarrow> bool" where
  "sim_can fl P cl cl' \<longleftrightarrow> (\<exists>e. P e cl \<and> sim_event Debug fl e cl = Some (Inr cl'))"

fun throughout ::
    "'f::{zero,one,plus,minus,linorder} Floats \<Rightarrow> ('f SimEvent \<Rightarrow> ('f, 'w) Cluster \<Rightarrow> bool) \<Rightarrow>
     'f SimEvent list \<Rightarrow> ('f, 'w) Cluster \<Rightarrow> bool" where
  "throughout fl P [] cl = True"
| "throughout fl P (e # es) cl = (P e cl \<and>
     (case sim_event Debug fl e cl of Some (Inr cl') \<Rightarrow> throughout fl P es cl' | _ \<Rightarrow> True))"

lemma simulate_can:
  "simulate Debug fl es cl = Some cl' \<Longrightarrow> throughout fl P es cl \<Longrightarrow> rtranclp (sim_can fl P) cl cl'"
proof (induction es arbitrary: cl)
  case (Cons e es)
  obtain cl1 where e: "sim_event Debug fl e cl = Some (Inr cl1)" "simulate Debug fl es cl1 = Some cl'"
    using Cons.prems(1) by (auto split: option.splits sum.splits)
  with Cons.prems(2) have "sim_can fl P cl cl1" "throughout fl P es cl1" by (auto simp: sim_can_def)
  with Cons.IH [OF e(2)] show ?case by (meson converse_rtranclp_into_rtranclp)
qed simp

lemma throughout_all: "(\<And>e cl. e \<in> set es \<Longrightarrow> P e cl) \<Longrightarrow> throughout fl P es cl"
  by (induction es arbitrary: cl) (auto split: option.split sum.split)

definition no_restart :: "'f SimEvent \<Rightarrow> ('f, 'w) Cluster \<Rightarrow> bool" where
  "no_restart e cl \<longleftrightarrow> \<not> restarts e"

definition truthful_event :: "'f SimEvent \<Rightarrow> ('f, 'w) Cluster \<Rightarrow> bool" where
  "truthful_event e cl \<longleftrightarrow> \<not> restarts e \<and> \<not> stale_report e cl"

text \<open>The simulator refines the cluster model, the cluster model whose runs are truthful, and, with
  restarts, the model in which a restart forgets everything.\<close>

lemma stutter_or_step: "rel a c \<or> (\<exists>b. step a b \<and> rel b c) \<Longrightarrow> \<exists>b. rtranclp step a b \<and> rel b c"
  by blast

interpretation cluster_sim: forward_simulation "sim_rel members"
  "\<lambda>s s'. \<exists>st. sys_step members s st = Some s'" "sim_can fl no_restart" for members fl
proof
  fix s cl cl'
  assume rel: "sim_rel members s cl" and "sim_can fl no_restart cl cl'"
  then obtain e where "sim_event Debug fl e cl = Some (Inr cl')" "\<not> restarts e"
    by (auto simp: sim_can_def no_restart_def)
  from sim_event_refines [OF rel this]
  show "\<exists>s'. rtranclp (\<lambda>s s'. \<exists>st. sys_step members s st = Some s') s s' \<and> sim_rel members s' cl'"
    by (intro stutter_or_step) blast
qed

interpretation truthful_sim: forward_simulation "sim_rel members"
  "\<lambda>s s'. \<exists>i ev. sys_step members s (Handle i ev) = Some s' \<and> truthful_step s (Handle i ev)"
  "sim_can fl truthful_event" for members fl
proof
  fix s cl cl'
  assume rel: "sim_rel members s cl" and "sim_can fl truthful_event cl cl'"
  then obtain e where e: "sim_event Debug fl e cl = Some (Inr cl')" "\<not> restarts e" "\<not> stale_report e cl"
    by (auto simp: sim_can_def truthful_event_def)
  have "sim_rel members s cl' \<or> (\<exists>s'. (\<exists>i ev. sys_step members s (Handle i ev) = Some s' \<and>
      truthful_step s (Handle i ev)) \<and> sim_rel members s' cl')"
    using sim_event_refines [OF rel e(1,2)] e(3) by metis
  then show "\<exists>s'. rtranclp (\<lambda>s s'. \<exists>i ev. sys_step members s (Handle i ev) = Some s' \<and>
      truthful_step s (Handle i ev)) s s' \<and> sim_rel members s' cl'"
    by (rule stutter_or_step)
qed

interpretation forgetful_sim: forward_simulation "sim_rel members"
  "\<lambda>s s'. \<exists>st. forgetful_step members s st = Some s'" "sim_can fl (\<lambda>_ _. True)" for members fl
proof
  fix s cl cl'
  assume rel: "sim_rel members s cl" and "sim_can fl (\<lambda>_ _. True) cl cl'"
  then obtain e where "sim_event Debug fl e cl = Some (Inr cl')" by (auto simp: sim_can_def)
  from sim_event_restart_refines [OF rel this]
  show "\<exists>s'. rtranclp (\<lambda>s s'. \<exists>st. forgetful_step members s st = Some s') s s' \<and> sim_rel members s' cl'"
    by (intro stutter_or_step) blast
qed

end
