(* ===== verification/SimSafety.thy ===== *)
theory SimSafety
  imports SimRefinement
begin

text \<open>
  What the simulator guarantees, whatever the user does short of restarting a node: the safety
  properties of the cluster model, stated of the nodes that run in the simulator and of their stores.
\<close>

section \<open>The simulator and the cluster model\<close>

text \<open>The state of the model that a run of the simulator is in.\<close>

lemma model_state:
  assumes "cluster_new Debug members c config = Inr cl0" "simulate Debug fl es cl0 = Some cl"
    "\<forall>e \<in> set es. \<not> restarts e"
  obtains s where "sim_rel members s cl" "reachable members s"
proof -
  have "throughout fl no_restart es cl0" using assms(3) by (intro throughout_all) (simp add: no_restart_def)
  from simulate_can [OF assms(2) this] obtain s where "sim_rel members s cl" "reachable members s"
    by (rule cluster_sim.transfer [OF _ new_cluster_refines [OF assms(1)], where P = "reachable members"])
      (auto intro: reachable.intros)
  then show thesis by (rule that)
qed

lemma truthful_state:
  assumes "simulate Debug fl es cl0 = Some cl" "throughout fl truthful_event es cl0"
    "sim_rel members s0 cl0" "truthful members s0"
  obtains s where "sim_rel members s cl" "truthful members s"
proof -
  from simulate_can [OF assms(1,2)] obtain s where "sim_rel members s cl" "truthful members s"
    by (rule truthful_sim.transfer [OF _ assms(3), where P = "truthful members"])
      (use assms(4) in \<open>blast intro: truthful.intros\<close>)+
  then show thesis by (rule that)
qed

text \<open>C21: the simulator refines the consensus model. After any run from a new cluster in which no node is
  restarted, there is a reachable state of the cluster model in which every running node has the
  Raft state it has in the simulator, whose applied commands give its store, and in which every
  message that waits in the channel of a node has been sent to it.\<close>

theorem simulator_refines_cluster:
  assumes "cluster_new Debug members c config = Inr cl0" "simulate Debug fl es cl0 = Some cl"
    "\<forall>e \<in> set es. \<not> restarts e"
  shows "\<exists>s. reachable members s \<and>
    (\<forall>i n. running cl i = Some n \<longrightarrow> raft n = nodes s i \<and> state_machine n = fold kv_apply (apps s i) kv_new) \<and>
    (\<forall>i ch ct f m. senders (network cl) i = Some ch \<longrightarrow> channels (network cl) ch = Some ct \<longrightarrow>
       (f, m) \<in> set (queue ct) \<longrightarrow> (i, m) \<in> set (net s))"
proof -
  obtain s where "sim_rel members s cl" "reachable members s" by (rule model_state [OF assms])
  then show ?thesis by (intro exI [of _ s]) (fastforce simp: sim_rel_def net_ok_def)
qed

text \<open>With restarts, the simulator refines the model in which a restarted node has forgotten its state.\<close>

theorem simulator_refines_forgetful_cluster:
  assumes "cluster_new Debug members c config = Inr cl0" "simulate Debug fl es cl0 = Some cl"
  shows "\<exists>s. forgetful_reachable members s \<and> (\<forall>i n. running cl i = Some n \<longrightarrow> raft n = nodes s i)"
proof -
  have "throughout fl (\<lambda>_ _. True) es cl0" by (rule throughout_all) simp
  from simulate_can [OF assms(2) this] obtain s where "sim_rel members s cl" "forgetful_reachable members s"
    by (rule forgetful_sim.transfer [OF _ new_cluster_refines [OF assms(1)], where P = "forgetful_reachable members"])
      (auto intro: forgetful_reachable.intros)
  then show ?thesis by (auto simp: sim_rel_def)
qed

lemma running_in_model:
  assumes "cluster_new Debug members c config = Inr cl0" "simulate Debug fl es cl0 = Some cl"
    "\<forall>e \<in> set es. \<not> restarts e"
  obtains s where "reachable members s"
    "\<And>i n. running cl i = Some n \<Longrightarrow> i \<in> set members \<and> raft n = nodes s i"
proof -
  obtain s where "sim_rel members s cl" "reachable members s" by (rule model_state [OF assms])
  with that [of s] show thesis by (auto simp: sim_rel_def)
qed

text \<open>C22: safety in the simulator. Among the nodes that run after any sequence of timeouts, deliveries,
  losses, kills, partitions and settings, without a restart, no two lead in the same term, and
  two logs that hold an entry of the same term at the same place are equal up to it.\<close>

theorem simulator_safe:
  assumes "cluster_ok members" "cluster_new Debug members c config = Inr cl0"
    "simulate Debug fl es cl0 = Some cl" "\<forall>e \<in> set es. \<not> restarts e"
    "running cl i = Some m" "running cl j = Some n"
  shows "(role (raft m) = Leader \<and> role (raft n) = Leader \<and> cterm (raft m) = cterm (raft n) \<longrightarrow> i = j) \<and>
    (\<forall>k < length (rlog (raft m)). k < length (rlog (raft n)) \<longrightarrow>
       entry_term (rlog (raft m) ! k) = entry_term (rlog (raft n) ! k) \<longrightarrow>
       take (k + 1) (rlog (raft m)) = take (k + 1) (rlog (raft n)))"
proof -
  obtain s where s: "reachable members s"
    "\<And>i n. running cl i = Some n \<Longrightarrow> i \<in> set members \<and> raft n = nodes s i"
    using running_in_model [OF assms(2-4)] by blast
  note mem = s(2) [OF assms(5)] s(2) [OF assms(6)]
  show ?thesis
    using single_leader [OF assms(1) s(1)] matching_logs [OF assms(1) s(1)] mem by simp
qed

section \<open>The stores\<close>

lemma applied_length:
  assumes "cluster_ok members" "truthful members s" "i \<in> set members"
  shows "length (apps s i) = unat (rapplied (nodes s i))"
proof -
  have "run_inv members s" using truthful_inv [OF assms(1,2)] by simp
  with assms(3) have "unat (rcommit (nodes s i)) \<le> length (rlog (nodes s i))"
    by (auto simp: run_inv_def commit_inv_def node_commits_def)
  with applied_agree [OF assms(1,2,3,3)] show ?thesis by (simp add: word_le_nat_alt)
qed

text \<open>C23: the replicas agree. When no node was restarted and no follower reported a stale tail, two
  running nodes of the simulator that have applied equally many entries have the same store, and
  a running node has applied no entry beyond its commit index.\<close>

theorem simulator_replicas_agree:
  assumes "cluster_ok members" "cluster_new Debug members c config = Inr cl0"
    "simulate Debug fl es cl0 = Some cl" "throughout fl truthful_event es cl0"
    "running cl i = Some m" "running cl j = Some n" "rapplied (raft m) = rapplied (raft n)"
  shows "data (state_machine m) = data (state_machine n) \<and> rapplied (raft m) \<le> rcommit (raft m)"
proof -
  obtain s where s: "sim_rel members s cl" "truthful members s"
    by (rule truthful_state [OF assms(3,4) new_cluster_refines [OF assms(2)] truthful.intros(1)])
  then have i: "i \<in> set members" "raft m = nodes s i" "state_machine m = fold kv_apply (apps s i) kv_new"
    and j: "j \<in> set members" "raft n = nodes s j" "state_machine n = fold kv_apply (apps s j) kv_new"
    using assms(5,6) by (auto simp: sim_rel_def)
  have "length (apps s i) = length (apps s j)"
    using applied_length [OF assms(1) s(2)] i j assms(7) by simp
  moreover have "prefix (apps s i) (apps s j) \<or> prefix (apps s j) (apps s i)"
    using applied_agree [OF assms(1) s(2) i(1) j(1)] by blast
  ultimately have "apps s i = apps s j" by (auto simp: prefix_def)
  with i j applied_agree [OF assms(1) s(2) i(1) j(1)] show ?thesis by simp
qed

section \<open>A run\<close>

text \<open>Nodes 1 and 2 start, the election timer of node 1 fires, node 2 votes for it, and it becomes the leader.\<close>

definition election_in_simulator :: "nat SimEvent list" where
  "election_in_simulator =
     [Begins 1 (\<lambda>_. 0), Begins 2 (\<lambda>_. 0), Fires 1 0, Turn 1 Timer (\<lambda>_. 0) (\<lambda>_. 0), Turn 2 Peer (\<lambda>_. 0) (\<lambda>_. 0),
      Turn 1 Peer (\<lambda>_. 0) (\<lambda>_. 0)]"

definition demo_floats :: "nat Floats" where
  "demo_floats = \<lparr>DROP_RATE_STEP = 1, show_percent = decimal, show_seconds = show_u64\<rparr>"

lemmas sim_simps = simulate.simps sim_event.simps begun_def begin_run_def node_start_def attach_def detach_def
  put_node_def running_def timer_fires_def fire_def turn_def select_input.simps recv_def run_once_def
  shared_network_def sim_env_def timer_channel_capacity_def deliver_def try_send_def update_metrics_def
  update_fields_def record_message_def message_log_cap_def metrics_new_def no_save_def

lemmas start_simps = cluster_new_def members3_def start_node_def mpsc_channel_def node_new_def network_new_def
  clock_new_def register_def

lemmas user_simps = submit_target_def selected_node_def node_alive_def submit_def app_default_def command_set_def
  kill_node_def close_channel_def deregister_def node_status_line_def

lemma election_in_simulator_run:
  "\<exists>(cl0 :: (nat, unit) Cluster) cl n. cluster_new Debug members3 clock_new node_config_default = Inr cl0 \<and>
     simulate Debug demo_floats election_in_simulator cl0 = Some cl \<and>
     running cl 1 = Some n \<and> role (raft n) = Leader \<and> cterm (raft n) = 1"
  by (simp add: start_simps election_in_simulator_def sim_simps runtime_simps run_simps)

lemma election_in_simulator_quiet:
  "\<forall>e \<in> set election_in_simulator. \<not> restarts e"
  by (simp add: election_in_simulator_def)

theorem simulator_refines_cluster_witness:
  "\<exists>(cl :: (nat, unit) Cluster) n s. running cl 1 = Some n \<and> role (raft n) = Leader \<and>
     reachable members3 s \<and> raft n = nodes s 1"
proof -
  obtain cl0 cl :: "(nat, unit) Cluster" and n where
    r: "cluster_new Debug members3 clock_new node_config_default = Inr cl0"
      "simulate Debug demo_floats election_in_simulator cl0 = Some cl" "running cl 1 = Some n"
      "role (raft n) = Leader"
    using election_in_simulator_run by blast
  from simulator_refines_cluster [OF r(1,2) election_in_simulator_quiet] r(3,4) show ?thesis by blast
qed

theorem simulator_safe_witness:
  "\<exists>(cl :: (nat, unit) Cluster) n. running cl 1 = Some n \<and> role (raft n) = Leader \<and>
     (\<forall>j m. running cl j = Some m \<and> role (raft m) = Leader \<and> cterm (raft m) = cterm (raft n) \<longrightarrow> 1 = j)"
proof -
  obtain cl0 cl :: "(nat, unit) Cluster" and n where
    r: "cluster_new Debug members3 clock_new node_config_default = Inr cl0"
      "simulate Debug demo_floats election_in_simulator cl0 = Some cl" "running cl 1 = Some n"
      "role (raft n) = Leader"
    using election_in_simulator_run by blast
  have "1 = j" if "running cl j = Some m" "role (raft m) = Leader" "cterm (raft m) = cterm (raft n)" for j m
    using simulator_safe [OF members3_ok r(1,2) election_in_simulator_quiet r(3) that(1)] r(4) that by simp
  with r(3,4) show ?thesis by blast
qed

text \<open>The user submits a command to node 1, and two heartbeats later node 2 has applied it too.\<close>

definition one_write :: "nat SimEvent list" where
  "one_write = election_in_simulator @
     [User (SubmitCommand ''k'' ''v'') app_default 0, Turn 1 Client (\<lambda>_. 0) (\<lambda>_. 0),
      Fires 1 3, Turn 1 Timer (\<lambda>_. 0) (\<lambda>_. 0), Turn 2 Peer (\<lambda>_. 0) (\<lambda>_. 0), Turn 1 Peer (\<lambda>_. 0) (\<lambda>_. 0),
      Fires 1 4, Turn 1 Timer (\<lambda>_. 0) (\<lambda>_. 0), Turn 2 Peer (\<lambda>_. 0) (\<lambda>_. 0)]"

lemma one_write_run:
  "\<exists>(cl0 :: (nat, unit) Cluster) cl m n. cluster_new Debug members3 clock_new node_config_default = Inr cl0 \<and>
     simulate Debug demo_floats one_write cl0 = Some cl \<and> throughout demo_floats truthful_event one_write cl0 \<and>
     running cl 1 = Some m \<and> running cl 2 = Some n \<and> rapplied (raft m) = 1 \<and> rapplied (raft n) = 1 \<and>
     data (state_machine m) ''k'' = Some ''v''"
  by (simp add: start_simps one_write_def election_in_simulator_def sim_simps runtime_simps run_simps user_simps
      kv_apply_def kv_new_def truthful_event_def stale_tail_def acceptable_def)

theorem simulator_replicas_agree_witness:
  "\<exists>(cl :: (nat, unit) Cluster) m n. running cl 1 = Some m \<and> running cl 2 = Some n \<and>
     data (state_machine m) ''k'' = Some ''v'' \<and> data (state_machine n) = data (state_machine m)"
proof -
  obtain cl0 cl :: "(nat, unit) Cluster" and m n where
    r: "cluster_new Debug members3 clock_new node_config_default = Inr cl0"
      "simulate Debug demo_floats one_write cl0 = Some cl" "throughout demo_floats truthful_event one_write cl0"
      "running cl 1 = Some m" "running cl 2 = Some n"
    and a: "rapplied (raft m) = rapplied (raft n)" "data (state_machine m) ''k'' = Some ''v''"
    using one_write_run by fastforce
  have "data (state_machine n) = data (state_machine m)"
    using simulator_replicas_agree [OF members3_ok r a(1)] by simp
  with a(2) r(4,5) show ?thesis by blast
qed

section \<open>A restart breaks election safety\<close>

text \<open>The user interface with the cursor on the \<open>n\<close>-th node.\<close>

definition cursor_on :: "u64 \<Rightarrow> App" where
  "cursor_on n = app_default\<lparr>selected := n\<rparr>"

text \<open>Node 2 votes for node 1, which becomes the leader of term 1.\<close>

definition opening_election :: "(nat \<Rightarrow> nat) \<Rightarrow> (nat \<Rightarrow> nat) \<Rightarrow> nat SimEvent list" where
  "opening_election rg rnds =
     [Begins 1 rg, Begins 2 rg, Begins 3 rg, Fires 1 0, Turn 1 Timer rg rnds,
      Turn 2 Peer rg rnds, Turn 1 Peer rg rnds]"

text \<open>The user kills and restarts node 2. Then node 3, which has not heard of the election, times out.\<close>

definition restart_of_the_voter :: "(nat \<Rightarrow> nat) \<Rightarrow> nat SimEvent list" where
  "restart_of_the_voter rg = [User KillNode (cursor_on 1) 0, User RestartNode (cursor_on 1) 0, Begins 2 rg]"

definition second_election :: "(nat \<Rightarrow> nat) \<Rightarrow> (nat \<Rightarrow> nat) \<Rightarrow> nat SimEvent list" where
  "second_election rg rnds =
     [Fires 3 0, Turn 3 Timer rg rnds, Turn 2 Peer rg rnds,
      Turn 3 Peer rg rnds, Turn 3 Peer rg rnds]"

lemmas restart_simps = cursor_on_def restart_node_def opening_election_def restart_of_the_voter_def
  second_election_def

text \<open>C34: the simulator breaks election safety. Whatever timeouts are drawn: after one election, a kill
  and a restart of the node that voted in it, and one more election, two nodes lead in the same term,
  and the restarted node has voted for both of them in that term. The one restart is the only event of
  the run that theorem \<open>simulator_safe\<close> excludes.\<close>

theorem simulator_restart_two_leaders:
  "\<exists>(cl0 :: (nat, unit) Cluster) cl1 cl voter l1 voter' l2.
     cluster_new Debug members3 clock_new node_config_default = Inr cl0 \<and>
     simulate Debug demo_floats (opening_election rg rnds) cl0 = Some cl1 \<and>
     running cl1 2 = Some voter \<and> vote (raft voter) = Some 1 \<and> cterm (raft voter) = 1 \<and>
     simulate Debug demo_floats (restart_of_the_voter rg @ second_election rg rnds) cl1 = Some cl \<and>
     filter restarts (opening_election rg rnds @ restart_of_the_voter rg @ second_election rg rnds) = [User RestartNode (cursor_on 1) 0] \<and>
     running cl 1 = Some l1 \<and> role (raft l1) = Leader \<and> cterm (raft l1) = 1 \<and>
     running cl 2 = Some voter' \<and> vote (raft voter') = Some 3 \<and> cterm (raft voter') = 1 \<and>
     running cl 3 = Some l2 \<and> role (raft l2) = Leader \<and> cterm (raft l2) = 1"
  by (simp add: start_simps sim_simps runtime_simps run_simps user_simps restart_simps)

end
