(* ===== verification/RaftBounds.thy ===== *)
theory RaftBounds
  imports Replication Leadership
begin

text \<open>
  How fast the numbers of the protocol grow: an event raises the highest term and the highest log
  index by at most one. So a node that has seen fewer than \<open>2 ^ 64\<close> events does not overflow, and
  overflow is the only panic of the core (theory \<open>NodeSafety\<close>).
\<close>

definition entries_bounded :: "nat \<Rightarrow> LogEntry list \<Rightarrow> bool" where
  "entries_bounded N es \<longleftrightarrow> (\<forall>e \<in> set es. unat (index e) \<le> N)"

definition bounded :: "nat \<Rightarrow> Raft \<Rightarrow> bool" where
  "bounded N r \<longleftrightarrow> unat (cterm r) \<le> N \<and> entries_bounded N (rlog r)"

fun msg_bounded :: "nat \<Rightarrow> Message \<Rightarrow> bool" where
  "msg_bounded N (MRequestVote m) = (unat (rv_term m) \<le> N)"
| "msg_bounded N (MRequestVoteResponse m) = (unat (rvr_term m) \<le> N)"
| "msg_bounded N (MAppendEntries m) = (unat (ae_term m) \<le> N \<and> entries_bounded N (entries m))"
| "msg_bounded N (MAppendEntriesResponse m) = (unat (aer_term m) \<le> N \<and> unat (aer_match_index m) \<le> N)"

definition event_bounded :: "nat \<Rightarrow> Event \<Rightarrow> bool" where
  "event_bounded N ev \<longleftrightarrow> (\<forall>m. ev = EvMessage m \<longrightarrow> msg_bounded N m)"

definition sends_bounded :: "nat \<Rightarrow> Action list \<Rightarrow> bool" where
  "sends_bounded N as \<longleftrightarrow> (\<forall>to m. Send to m \<in> set as \<longrightarrow> msg_bounded N m)"

lemma entries_bounded_mono: "entries_bounded N es \<Longrightarrow> N \<le> N' \<Longrightarrow> entries_bounded N' es"
  by (fastforce simp: entries_bounded_def)

lemma bounded_mono: "bounded N r \<Longrightarrow> N \<le> N' \<Longrightarrow> bounded N' r"
  by (auto simp: bounded_def intro: entries_bounded_mono)

lemma msg_bounded_mono: "msg_bounded N m \<Longrightarrow> N \<le> N' \<Longrightarrow> msg_bounded N' m"
  by (cases m) (auto intro: entries_bounded_mono)

lemma bounded_cong: "persistent r' = persistent r \<Longrightarrow> bounded N r' = bounded N r"
  by (simp add: bounded_def)

lemma bounded_step_down: "bounded N r \<Longrightarrow> unat t \<le> N \<Longrightarrow> bounded N (step_down r t)"
  by (simp add: bounded_def)

lemma bounded_last: "bounded N r \<Longrightarrow> unat (last_log_index r) \<le> N"
  by (auto simp: bounded_def entries_bounded_def last_log_index_def split: list.split)

lemma set_reconcile: "set (reconcile es new) \<subseteq> set es \<union> set new"
  by (induction es new rule: reconcile.induct) (auto split: option.splits if_splits dest: in_set_takeD)

lemma bounded_append_entries_response:
  "bounded N r \<Longrightarrow> Send dst m = append_entries_response r to ok \<Longrightarrow> msg_bounded N m"
  using bounded_last [of N r] by (auto simp: append_entries_response_def bounded_def)

lemma bounded_append_entries:
  assumes "bounded N r" "msg_bounded N (MAppendEntries m)" "handle_append_entries r m = (r', as)"
  shows "bounded N r' \<and> sends_bounded N as"
proof (cases "acceptable r m")
  case True
  have st: "persistent r' = persistent (ae_accepted r m)" using append_entries_accepted_state [OF True assms(3)] by simp
  have "bounded N r'"
    using assms(1,2) set_reconcile [of "rlog r" "entries m"] st cterm_ae_accepted [OF True]
    by (fastforce simp: bounded_def entries_bounded_def)
  moreover obtain q bs where q: "apply_committed_entries (ae_accepted r m) = (q, bs)" by fastforce
  with append_entries_accept [OF True] assms(3) have
    "r' = q" "as = [PersistState, ResetElectionTimer, append_entries_response r' (leader_id m) True] @ bs" by auto
  moreover have "Send to msg \<notin> set bs" for to msg
    using q apply_loop_sends [of to msg "rlog (ae_accepted r m)"]
    by (auto simp: apply_committed_entries_def case_prod_beta)
  ultimately show ?thesis using bounded_append_entries_response [of N r'] by (auto simp: sends_bounded_def)
next
  case False
  from append_entries_reject [OF False] assms(3) have
    "as = [append_entries_response r' (leader_id m) False]" "rlog r' = rlog r" "cterm r' = max (cterm r) (ae_term m)"
    by auto
  moreover from this assms(1,2) have "bounded N r'" by (auto simp: bounded_def max_def)
  ultimately show ?thesis using bounded_append_entries_response [of N r'] by (auto simp: sends_bounded_def)
qed

lemma add_one_bounded: "add_u64 Debug a 1 = Inr b \<Longrightarrow> unat a \<le> N \<Longrightarrow> unat b \<le> Suc N"
  by (auto dest: add_u64_Debug_unat)

text \<open>Bounds that one event keeps are bounds it raises by at most one.\<close>

lemma bounded_Suc: "bounded N r \<and> sends_bounded N as \<Longrightarrow> bounded (Suc N) r \<and> sends_bounded (Suc N) as"
  using bounded_mono msg_bounded_mono by (force simp: sends_bounded_def)

lemma bounded_election_timeout:
  assumes "bounded N r" "handle_election_timeout Debug r = Inr (r', as)"
  shows "bounded (Suc N) r' \<and> sends_bounded (Suc N) as"
proof (cases "role r = Leader")
  case True
  with assms bounded_mono show ?thesis by (auto simp: handle_election_timeout_def sends_bounded_def)
next
  case False
  show ?thesis
  proof (cases "peers r")
    case Nil
    with False assms(2) have "add_u64 Debug (cterm r) 1 = Inr (cterm r')" "rlog r' = rlog r" "Send to m \<notin> set as" for to m
      by (auto simp: handle_election_timeout_def Let_def and_then_eq_Inr dest!: become_leader_frame)
    with add_one_bounded [of "cterm r" "cterm r'" N] assms(1) show ?thesis
      by (auto simp: bounded_def sends_bounded_def intro: entries_bounded_mono)
  next
    case (Cons q qs)
    then have "peers r \<noteq> []" by simp
    note el = election_timeout_candidate [OF False this assms(2)]
    with add_one_bounded [of "cterm r" "cterm r'" N] assms(1) show ?thesis
      by (auto simp: bounded_def sends_bounded_def create_vote_action_def intro: entries_bounded_mono)
  qed
qed

lemma bounded_client_request:
  assumes "bounded N r" "handle_client_request Debug r c = Inr (r', as)"
  shows "bounded (Suc N) r' \<and> sends_bounded (Suc N) as"
proof -
  have no: "Send to m \<notin> set as" for to m
    using assms(2) try_advance_sends by (auto simp: handle_client_request_def Let_def and_then_eq_Inr
        split: if_splits prod.splits)
  show ?thesis
  proof (cases "role r = Leader")
    case False
    with client_request_frame [OF assms(2)] assms(1) bounded_mono no show ?thesis
      by (auto simp: sends_bounded_def)
  next
    case True
    with client_request_frame [OF assms(2)] obtain i where i: "add_u64 Debug (last_log_index r) 1 = Inr i"
      "rlog r' = rlog r @ [\<lparr>entry_term = cterm r, index = i, command = c\<rparr>]" "cterm r' = cterm r" by auto
    have "unat i \<le> Suc N" by (rule add_one_bounded [OF i(1) bounded_last [OF assms(1)]])
    with i assms(1) no show ?thesis
      by (auto simp: bounded_def entries_bounded_def sends_bounded_def)
  qed
qed

text \<open>One event raises the bounds by at most one.\<close>

lemma bounded_step:
  assumes "bounded N r" "event_bounded N ev" "raft_step Debug r ev = Inr (r', as)"
  shows "bounded (Suc N) r' \<and> sends_bounded (Suc N) as"
proof (cases ev rule: raft_event_cases)
  case (RV m)
  with assms show ?thesis
    by (intro bounded_Suc) (auto simp: handle_request_vote_def Let_def event_bounded_def bounded_def sends_bounded_def
        vote_response_def split: if_splits option.splits)
next
  case (RVR m)
  with assms show ?thesis
    by (intro bounded_Suc) (auto simp: handle_vote_response_def Let_def event_bounded_def bounded_def sends_bounded_def
        and_then_eq_Inr dest!: become_leader_frame split: if_splits)
next
  case (AE m)
  with assms bounded_append_entries [OF assms(1), of m r' as] show ?thesis
    by (intro bounded_Suc) (simp add: event_bounded_def)
next
  case (AER m)
  then have h: "handle_append_entries_response Debug r m = Inr (r', as)" using assms(3) by simp
  note fr = append_entries_response_frame [OF h] and no = append_entries_response_sends [OF h]
  have "bounded N r'"
    using fr assms(1,2) AER bounded_step_down [OF assms(1), of "aer_term m"]
    by (cases "aer_term m > cterm r") (auto simp: event_bounded_def bounded_def)
  with no show ?thesis by (intro bounded_Suc) (simp add: sends_bounded_def)
next
  case HeartbeatT
  then have h: "handle_heartbeat_timeout r = Inr (r', as)" using assms(3) by simp
  have "msg_bounded N m" if "Send to m \<in> set as" for to m
    using heartbeat_action_cases [OF h that] assms(1)
    by (auto simp: peer_append_entries_def bounded_def entries_bounded_def)
  with heartbeat_actions(1) [OF h] assms(1) show ?thesis by (intro bounded_Suc) (simp add: sends_bounded_def)
qed (use assms bounded_election_timeout bounded_client_request in simp_all)

text \<open>Below \<open>2 ^ 64 - 1\<close> no event panics.\<close>

lemma bounded_no_panic:
  assumes "node_wf r" "bounded N r" "event_bounded N ev" "N + 1 < 2 ^ 64"
  shows "\<exists>r' as. raft_step Debug r ev = Inr (r', as)"
proof -
  have add: "add_u64 Debug a 1 = Inr (a + 1)" if "unat a \<le> N" for a
    using that assms(4) by (simp add: add_u64_Debug_Inr)
  note last = add [OF bounded_last [OF assms(2)]]
  have "raft_step Debug r ev \<noteq> Inl e" for e
  proof (cases ev rule: raft_event_cases)
    case (RVR m)
    have "add_u64 Debug (last_log_index (r\<lparr>candidate_state := cs\<rparr>)) 1 = Inr (last_log_index r + 1)" for cs
      using last by (simp add: last_log_index_def)
    with RVR show ?thesis
      by (auto simp: handle_vote_response_def Let_def and_then_eq_Inl become_leader_def debug_assert_def)
  next
    case (AER m)
    have "unat (aer_match_index m) \<le> N" using assms(3) AER by (simp add: event_bounded_def)
    from add [OF this] have ok: "add_u64 Debug (aer_match_index m) 1 = Inr (aer_match_index m + 1)" .
    have "i < length (peers r)" if "position (\<lambda>i. i = aer_from m) (peers r) = Some i" for i
      using position_SomeD [OF that] by simp
    with ok assms(1) AER show ?thesis
      by (auto simp: handle_append_entries_response_def and_then_eq_Inl get_at_def set_at_def
          node_wf_defs split: if_splits option.splits)
  next
    case ElectionT
    have "unat (cterm r) \<le> N" using assms(2) by (simp add: bounded_def)
    from add [OF this] ElectionT last show ?thesis
      by (auto simp: handle_election_timeout_def Let_def and_then_eq_Inl become_leader_def
          debug_assert_def last_log_index_def)
  next
    case HeartbeatT
    with no_panic_heartbeat [OF assms(1)] show ?thesis by simp
  next
    case (Client c)
    with last show ?thesis by (auto simp: handle_client_request_def Let_def and_then_eq_Inl case_prod_beta)
  qed simp_all
  then show ?thesis by (cases "raft_step Debug r ev") auto
qed

end
