(* ===== verification/SimPanics.thy ===== *)
theory SimPanics
  imports SimSafety RaftBounds
begin

text \<open>
  The simulator does not panic. Every number of it grows by a bounded amount per step: the terms and
  indices of the nodes by one, the clock by at most 10 milliseconds, the latency by 10 milliseconds.
  So with a sound configuration no addition overflows in a run of fewer than \<open>2 ^ 48\<close> steps, and
  nothing else in it can panic.
\<close>

section \<open>A sound configuration\<close>

definition config_ok :: "NodeConfig \<Rightarrow> bool" where
  "config_ok c \<longleftrightarrow> as_millis_u64 (election_timeout_min c) \<le> as_millis_u64 (election_timeout_max c) \<and>
     election_timeout_max c \<le> from_millis (2 ^ 50) \<and> heartbeat_interval c \<le> from_millis (2 ^ 50) \<and>
     0 < incoming_channel_capacity c \<and> 0 < client_channel_capacity c"

text \<open>The timers are those of the configuration; no task sleeps longer than it allows, and the tasks of the
  election timer sleep for a time within its bounds.\<close>

definition timed_by :: "NodeConfig \<Rightarrow> Timers \<Rightarrow> bool" where
  "timed_by c t \<longleftrightarrow> timers_ok t \<and> et_min (election_timer t) = election_timeout_min c \<and>
     et_max (election_timer t) = election_timeout_max c \<and>
     ht_interval (heartbeat_timer t) = heartbeat_interval c \<and>
     (\<forall>k task. live (tasks t) k = Some task \<longrightarrow> sleeps task \<le> from_millis (2 ^ 50) \<and>
        (fires task = TimerElection \<longrightarrow> from_millis (as_millis_u64 (election_timeout_min c)) \<le> sleeps task \<and>
           sleeps task \<le> from_millis (as_millis_u64 (election_timeout_max c))))"

lemma timed_by_new: "timed_by c (timers_new c)"
  using timers_ok_new [of c]
  by (simp add: timed_by_def timers_new_def election_timer_new_def heartbeat_timer_new_def)

lemma timed_by_election_reset:
  assumes "config_ok c" "timed_by c t"
  shows "\<exists>t'. election_reset rg t = Inr t' \<and> timed_by c t'"
proof -
  let ?lo = "as_millis_u64 (election_timeout_min c)" and ?hi = "as_millis_u64 (election_timeout_max c)"
  have le: "?lo \<le> ?hi" using assms(1) by (simp add: config_ok_def)
  then obtain ms where ms: "random_range (rg (spawned (tasks t))) ?lo ?hi = Inr ms"
    by (simp add: random_range_def not_less)
  have "?hi \<le> 2 ^ 50"
  proof -
    have "?hi \<le> election_timeout_max c div 10 ^ 6" by (simp add: as_millis_u64_def)
    also have "\<dots> \<le> from_millis (2 ^ 50) div 10 ^ 6"
      using assms(1) by (intro div_le_mono) (simp add: config_ok_def)
    also have "\<dots> = 2 ^ 50" by (simp add: from_millis_def)
    finally show ?thesis .
  qed
  with random_range_bounds [OF ms] have b: "from_millis ?lo \<le> from_millis ms" "from_millis ms \<le> from_millis ?hi"
    "from_millis ms \<le> from_millis (2 ^ 50)"
    by (simp_all add: from_millis_def)
  obtain t' where t': "election_reset rg t = Inr t'"
    using ms assms(2) by (simp add: election_reset_def timed_by_def spawn_def Let_def)
  have "timers_ok t'" using assms(2) timers_ok_election_reset [OF _ t'] by (simp add: timed_by_def)
  with t' b ms assms(2) show ?thesis
    by (auto simp: election_reset_def timed_by_def spawn_def Let_def split: if_splits)
qed

lemma timed_by_heartbeat_reset:
  assumes "config_ok c" "timed_by c t"
  shows "timed_by c (heartbeat_reset (election_cancel t))"
proof -
  have "timers_ok (heartbeat_reset (election_cancel t))"
    using assms(2) by (simp add: timed_by_def timers_ok_heartbeat_reset timers_ok_election_cancel)
  with assms show ?thesis
    by (auto simp: config_ok_def timed_by_def heartbeat_reset_def election_cancel_def spawn_def Let_def
        split: if_splits)
qed

lemma timed_by_fire: "timed_by c t \<Longrightarrow> fire k t = Some t' \<Longrightarrow> timed_by c t'"
  using timers_ok_fire [of t k t'] by (auto simp: timed_by_def fire_def split: option.splits if_splits)

lemma timed_by_left: "timed_by c t \<Longrightarrow> timers_left t t' \<Longrightarrow> timed_by c t'"
  by (auto simp: timed_by_def timers_left_def timers_ok_def)

section \<open>The event loop\<close>

lemma process_action_timed:
  assumes "config_ok c" "timed_by c (timers n)"
  shows "\<exists>n'. process_action env a n = Inr n' \<and> timed_by c (timers n')"
proof (cases a)
  case ResetElectionTimer
  obtain t where "election_reset (rng env) (timers n) = Inr t" "timed_by c t"
    using timed_by_election_reset [OF assms] by blast
  with ResetElectionTimer show ?thesis by simp
next
  case ResetHeartbeatTimer
  with timed_by_heartbeat_reset [OF assms] show ?thesis by simp
qed (use assms(2) in \<open>auto simp: record_outgoing_def reply_def Let_def split: option.split prod.split sum.split\<close>)

lemma process_actions_timed:
  assumes "config_ok c" "timed_by c (timers n)"
  shows "\<exists>n'. process_actions env as n = Inr n' \<and> timed_by c (timers n')"
  using assms(2)
proof (induction as arbitrary: n)
  case (Cons a as)
  obtain n1 where n1: "process_action env a n = Inr n1" "timed_by c (timers n1)"
    using process_action_timed [OF assms(1) Cons.prems] by blast
  with Cons.IH [OF n1(2)] show ?case by simp
qed simp

lemma runtime_step_timed:
  assumes "config_ok c" "timed_by c (timers n)" "raft_step p (raft n) ev = Inr (r, as)"
  shows "\<exists>n'. runtime_step p env ev n = Inr n' \<and> timed_by c (timers n')"
proof -
  obtain m where "process_actions env as (n\<lparr>raft := r\<rparr>) = Inr m" "timed_by c (timers m)"
    using process_actions_timed [OF assms(1), of "n\<lparr>raft := r\<rparr>"] assms(2) by auto
  with assms(3) show ?thesis by (auto simp: runtime_step_cases)
qed

lemma handle_client_timed:
  assumes "config_ok c" "timed_by c (timers n)" "raft_step p (raft n) (ClientRequest cmd) = Inr (r, as)"
  shows "\<exists>n'. handle_client p env cmd client n = Inr n' \<and> timed_by c (timers n')"
proof -
  let ?m = "if last_log_index r > last_log_index (raft n)
    then pending_insert (last_log_index r) client (n\<lparr>raft := r\<rparr>)
    else reply client (NotTheLeader (known_leader r)) (n\<lparr>raft := r\<rparr>)"
  have "timed_by c (timers ?m)" using assms(2) by (simp add: pending_insert_def reply_def)
  from process_actions_timed [OF assms(1) this] obtain m' where
    "process_actions env as ?m = Inr m'" "timed_by c (timers m')" by blast
  with assms(3) show ?thesis by (auto simp: handle_client_def Let_def)
qed

text \<open>A turn panics only when the Raft core does.\<close>

lemma run_once_timed:
  assumes "config_ok c" "timed_by c (timers n)" "run_once p env inp n = Some x"
    and core: "\<And>ev. (\<forall>m. ev = EvMessage m \<longrightarrow> (\<exists>f. inp = FromPeer f m)) \<Longrightarrow>
      \<exists>r as. raft_step p (raft n) ev = Inr (r, as)"
  shows "\<exists>n'. x = Inr n' \<and> timed_by c (timers n')"
proof (cases inp)
  case FromTimer
  then obtain te rest where rest: "timer_queue (timers n) = te # rest" and x: "x = runtime_step p env
      (case te of TimerElection \<Rightarrow> ElectionTimeout | TimerHeartbeat \<Rightarrow> HeartbeatTimeout)
      (n\<lparr>timers := (timers n)\<lparr>timer_queue := rest\<rparr>\<rparr>)"
    using assms(3) by (auto simp: run_once_def split: list.splits)
  let ?ev = "case te of TimerElection \<Rightarrow> ElectionTimeout | TimerHeartbeat \<Rightarrow> HeartbeatTimeout"
  obtain r as where "raft_step p (raft n) ?ev = Inr (r, as)"
    using core [of ?ev] by (cases te) auto
  moreover have "timed_by c ((timers n)\<lparr>timer_queue := rest\<rparr>)"
    by (rule timed_by_left [OF assms(2)]) (use rest in \<open>force simp: timers_left_def\<close>)
  ultimately show ?thesis
    using runtime_step_timed [OF assms(1), of "n\<lparr>timers := (timers n)\<lparr>timer_queue := rest\<rparr>\<rparr>"]
    unfolding x by simp
next
  case (FromPeer f m)
  with core [of "EvMessage m"] runtime_step_timed [OF assms(1,2)] assms(3) show ?thesis
    by (fastforce simp: run_once_def)
next
  case (FromClient cmd client)
  with core [of "ClientRequest cmd"] handle_client_timed [OF assms(1,2)] assms(3) show ?thesis
    by (fastforce simp: run_once_def)
qed

section \<open>The protocol\<close>

text \<open>After \<open>k\<close> steps, every node is well-formed and no term, index or message exceeds \<open>k\<close>.\<close>

definition model_ok :: "NodeId list \<Rightarrow> nat \<Rightarrow> System \<Rightarrow> bool" where
  "model_ok members k s \<longleftrightarrow> nodes_ok members s \<and> (\<forall>i \<in> set members. bounded k (nodes s i)) \<and>
     (\<forall>(to, m) \<in> set (net s). msg_bounded k m)"

lemma bounded_init [simp]: "bounded k (raft_init i ps)"
  by (simp add: bounded_def entries_bounded_def raft_init_def persistent_default_def)

lemma model_ok_mono: "model_ok members k s \<Longrightarrow> k \<le> k' \<Longrightarrow> model_ok members k' s"
  by (fastforce simp: model_ok_def intro: bounded_mono msg_bounded_mono)

lemma model_ok_init: "cluster_ok members \<Longrightarrow> model_ok members 0 (sys_init members)"
  using node_wf_init [OF peers_ok_others]
  by (simp add: model_ok_def nodes_ok_def sys_init_def) (simp add: raft_init_def)

lemma model_ok_step:
  assumes "cluster_ok members" "model_ok members k s" "forgetful_step members s st = Some s'"
  shows "model_ok members (Suc k) s'"
proof (cases st)
  case (StepEvent i ev)
  then obtain r as where step: "node_step members s i ev r as" and s': "s' = handled s i r as"
    using assms(3) by (auto split: option.splits)
  then have i: "i \<in> set members" "raft_step Debug (nodes s i) ev = Inr (r, as)" "possible s i ev"
    by (simp_all add: node_step_def)
  have wf: "node_wf (nodes s i)" and b: "bounded k (nodes s i)" using assms(2) i(1)
    by (simp_all add: model_ok_def nodes_ok_def)
  have "event_bounded k ev"
    using assms(2) i(3) by (auto simp: model_ok_def event_bounded_def possible_def)
  note grow = bounded_step [OF b this i(2)]
  have "nodes_ok members s'"
    using assms(2) raft_step_node_wf [OF wf i(2)] raft_step_identity [OF i(2)]
    by (auto simp: s' model_ok_def nodes_ok_def)
  moreover have "bounded (Suc k) (nodes s' j)" if "j \<in> set members" for j
    using that grow assms(2) bounded_mono [of k "nodes s j" "Suc k"] by (auto simp: s' model_ok_def)
  moreover have "msg_bounded (Suc k) m" if "(to, m) \<in> set (net s')" for to m
    using that grow assms(2) msg_bounded_mono [of k m "Suc k"]
    by (auto simp: s' model_ok_def sends_bounded_def)
  ultimately show ?thesis by (auto simp: model_ok_def)
next
  case (Forgets i)
  with assms(3) have s': "s' = s\<lparr>nodes := (nodes s)(i := raft_init i (others members i)), apps := (apps s)(i := [])\<rparr>"
    by (auto simp: others_def)
  have "node_wf (raft_init i (others members i))" by (rule node_wf_init [OF peers_ok_others [OF assms(1)]])
  moreover have "raft_id (raft_init i (others members i)) = i" "peers (raft_init i (others members i)) = others members i"
    by (simp_all add: raft_init_def)
  ultimately have "model_ok members k s'" using assms(2) by (auto simp: s' model_ok_def nodes_ok_def)
  then show ?thesis by (rule model_ok_mono) simp
qed

section \<open>The clock and the network\<close>

definition net_paced :: "nat \<Rightarrow> 'f Network \<Rightarrow> bool" where
  "net_paced k nw \<longleftrightarrow> unat (latency_ms (net_config nw)) \<le> 10 * k \<and>
     (\<forall>f \<in> set (in_flight nw). unat (flight_ms f) \<le> 10 * k)"

definition clock_paced :: "nat \<Rightarrow> 'w SimulatedClock \<Rightarrow> bool" where
  "clock_paced k c \<longleftrightarrow> unat (now_us c) \<le> 10000 * k \<and> 0 < unat (step_us c) \<and> unat (step_us c) \<le> 10000"

lemma net_paced_mono: "net_paced k nw \<Longrightarrow> k \<le> k' \<Longrightarrow> net_paced k' nw"
  by (fastforce simp: net_paced_def)

lemma net_paced_try_send [simp]: "net_paced k (try_send ch m nw) = net_paced k nw"
  by (simp add: net_paced_def try_send_def split: option.split)

lemma net_paced_deliver: "net_paced k nw \<Longrightarrow> net_paced k (deliver rnd i to m nw)"
  by (auto simp: deliver_cases) (auto simp: net_paced_def)

lemma net_paced_arrive:
  assumes "net_paced k nw"
  shows "net_paced k (arrive j nw)"
  using assms set_take_subset [of j "in_flight nw"] set_drop_subset [of "Suc j" "in_flight nw"]
  by (auto simp: arrive_def Let_def) (auto simp: net_paced_def)

lemma net_paced_recv: "recv ch nw = Some (m, nw') \<Longrightarrow> net_paced k nw' = net_paced k nw"
  by (auto simp: recv_def net_paced_def split: option.splits list.splits)

lemma net_paced_sends:
  "net_paced k (snd (snd t)) \<Longrightarrow>
     net_paced k (snd (snd (fold (\<lambda>(to, m). transport_send (sim_env rg rnds) to m) ms t)))"
proof (induction ms arbitrary: t)
  case (Cons x ms)
  obtain to m where x: "x = (to, m)" by fastforce
  have "net_paced k (snd (snd (transport_send (sim_env rg rnds) to m t)))"
    using Cons.prems net_paced_deliver by (auto simp: sim_env_def split: prod.split)
  with Cons.IH show ?case by (simp add: x)
qed simp

lemma add_u64_fits: "unat a + unat b < 2 ^ 64 \<Longrightarrow> add_u64 p a b = Inr (a + b)"
  by (simp add: add_u64_def)

lemma tick_paced:
  assumes "clock_paced k c" "k < 2 ^ 48" "unat us \<le> 10000"
  shows "\<exists>w c'. tick p us c = Inr (w, c') \<and> clock_paced (Suc k) c'"
proof -
  have le: "unat (now_us c) + unat us \<le> 10000 * Suc k" using assms(1,3) by (simp add: clock_paced_def)
  with assms(2) have lt: "unat (now_us c) + unat us < 2 ^ 64" by simp
  then have "unat (now_us c + us) = unat (now_us c) + unat us"
    by (intro unat_add_lem [THEN iffD1]) simp
  with le assms(1) add_u64_fits [OF lt] show ?thesis
    by (auto simp: tick_def clock_paced_def case_prod_beta)
qed

lemma manual_step:
  assumes "clock_paced k c" "k < 2 ^ 48"
  shows "\<exists>w c'. tick p CLOCK_STEP_MS c = Inr (w, c') \<and> clock_paced (Suc k) c'"
  by (rule tick_paced [OF assms]) (simp add: CLOCK_STEP_MS_def)

section \<open>The cluster\<close>

definition numbers_ok :: "nat \<Rightarrow> ('f, 'w) Cluster \<Rightarrow> bool" where
  "numbers_ok k cl \<longleftrightarrow> config_ok (node_config cl) \<and> net_paced k (network cl) \<and> clock_paced k (clock cl) \<and>
     (\<forall>i n. running cl i = Some n \<longrightarrow> timed_by (node_config cl) (timers n))"

lemma numbers_ok_frame:
  assumes "numbers_ok k cl" "node_config cl' = node_config cl" "net_paced k' (network cl')"
    "clock_paced k' (clock cl')"
    "\<And>i n. running cl' i = Some n \<Longrightarrow> timed_by (node_config cl) (timers n)"
  shows "numbers_ok k' cl'"
  using assms by (simp add: numbers_ok_def)

lemma clock_paced_mono: "clock_paced k c \<Longrightarrow> k \<le> k' \<Longrightarrow> clock_paced k' c"
  by (auto simp: clock_paced_def)

lemma numbers_ok_mono: "numbers_ok k cl \<Longrightarrow> k \<le> k' \<Longrightarrow> numbers_ok k' cl"
  by (auto simp: numbers_ok_def intro: net_paced_mono clock_paced_mono)

lemma select_input_numbers:
  assumes "select_input i src cl = Some (inp, cl1)"
  shows "node_config cl1 = node_config cl \<and> clock cl1 = clock cl \<and>
    net_paced k (network cl1) = net_paced k (network cl)"
proof (cases src)
  case Peer
  with assms obtain ch m nw where "recv ch (network cl) = Some (m, nw)" "cl1 = cl\<lparr>network := nw\<rparr>"
    by (auto split: option.splits)
  with net_paced_recv show ?thesis by fastforce
qed (use assms in \<open>auto split: option.splits list.splits\<close>)

lemma turn_ok:
  assumes "sim_rel members s cl" "model_ok members k s" "numbers_ok k cl" "k < 2 ^ 48"
    "turn Debug rg rnds i src cl = Some x"
  shows "\<exists>cl'. x = Inr cl' \<and> numbers_ok k cl'"
proof -
  obtain n inp cl1 y where n: "running cl i = Some n" and sel: "select_input i src cl = Some (inp, cl1)"
    and y: "run_once Debug (sim_env rg rnds) inp (attach (network cl1) (now_us (clock cl1)) n) = Some y"
    and x: "x = and_then y (\<lambda>n'. Inr (put_node i (detach n') (cl1\<lparr>network := shared_network n'\<rparr>)))"
    using assms(5) by (auto simp: turn_def split: option.splits if_splits)
  have life: "lifecycle_ok cl" and mem: "i \<in> set members" "raft n = nodes s i"
    and net: "net_ok (set (net s)) (network cl)" using assms(1) n by (auto simp: sim_rel_def)
  have cfg: "config_ok (node_config cl)" and t: "timed_by (node_config cl) (timers n)"
    and nw: "net_paced k (network cl1)" and clk: "clock_paced k (clock cl1)"
    using assms(3) n select_input_numbers [OF sel] by (auto simp: numbers_ok_def)
  have core: "\<exists>r as. raft_step Debug (raft n) ev = Inr (r, as)"
    if "\<forall>m. ev = EvMessage m \<longrightarrow> (\<exists>f. inp = FromPeer f m)" for ev
  proof (rule bounded_no_panic)
    show "node_wf (raft n)" "bounded k (raft n)" using assms(2) mem by (auto simp: model_ok_def nodes_ok_def)
    show "event_bounded k ev"
      using that select_input_effect [OF sel life, of "set (net s)"] net assms(2)
      by (fastforce simp: event_bounded_def model_ok_def)
    show "k + 1 < 2 ^ 64" using assms(4) by simp
  qed
  let ?a = "attach (network cl1) (now_us (clock cl1)) n"
  have "timed_by (node_config cl) (timers ?a)" using t by (simp add: attach_def)
  from run_once_timed [OF cfg this y] core obtain n' where n': "y = Inr n'" "timed_by (node_config cl) (timers n')"
    by (auto simp: attach_def)
  then have "run_once Debug (sim_env rg rnds) inp ?a = Some (Inr n')" using y by simp
  from run_once_carried_out [OF this] obtain as where
    "transport n' = fold (\<lambda>(to, m). transport_send (sim_env rg rnds) to m) (sends as) (transport ?a)"
    by (auto simp: carried_out_def)
  then have nw': "net_paced k (shared_network n')"
    using net_paced_sends [of k "transport ?a"] nw by (simp add: shared_network_def attach_def)
  have run1: "running cl1 = running cl" using select_input_effect [OF sel life] by blast
  let ?cl = "put_node i (detach n') (cl1\<lparr>network := shared_network n'\<rparr>)"
  have "numbers_ok k ?cl"
  proof (rule numbers_ok_frame [OF assms(3)])
    show "node_config ?cl = node_config cl" "clock_paced k (clock ?cl)" "net_paced k (network ?cl)"
      using select_input_numbers [OF sel] clk nw' by (simp_all add: put_node_def)
    show "timed_by (node_config cl) (timers m)" if "running ?cl j = Some m" for j m
      using that n'(2) assms(3) run1 by (auto simp: numbers_ok_def detach_def split: if_splits)
  qed
  with x n'(1) show ?thesis by simp
qed

lemma begin_run_ok:
  assumes "numbers_ok k cl" "begin_run rg i cl = Some x"
  shows "\<exists>cl'. x = Inr cl' \<and> numbers_ok k cl'"
proof -
  obtain n where n: "running cl i = Some n" and x: "x = and_then (node_start (sim_env rg (\<lambda>_. 0 :: 'a))
      (attach (network cl) (now_us (clock cl)) n)) (\<lambda>n'. Inr (put_node i (detach n') cl))"
    using assms(2) by (auto simp: begin_run_def split: option.splits if_splits)
  have cfg: "config_ok (node_config cl)" and t: "timed_by (node_config cl) (timers n)"
    using assms(1) n by (auto simp: numbers_ok_def)
  obtain t' where "election_reset rg (timers n) = Inr t'" "timed_by (node_config cl) t'"
    using timed_by_election_reset [OF cfg t] by blast
  then obtain n' where n': "node_start (sim_env rg (\<lambda>_. 0 :: 'a)) (attach (network cl) (now_us (clock cl)) n) = Inr n'"
    "timed_by (node_config cl) (timers n')"
    by (simp add: node_start_def attach_def sim_env_def)
  have "numbers_ok k (put_node i (detach n') cl)"
  proof (rule numbers_ok_frame [OF assms(1)])
    show "timed_by (node_config cl) (timers m)" if "running (put_node i (detach n') cl) j = Some m" for j m
      using that n'(2) assms(1) by (auto simp: numbers_ok_def detach_def split: if_splits)
  qed (use assms(1) in \<open>simp_all add: numbers_ok_def put_node_def\<close>)
  with x n'(1) show ?thesis by simp
qed

lemma timer_fires_ok:
  assumes "numbers_ok k cl" "timer_fires i j cl = Some cl'"
  shows "numbers_ok k cl'"
proof -
  obtain n t where n: "running cl i = Some n" "fire j (timers n) = Some t" and cl': "cl' = put_node i (n\<lparr>timers := t\<rparr>) cl"
    using assms(2) by (auto simp: timer_fires_def split: option.splits)
  have t: "timed_by (node_config cl) t" using assms(1) n(1) timed_by_fire [OF _ n(2)] by (simp add: numbers_ok_def)
  show ?thesis unfolding cl'
  proof (rule numbers_ok_frame [OF assms(1)])
    show "timed_by (node_config cl) (timers m)" if "running (put_node i (n\<lparr>timers := t\<rparr>) cl) l = Some m" for l m
      using that t assms(1) by (auto simp: numbers_ok_def split: if_splits)
  qed (use assms(1) in \<open>simp_all add: numbers_ok_def put_node_def\<close>)
qed

section \<open>The user\<close>

lemma start_node_ok:
  assumes "config_ok (node_config cl)"
  shows "\<exists>h cl'. start_node Debug i (others ids i) cl = Inr (h, cl')"
  using assms by (simp add: start_node_def mpsc_channel_def config_ok_def node_new_def Let_def)

lemma start_node_numbers:
  assumes "start_node p i ps cl = Inr (h, cl')" "numbers_ok k cl"
  shows "numbers_ok k (cl'\<lparr>handles := (handles cl')(j := Some h)\<rparr>)"
proof (rule numbers_ok_frame [OF assms(2)])
  let ?cl = "cl'\<lparr>handles := (handles cl')(j := Some h)\<rparr>"
  from assms have eq: "handles cl' = handles cl" "node_config cl' = node_config cl" "clock cl' = clock cl"
    "net_paced k (network cl') = net_paced k (network cl)"
    and h: "\<exists>n. h_task h = Some n \<and> timers n = timers_new (node_config cl)"
    by (auto simp: start_node_def mpsc_channel_def node_new_def and_then_eq_Inr register_def net_paced_def Let_def
        split: if_splits)
  then show "node_config ?cl = node_config cl" "net_paced k (network ?cl)" "clock_paced k (clock ?cl)"
    using assms(2) by (simp_all add: numbers_ok_def)
  show "timed_by (node_config cl) (timers n)" if "running ?cl l = Some n" for l n
  proof (cases "l = j")
    case True
    with that h timed_by_new show ?thesis by (auto simp: running_def)
  next
    case False
    with that eq(1) have "running cl l = Some n" by (simp add: running_def)
    with assms(2) show ?thesis by (simp add: numbers_ok_def)
  qed
qed

lemma restart_node_ok:
  assumes "config_ok (node_config cl)"
  shows "\<exists>cl'. restart_node Debug i cl = Inr cl'"
  using start_node_ok [OF assms, of i "node_ids cl"] by (auto simp: restart_node_def)

lemma restart_node_numbers: "restart_node p i cl = Inr cl' \<Longrightarrow> numbers_ok k cl \<Longrightarrow> numbers_ok k cl'"
  by (auto simp: restart_node_def and_then_eq_Inr intro: start_node_numbers split: if_splits)

lemma kill_node_numbers:
  assumes "numbers_ok k cl"
  shows "numbers_ok k (kill_node i cl)"
proof (rule numbers_ok_frame [OF assms])
  show "timed_by (node_config cl) (timers n)" if "running (kill_node i cl) j = Some n" for j n
  proof -
    have "running cl j = Some n"
      using that by (auto simp: running_def kill_node_def split: option.splits if_splits)
    with assms show ?thesis by (simp add: numbers_ok_def)
  qed
qed (use assms in \<open>auto simp: numbers_ok_def net_paced_def kill_node_def deregister_def close_channel_def
    split: option.split\<close>)

lemma isolate_numbers:
  assumes "numbers_ok k cl"
  shows "numbers_ok k (isolate i cl)" "numbers_ok k (unisolate i cl)"
  using assms
  by (simp_all add: numbers_ok_def net_paced_def isolate_def unisolate_def fold_net_config fold_in_flight
      partition_link_def heal_link_def)

lemma submit_numbers:
  assumes "submit i c cid cl = Some cl'" "numbers_ok k cl"
  shows "numbers_ok k cl'"
proof -
  obtain h where h: "handles cl i = Some h"
    "cl' = cl\<lparr>handles := (handles cl)(i := Some (h\<lparr>h_clients := h_clients h @ [(c, cid)]\<rparr>))\<rparr>"
    using assms(1) by (auto simp: submit_def split: option.splits if_splits)
  then have "running cl' = running cl" by (auto simp: running_def fun_eq_iff)
  with h(2) assms(2) show ?thesis by (simp add: numbers_ok_def)
qed

lemma settings_numbers:
  assumes "numbers_ok k cl"
  shows "numbers_ok k (cl\<lparr>network := set_drop_rate r (network cl)\<rparr>)"
    "unat l \<le> 10 * k' \<Longrightarrow> k \<le> k' \<Longrightarrow> numbers_ok k' (cl\<lparr>network := set_latency_ms l (network cl)\<rparr>)"
    "clock_paced k' c \<Longrightarrow> k \<le> k' \<Longrightarrow> numbers_ok k' (cl\<lparr>clock := c\<rparr>)"
  using assms
  by (fastforce simp: numbers_ok_def net_paced_def clock_paced_def set_drop_rate_def set_latency_ms_def)+

lemma clock_paced_settings:
  "clock_paced k c \<Longrightarrow> clock_paced k (set_speed_us v c)"
  "clock_paced k c \<Longrightarrow> clock_paced k (clock_pause c)"
  "clock_paced k c \<Longrightarrow> clock_paced k (clock_resume c)"
  using clamp_bounds [of 1 "10000 :: u64" v]
  by (simp_all add: clock_paced_def set_speed_us_def clock_pause_def clock_resume_def word_le_nat_alt)

text \<open>An action keeps the numbers within their bounds, and with the cursor on a node it does not panic.\<close>

lemma apply_action_numbers:
  assumes "numbers_ok k cl" "k < 2 ^ 48" "apply_action Debug fl client a app cl = Inr (ctl, w, app', cl')"
  shows "numbers_ok (Suc k) cl'"
proof -
  have clk: "clock_paced k (clock cl)" and lat: "unat (latency_ms (net_config (network cl))) \<le> 10 * k"
    using assms(1) by (simp_all add: numbers_ok_def net_paced_def)
  note up = numbers_ok_mono [of k _ "Suc k"]
  note kept = up [OF assms(1)] up [OF kill_node_numbers [OF assms(1)]] up [OF isolate_numbers(1) [OF assms(1)]]
    up [OF isolate_numbers(2) [OF assms(1)]] up [OF settings_numbers(1) [OF assms(1)]]
    settings_numbers(3) [OF assms(1) clock_paced_mono [OF clock_paced_settings(1) [OF clk]], of "Suc k"]
    settings_numbers(3) [OF assms(1) clock_paced_mono [OF clock_paced_settings(2) [OF clk]], of "Suc k"]
    settings_numbers(3) [OF assms(1) clock_paced_mono [OF clock_paced_settings(3) [OF clk]], of "Suc k"]
  show ?thesis
  proof (cases a)
    case (SubmitCommand key val)
    with assms(1,3) kept(1) submit_numbers up show ?thesis by (fastforce split: option.splits)
  next
    case RestartNode
    with assms(1,3) kept(1) restart_node_numbers up show ?thesis
      by (fastforce simp: and_then_eq_Inr split: option.splits)
  next
    case StepClock
    obtain v c where "tick Debug CLOCK_STEP_MS (clock cl) = Inr (v, c)" "clock_paced (Suc k) c"
      using manual_step [OF clk assms(2)] by blast
    with StepClock assms(3) settings_numbers(3) [OF assms(1), of "Suc k"] show ?thesis by auto
  next
    case IncLatency
    then obtain l where l: "add_u64 Debug (latency_ms (net_config (network cl))) LATENCY_STEP_MS = Inr l"
      "cl' = cl\<lparr>network := set_latency_ms l (network cl)\<rparr>"
      using assms(3) by (auto simp: and_then_eq_Inr new_latency_def)
    have "unat l \<le> 10 * Suc k" using add_u64_Debug_unat [OF l(1)] lat by (simp add: LATENCY_STEP_MS_def)
    with l(2) settings_numbers(2) [OF assms(1)] show ?thesis by simp
  next
    case DecLatency
    have "unat (saturating_sub (latency_ms (net_config (network cl))) LATENCY_STEP_MS) \<le> 10 * Suc k"
      using lat by (auto simp: saturating_sub_def not_less unat_sub)
    with DecLatency assms(3) settings_numbers(2) [OF assms(1), of _ "Suc k"] show ?thesis
      by (auto simp: new_latency_def)
  qed (use assms(3) kept in \<open>auto simp: controls and_then_eq_Inr split: option.splits if_splits\<close>)
qed

definition cursor_ok :: "NodeId list \<Rightarrow> 'f SimEvent \<Rightarrow> bool" where
  "cursor_ok members e \<longleftrightarrow>
     (case e of User a app _ \<Rightarrow> unat (selected app) < max (length members) 1 | _ \<Rightarrow> True)"

lemma apply_action_ok:
  assumes "numbers_ok k cl" "k < 2 ^ 48" "length (node_ids cl) < 2 ^ 63"
    "unat (selected app) < max (length (node_ids cl)) 1"
  shows "\<exists>y. apply_action Debug fl client a app cl = Inr y"
proof -
  have clk: "clock_paced k (clock cl)" and lat: "unat (latency_ms (net_config (network cl))) \<le> 10 * k"
    and cfg: "config_ok (node_config cl)"
    using assms(1) by (simp_all add: numbers_ok_def net_paced_def)
  let ?n = "of_nat (max (length (node_ids cl)) 1) :: u64"
  have n: "unat ?n = max (length (node_ids cl)) 1" using assms(3) by (simp add: unat_of_nat)
  show ?thesis
  proof (cases a)
    case StepClock
    obtain v c where "tick Debug CLOCK_STEP_MS (clock cl) = Inr (v, c)"
      using manual_step [OF clk assms(2)] by blast
    with StepClock show ?thesis by simp
  next
    case RestartNode
    then show ?thesis
    proof (cases "selected_node app cl")
      case (Some i)
      obtain cl' where "restart_node Debug i cl = Inr cl'" using restart_node_ok [OF cfg] by blast
      with RestartNode Some show ?thesis by simp
    qed simp
  next
    case SelectNext
    have "unat (selected app) + unat (1 :: u64) < 2 ^ 64" using assms(3,4) by simp
    from add_u64_fits [OF this, of Debug] SelectNext show ?thesis by (simp add: select_next_def)
  next
    case SelectPrev
    have "max (length (node_ids cl)) 1 \<le> 2 ^ 63" using assms(3) by simp
    with assms(4) have "unat (selected app) + unat ?n < 2 ^ 63 + 2 ^ 63" unfolding n by linarith
    then have "unat (selected app) + unat ?n < 2 ^ 64" by simp
    from add_u64_fits [OF this, of Debug] SelectPrev show ?thesis by (simp add: select_prev_def)
  next
    case IncLatency
    have "unat (latency_ms (net_config (network cl))) + unat LATENCY_STEP_MS < 2 ^ 64"
      using lat assms(2) by (simp add: LATENCY_STEP_MS_def)
    from add_u64_fits [OF this, of Debug] IncLatency show ?thesis by simp
  next
    case IncSpeed
    have "unat (step_us (clock cl)) + unat SPEED_STEP_MS < 2 ^ 64"
      using clk by (simp add: clock_paced_def SPEED_STEP_MS_def)
    from add_u64_fits [OF this, of Debug] IncSpeed show ?thesis by simp
  next
    case Inc10Speed
    have "unat (step_us (clock cl)) + unat (SPEED_STEP_MS * 10) < 2 ^ 64"
      using clk by (simp add: clock_paced_def SPEED_STEP_MS_def)
    from add_u64_fits [OF this, of Debug] Inc10Speed show ?thesis by simp
  qed (auto split: option.split)
qed

section \<open>No panic\<close>

lemma sim_event_numbers:
  assumes "sim_rel members s cl" "model_ok members k s" "numbers_ok k cl" "k < 2 ^ 48"
    "sim_event Debug fl e cl = Some (Inr cl')"
  shows "numbers_ok (Suc k) cl'"
proof (cases e)
  case (Begins i rg)
  with begin_run_ok [OF assms(3)] assms(5) numbers_ok_mono [of k cl' "Suc k"] show ?thesis by fastforce
next
  case (Turn i src rg rnds)
  with turn_ok [OF assms(1-4)] assms(5) numbers_ok_mono [of k cl' "Suc k"] show ?thesis by fastforce
next
  case (Fires i j)
  with timer_fires_ok [OF assms(3)] assms(5) numbers_ok_mono [of k cl' "Suc k"] show ?thesis by auto
next
  case (Lands j)
  with assms(3,5) net_paced_arrive have "numbers_ok k cl'" by (auto simp: numbers_ok_def)
  then show ?thesis by (rule numbers_ok_mono) simp
next
  case Advances
  have clk: "clock_paced k (clock cl)" using assms(3) by (simp add: numbers_ok_def)
  then have "unat (step_us (clock cl)) \<le> 10000" by (simp add: clock_paced_def)
  from tick_paced [OF clk assms(4) this] obtain w c where
    "tick Debug (step_us (clock cl)) (clock cl) = Inr (w, c)" "clock_paced (Suc k) c" by blast
  with Advances assms(5) settings_numbers(3) [OF assms(3), of "Suc k"] numbers_ok_mono [OF assms(3), of "Suc k"]
  show ?thesis by (auto simp: auto_advance_def split: if_splits)
next
  case (User a app client)
  then obtain ctl w app' where "apply_action Debug fl client a app cl = Inr (ctl, w, app', cl')"
    using assms(5) by (auto simp: and_then_eq_Inr)
  then show ?thesis by (rule apply_action_numbers [OF assms(3,4)])
qed

lemma sim_event_ok:
  assumes "sim_rel members s cl" "model_ok members k s" "numbers_ok k cl" "k < 2 ^ 48"
    "length members < 2 ^ 63" "cursor_ok members e" "sim_event Debug fl e cl = Some x"
  shows "\<exists>cl'. x = Inr cl'"
proof (cases e)
  case (Begins i rg)
  with begin_run_ok [OF assms(3)] assms(7) show ?thesis by fastforce
next
  case (Turn i src rg rnds)
  with turn_ok [OF assms(1-4)] assms(7) show ?thesis by fastforce
next
  case Advances
  have clk: "clock_paced k (clock cl)" using assms(3) by (simp add: numbers_ok_def)
  then have "unat (step_us (clock cl)) \<le> 10000" by (simp add: clock_paced_def)
  from tick_paced [OF clk assms(4) this, of Debug] obtain w c where
    "tick Debug (step_us (clock cl)) (clock cl) = Inr (w, c)" by blast
  with Advances assms(7) show ?thesis by (auto simp: auto_advance_def split: if_splits)
next
  case (User a app client)
  have "node_ids cl = members" using assms(1) by (simp add: sim_rel_def)
  with User assms(5,6) apply_action_ok [OF assms(3,4), of app fl client a] obtain y where
    "apply_action Debug fl client a app cl = Inr y" by (auto simp: cursor_ok_def)
  with User assms(7) show ?thesis by (auto simp: case_prod_beta)
qed (use assms(7) in auto)

text \<open>The invariant along a run.\<close>

definition sim_inv :: "NodeId list \<Rightarrow> nat \<Rightarrow> ('f, 'w) Cluster \<Rightarrow> bool" where
  "sim_inv members k cl \<longleftrightarrow> numbers_ok k cl \<and> (\<exists>s. sim_rel members s cl \<and> model_ok members k s)"

lemma sim_inv_event:
  assumes "cluster_ok members" "sim_inv members k cl" "k < 2 ^ 48" "sim_event Debug fl e cl = Some (Inr cl')"
  shows "sim_inv members (Suc k) cl'"
proof -
  obtain s where s: "sim_rel members s cl" "model_ok members k s" "numbers_ok k cl"
    using assms(2) by (auto simp: sim_inv_def)
  have "\<exists>s'. sim_rel members s' cl' \<and> model_ok members (Suc k) s'"
    using sim_event_restart_refines [OF s(1) assms(4)] model_ok_step [OF assms(1) s(2)]
      model_ok_mono [OF s(2), of "Suc k"] by auto
  with sim_event_numbers [OF s assms(3,4)] show ?thesis by (simp add: sim_inv_def)
qed

lemma sim_inv_simulate:
  assumes "cluster_ok members" "simulate Debug fl es cl0 = Some cl" "sim_inv members k cl0"
    "k + length es \<le> 2 ^ 48"
  shows "sim_inv members (k + length es) cl"
  using assms(2-4)
proof (induction es arbitrary: cl0 k)
  case (Cons e es)
  then obtain cl1 where cl1: "sim_event Debug fl e cl0 = Some (Inr cl1)" "simulate Debug fl es cl1 = Some cl"
    by (auto split: option.splits sum.splits)
  have "k < 2 ^ 48" using Cons.prems(3) by simp
  from sim_inv_event [OF assms(1) Cons.prems(2) this cl1(1)] Cons.IH [OF cl1(2), of "Suc k"] Cons.prems(3)
  show ?case by simp
qed simp

lemma start_nodes_ok:
  assumes "numbers_ok 0 cl"
  shows "\<exists>cl'. start_nodes Debug js cl = Inr cl' \<and> numbers_ok 0 cl'"
  using assms
proof (induction js arbitrary: cl)
  case (Cons j js)
  obtain h cl1 where st: "start_node Debug j (others (node_ids cl) j) cl = Inr (h, cl1)"
    using start_node_ok [of cl j "node_ids cl"] Cons.prems by (auto simp: numbers_ok_def)
  from Cons.IH [OF start_node_numbers [OF st Cons.prems]] st show ?case by auto
qed auto

lemma new_cluster_ok:
  assumes "config_ok config"
  shows "\<exists>cl :: ('f::{zero,one,linorder}, 'w) Cluster.
    cluster_new Debug members clock_new config = Inr cl \<and> numbers_ok 0 cl"
  unfolding cluster_new_def
  by (rule start_nodes_ok) (use assms in \<open>simp add: numbers_ok_def net_paced_def clock_paced_def network_new_def
    clock_new_def DEFAULT_STEP_MS_def running_def\<close>)

lemma sim_inv_new:
  fixes cl :: "('f::{zero,one,linorder}, 'w) Cluster"
  assumes "cluster_ok members" "config_ok config" "cluster_new Debug members clock_new config = Inr cl"
  shows "sim_inv members 0 cl"
proof -
  obtain cl' :: "('f, 'w) Cluster" where "cluster_new Debug members clock_new config = Inr cl'" "numbers_ok 0 cl'"
    using new_cluster_ok [OF assms(2)] by blast
  with assms(3) have "numbers_ok 0 cl" by simp
  with new_cluster_refines [OF assms(3)] model_ok_init [OF assms(1)] show ?thesis by (auto simp: sim_inv_def)
qed

text \<open>No sleep that is pending overflows the clock either: \<open>sleep\<close> adds to the time.\<close>

lemma sleep_fits:
  assumes "unat (now_us c) \<le> 10000 * 2 ^ 48" "d \<le> from_millis (10 * 2 ^ 48)"
  shows "\<exists>t. sleep p d c = Inr t"
proof -
  have "d div 1000 \<le> from_millis (10 * 2 ^ 48) div 1000" using assms(2) by (rule div_le_mono)
  then have d: "d div 1000 \<le> 10000 * 2 ^ 48" by (simp add: from_millis_def)
  have "unat (of_nat (d div 1000) :: u64) \<le> d div 1000" by (simp add: unat_of_nat)
  with assms(1) d have "unat (now_us c) + unat (of_nat (d div 1000) :: u64) \<le> 10000 * 2 ^ 48 + 10000 * 2 ^ 48"
    by (intro add_mono) (auto intro: order.trans)
  also have "\<dots> < (2 :: nat) ^ 64" by simp
  finally show ?thesis unfolding sleep_def micros_def by (intro exI) (rule add_u64_fits)
qed

lemma sleeps_fit:
  assumes "numbers_ok (2 ^ 48) cl"
  shows "running cl i = Some n \<Longrightarrow> live (tasks (timers n)) j = Some task \<Longrightarrow>
      \<exists>t. sleep p (sleeps task) (clock cl) = Inr t"
    and "f \<in> set (in_flight (network cl)) \<Longrightarrow> \<exists>t. sleep p (from_millis (unat (flight_ms f))) (clock cl) = Inr t"
proof -
  have now: "unat (now_us (clock cl)) \<le> 10000 * 2 ^ 48" using assms by (simp add: numbers_ok_def clock_paced_def)
  note fits = sleep_fits [OF now]
  show "\<exists>t. sleep p (sleeps task) (clock cl) = Inr t"
    if "running cl i = Some n" "live (tasks (timers n)) j = Some task"
  proof (rule fits)
    have "sleeps task \<le> from_millis (2 ^ 50)" using assms that by (auto simp: numbers_ok_def timed_by_def)
    then show "sleeps task \<le> from_millis (10 * 2 ^ 48)" by (simp add: from_millis_def)
  qed
  show "\<exists>t. sleep p (from_millis (unat (flight_ms f))) (clock cl) = Inr t" if "f \<in> set (in_flight (network cl))"
  proof (rule fits)
    have "unat (flight_ms f) \<le> 10 * 2 ^ 48" using assms that by (simp add: numbers_ok_def net_paced_def)
    then show "from_millis (unat (flight_ms f)) \<le> from_millis (10 * 2 ^ 48)" by (simp add: from_millis_def)
  qed
qed

text \<open>C29: the simulator does not panic. With a sound configuration, creating the cluster succeeds, and after
  any run of fewer than \<open>2 ^ 48\<close> steps, restarts included, no step panics that can happen next, with the
  cursor on a node of the cluster; nor does putting any pending timer or delayed message to sleep
  overflow the clock.\<close>

theorem simulator_never_panics:
  fixes fl :: "'f::{zero,one,plus,minus,linorder} Floats"
  assumes "cluster_ok members" "length members < 2 ^ 63" "config_ok config"
  shows "\<exists>cl0 :: ('f, 'w) Cluster. cluster_new Debug members clock_new config = Inr cl0 \<and>
    (\<forall>es cl. length es < 2 ^ 48 \<longrightarrow> simulate Debug fl es cl0 = Some cl \<longrightarrow>
       (\<forall>e x. cursor_ok members e \<longrightarrow> sim_event Debug fl e cl = Some x \<longrightarrow> (\<exists>cl'. x = Inr cl')) \<and>
       (\<forall>i n k task. running cl i = Some n \<longrightarrow> live (tasks (timers n)) k = Some task \<longrightarrow>
          (\<exists>t. sleep Debug (sleeps task) (clock cl) = Inr t)) \<and>
       (\<forall>f \<in> set (in_flight (network cl)). \<exists>t. sleep Debug (from_millis (unat (flight_ms f))) (clock cl) = Inr t))"
proof -
  obtain cl0 :: "('f, 'w) Cluster" where cl0: "cluster_new Debug members clock_new config = Inr cl0"
    using new_cluster_ok [OF assms(3)] by blast
  note inv0 = sim_inv_new [OF assms(1,3) cl0]
  show ?thesis
  proof (rule exI [of _ cl0], intro conjI allI impI ballI)
    fix es and cl :: "('f, 'w) Cluster"
    assume es: "length es < 2 ^ 48" "simulate Debug fl es cl0 = Some cl"
    have inv: "sim_inv members (length es) cl" using sim_inv_simulate [OF assms(1) es(2) inv0] es(1) by simp
    have "numbers_ok (2 ^ 48) cl"
      by (rule numbers_ok_mono [of "length es"]) (use inv es(1) in \<open>simp_all add: sim_inv_def\<close>)
    note pend = sleeps_fit [OF this]
    show "\<exists>cl'. x = Inr cl'" if "cursor_ok members e" "sim_event Debug fl e cl = Some x" for e x
      using inv sim_event_ok [OF _ _ _ es(1) assms(2) that] unfolding sim_inv_def by blast
    show "\<exists>t. sleep Debug (sleeps task) (clock cl) = Inr t"
      if "running cl i = Some n" "live (tasks (timers n)) k = Some task" for i n k task
      by (rule pend(1) [OF that])
    show "\<exists>t. sleep Debug (from_millis (unat (flight_ms f))) (clock cl) = Inr t"
      if "f \<in> set (in_flight (network cl))" for f
      by (rule pend(2) [OF that])
  qed (rule cl0)
qed

lemma config_ok_default: "config_ok node_config_default"
  by (simp add: config_ok_def node_config_default_def as_millis_u64_def from_millis_def)

theorem simulator_never_panics_witness:
  "\<exists>(cl0 :: (nat, unit) Cluster) cl cl'. cluster_new Debug members3 clock_new node_config_default = Inr cl0 \<and>
     simulate Debug demo_floats election_in_simulator cl0 = Some cl \<and>
     sim_event Debug demo_floats (User SelectPrev app_default 0) cl = Some (Inr cl')"
proof -
  obtain cl0 cl :: "(nat, unit) Cluster" where
    r: "cluster_new Debug members3 clock_new node_config_default = Inr cl0"
      "simulate Debug demo_floats election_in_simulator cl0 = Some cl"
    using election_in_simulator_run by blast
  have n: "length election_in_simulator < 2 ^ 48" "length members3 < 2 ^ 63"
    by (simp_all add: election_in_simulator_def members3_def)
  have c: "cursor_ok members3 (User SelectPrev app_default 0 :: nat SimEvent)"
    by (simp add: cursor_ok_def app_default_def members3_def)
  obtain x where x: "sim_event Debug demo_floats (User SelectPrev app_default 0) cl = Some x" by simp
  with simulator_never_panics [OF members3_ok n(2) config_ok_default, of demo_floats] r n(1) c have
    "\<exists>cl'. x = Inr cl'" by (metis sum.inject(2))
  with r x show ?thesis by blast
qed

end
