(* ===== verification/SimWedge.thy ===== *)
theory SimWedge
  imports SimSafety
begin

text \<open>
  The simulator can lose its leader for good. A leader has no election timer; deposed by the campaign of
  a node whose log is behind, it does not get one back. When no other node can win without its vote,
  the cluster has no leader from then on, although a majority of its nodes is alive and connected and
  could elect one (theory \<open>Electability\<close>): the node that could win never campaigns.
\<close>

section \<open>The run\<close>

text \<open>
  Node 3 is killed. Node 1 becomes the leader and accepts a command; before its first heartbeat node 2
  times out and campaigns. Node 1 steps down and refuses its vote, as the log of node 2 is shorter.
\<close>

definition wedge_run :: "nat SimEvent list" where
  "wedge_run =
     [User KillNode (cursor_on 2) 0, Begins 1 (\<lambda>_. 0), Begins 2 (\<lambda>_. 0),
      Fires 1 0, Turn 1 Timer (\<lambda>_. 0) (\<lambda>_. 0), Turn 2 Peer (\<lambda>_. 0) (\<lambda>_. 0), Turn 1 Peer (\<lambda>_. 0) (\<lambda>_. 0),
      User (SubmitCommand ''k'' ''v'') (cursor_on 0) 0, Turn 1 Client (\<lambda>_. 0) (\<lambda>_. 0),
      Fires 2 1, Turn 2 Timer (\<lambda>_. 0) (\<lambda>_. 0), Turn 1 Peer (\<lambda>_. 0) (\<lambda>_. 0), Turn 2 Peer (\<lambda>_. 0) (\<lambda>_. 0)]"

section \<open>The wedged state\<close>

text \<open>Node 1 follows, with the longest log, and waits for a message.\<close>

definition stuck :: "Raft \<Rightarrow> bool" where
  "stuck r \<longleftrightarrow> raft_id r = 1 \<and> role r = Follower \<and> 0 < last_log_term r"

text \<open>Node 2 has an empty log and no vote but its own.\<close>

definition hopeless :: "Raft \<Rightarrow> bool" where
  "hopeless r \<longleftrightarrow> raft_id r = 2 \<and> peers r = [1, 3] \<and> role r \<noteq> Leader \<and> rlog r = [] \<and>
     (role r = Candidate \<longrightarrow> (\<exists>cs. candidate_state r = Some cs \<and> votes_granted cs = {2}))"

text \<open>Only requests that node 1 refuses, and its refusals, are sent.\<close>

fun futile :: "NodeId \<times> Message \<Rightarrow> bool" where
  "futile (to, MRequestVote m) = (candidate_id m = 2 \<and> rv_last_log_term m = 0 \<and> rv_last_log_index m = 0 \<and> to \<noteq> 2)"
| "futile (to, MRequestVoteResponse m) = (\<not> vote_granted m \<and> to = 2)"
| "futile _ = False"

definition unarmed :: "Timers \<Rightarrow> bool" where
  "unarmed t \<longleftrightarrow> (\<forall>k task. live (tasks t) k = Some task \<longrightarrow> fires task = TimerHeartbeat) \<and>
     TimerElection \<notin> set (timer_queue t)"

definition wedged :: "('f, 'w) Cluster \<Rightarrow> bool" where
  "wedged cl \<longleftrightarrow> (\<exists>s. sim_rel members3 s cl \<and> stuck (nodes s 1) \<and> hopeless (nodes s 2) \<and>
       (\<forall>x \<in> set (net s). futile x)) \<and>
     running cl 3 = None \<and> (\<forall>i n. running cl i = Some n \<longrightarrow> begun n) \<and>
     (\<forall>n. running cl 1 = Some n \<longrightarrow> unarmed (timers n))"

section \<open>No event ends it\<close>

lemma stuck_step:
  assumes "stuck r" "ev \<noteq> ElectionTimeout" "\<And>m. ev = EvMessage m \<Longrightarrow> futile (1, m)"
    "raft_step Debug r ev = Inr (r', as)"
  shows "stuck r' \<and> \<not> resets as \<and> (\<forall>to m. Send to m \<in> set as \<longrightarrow> futile (to, m))"
proof (cases ev rule: raft_event_cases)
  case (RV m)
  have m: "candidate_id m = 2" "rv_last_log_term m = 0" using assms(3) RV by auto
  let ?s = "if rv_term m > cterm r then step_down r (rv_term m) else r"
  have "0 < last_log_term ?s" using assms(1) by (simp add: stuck_def)
  with m have "\<not> candidate_log_up_to_date ?s m" by (auto simp: candidate_log_up_to_date_def)
  with RV assms(4) have r': "r' = ?s" "as = [vote_response ?s 2 False]"
    using m(1) by (auto simp: handle_request_vote_def Let_def split: if_splits)
  with assms(1) show ?thesis by (auto simp: stuck_def resets_def vote_response_def)
next
  case HeartbeatT
  with assms(1,4) show ?thesis by (auto simp: stuck_def handle_heartbeat_timeout_def resets_def)
next
  case (Client c)
  with assms(1,4) show ?thesis by (auto simp: stuck_def handle_client_request_def resets_def)
qed (use assms in auto)

lemma hopeless_campaign:
  assumes "hopeless r" "handle_election_timeout Debug r = Inr (r', as)"
  shows "hopeless r' \<and> (\<forall>to m. Send to m \<in> set as \<longrightarrow> futile (to, m))"
proof -
  have h: "role r \<noteq> Leader" "peers r \<noteq> []" using assms(1) by (auto simp: hopeless_def)
  note el = election_timeout_candidate [OF h assms(2)]
  have "last_log_index r' = 0" "last_log_term r' = 0"
    using el(4) assms(1) by (simp_all add: hopeless_def last_log_index_def last_log_term_def)
  with el assms(1) show ?thesis by (auto simp: hopeless_def create_vote_action_def)
qed

lemma hopeless_step:
  assumes "hopeless r" "\<And>m. ev = EvMessage m \<Longrightarrow> futile (2, m)" "raft_step Debug r ev = Inr (r', as)"
  shows "hopeless r' \<and> (\<forall>to m. Send to m \<in> set as \<longrightarrow> futile (to, m))"
proof (cases ev rule: raft_event_cases)
  case (RVR m)
  have m: "\<not> vote_granted m" using assms(2) RVR by auto
  have few: "\<not> has_majority (cs\<lparr>votes_received := V\<rparr>) (quorum r)" if "votes_granted cs = {2}" for cs V
    using that assms(1) by (simp add: has_majority_def quorum_def div_ceil_def hopeless_def)
  show ?thesis
  proof (cases "role r = Candidate")
    case True
    then obtain cs where cs: "candidate_state r = Some cs" "votes_granted cs = {2}"
      using assms(1) by (auto simp: hopeless_def)
    with RVR assms(1,3) m few [OF cs(2)] show ?thesis
      by (auto simp: handle_vote_response_def Let_def hopeless_def split: if_splits)
  next
    case False
    with RVR assms(1,3) show ?thesis
      by (auto simp: handle_vote_response_def Let_def hopeless_def split: if_splits)
  qed
next
  case ElectionT
  with hopeless_campaign [OF assms(1)] assms(3) show ?thesis by simp
next
  case HeartbeatT
  with assms(1,3) show ?thesis by (auto simp: hopeless_def handle_heartbeat_timeout_def)
next
  case (Client c)
  with assms(1,3) show ?thesis by (auto simp: hopeless_def handle_client_request_def)
qed (use assms in auto)

lemma wedged_turn:
  assumes "wedged cl" "turn Debug rg rnds i src cl = Some (Inr cl')"
  shows "wedged cl'"
proof -
  obtain s where s: "sim_rel members3 s cl" "stuck (nodes s 1)" "hopeless (nodes s 2)" "\<forall>x \<in> set (net s). futile x"
    and t: "running cl 3 = None" "\<And>i n. running cl i = Some n \<Longrightarrow> begun n"
      "\<And>n. running cl 1 = Some n \<Longrightarrow> unarmed (timers n)"
    using assms(1) unfolding wedged_def by blast
  obtain ev as s' n n' where st: "node_step members3 s i ev (nodes s' i) as" "s' = handled s i (nodes s' i) as"
      "sim_rel members3 s' cl'"
    and n: "running cl i = Some n" "running cl' = (running cl)(i := Some n')" "begun n'"
      "ev = ElectionTimeout \<longrightarrow> TimerElection \<in> set (timer_queue (timers n))"
      "\<not> resets as \<longrightarrow> timers_left (timers n) (timers n')"
    using turn_step [OF s(1) assms(2)] timer_actions_quiet unfolding turn_steps_def by metis
  have step: "raft_step Debug (nodes s i) ev = Inr (nodes s' i, as)" "\<And>m. ev = EvMessage m \<Longrightarrow> futile (i, m)"
    and i: "i = 1 \<or> i = 2"
    using st(1) s(4) n(1) t(1) by (auto simp: node_step_def possible_def members3_def)
  have eq: "nodes s' = (nodes s)(i := nodes s' i)" "net s' = net s @ sends as" by (subst st(2); simp)+
  have "stuck (nodes s' 1) \<and> hopeless (nodes s' 2) \<and> (\<forall>to m. Send to m \<in> set as \<longrightarrow> futile (to, m)) \<and>
      (\<forall>m. running cl' 1 = Some m \<longrightarrow> unarmed (timers m))"
  proof (cases "i = 1")
    case True
    then have "unarmed (timers n)" using t(3) n(1) by simp
    then have "ev \<noteq> ElectionTimeout" using n(4) by (auto simp: unarmed_def)
    moreover have "futile (1, m)" if "ev = EvMessage m" for m using step(2) [OF that] True by simp
    ultimately have q: "stuck (nodes s' 1) \<and> \<not> resets as \<and> (\<forall>to m. Send to m \<in> set as \<longrightarrow> futile (to, m))"
      using stuck_step [of "nodes s 1" ev "nodes s' 1" as] s(2) step(1) True by simp
    then have "timers_left (timers n) (timers n')" using n(5) by blast
    with \<open>unarmed (timers n)\<close> have "unarmed (timers n')" by (auto simp: unarmed_def timers_left_def)
    moreover have "nodes s' 2 = nodes s 2" by (subst eq(1)) (simp add: True)
    ultimately show ?thesis using q s(3) n(2) True by simp
  next
    case False
    with i have i2: "i = 2" by simp
    have "futile (2, m)" if "ev = EvMessage m" for m using step(2) [OF that] i2 by simp
    with hopeless_step [of "nodes s 2" ev "nodes s' 2" as] s(3) step(1) i2 have
      "hopeless (nodes s' 2) \<and> (\<forall>to m. Send to m \<in> set as \<longrightarrow> futile (to, m))" by simp
    moreover have "nodes s' 1 = nodes s 1" by (subst eq(1)) (simp add: i2)
    ultimately show ?thesis using s(2) n(2) t(3) i2 by simp
  qed
  moreover have "\<forall>x \<in> set (net s'). futile x"
    using calculation s(4) unfolding eq(2) by (auto simp: set_sends)
  moreover have "running cl' 3 = None" using n(2) t(1) i by auto
  moreover have "begun m" if "running cl' j = Some m" for j m
    using that n(2,3) t(2) by (auto split: if_splits)
  ultimately show ?thesis using st(3) unfolding wedged_def by blast
qed

text \<open>A step that keeps the model's state and starts nothing.\<close>

lemma wedged_frame:
  assumes "wedged cl" "\<And>s. sim_rel members3 s cl \<Longrightarrow> sim_rel members3 s cl'"
    "\<And>j n'. running cl' j = Some n' \<Longrightarrow> \<exists>n. running cl j = Some n \<and> (begun n \<longrightarrow> begun n') \<and>
       (unarmed (timers n) \<longrightarrow> unarmed (timers n'))"
  shows "wedged cl'"
  unfolding wedged_def
proof (intro conjI allI impI)
  show "\<exists>s. sim_rel members3 s cl' \<and> stuck (nodes s 1) \<and> hopeless (nodes s 2) \<and> (\<forall>x \<in> set (net s). futile x)"
    using assms(1,2) unfolding wedged_def by blast
  show "running cl' 3 = None" using assms(1,3) unfolding wedged_def by (metis option.exhaust option.distinct(1))
  show "begun n" if "running cl' i = Some n" for i n using assms(1) assms(3) [OF that] unfolding wedged_def by blast
  show "unarmed (timers n)" if "running cl' 1 = Some n" for n
    using assms(1) assms(3) [OF that] unfolding wedged_def by blast
qed

lemma wedged_fires:
  assumes "wedged cl" "timer_fires i k cl = Some cl'"
  shows "wedged cl'"
proof (rule wedged_frame [OF assms(1)])
  show "sim_rel members3 s cl'" if "sim_rel members3 s cl" for s by (rule timer_fires_refines [OF that assms(2)])
  obtain n t where n: "running cl i = Some n" "fire k (timers n) = Some t" "cl' = put_node i (n\<lparr>timers := t\<rparr>) cl"
    using assms(2) by (auto simp: timer_fires_def split: option.splits)
  have "spawned (tasks t) = spawned (tasks (timers n))" "unarmed (timers n) \<Longrightarrow> unarmed t"
    using n(2) by (auto simp: fire_def unarmed_def split: option.splits if_splits)
  then show "\<exists>n. running cl j = Some n \<and> (begun n \<longrightarrow> begun n') \<and> (unarmed (timers n) \<longrightarrow> unarmed (timers n'))"
    if "running cl' j = Some n'" for j n'
    using that n(1,3) by (auto simp: begun_def split: if_splits)
qed

lemma wedged_event:
  assumes "wedged cl" "sim_event Debug fl e cl = Some (Inr cl')" "\<not> restarts e"
  shows "wedged cl'"
proof (cases e)
  case (Begins i rg)
  with assms(1,2) show ?thesis unfolding wedged_def by (auto simp: begin_run_def split: option.splits if_splits)
next
  case (Turn i src rg rnds)
  with wedged_turn [OF assms(1)] assms(2) show ?thesis by auto
next
  case (Fires i k)
  with wedged_fires [OF assms(1)] assms(2) show ?thesis by auto
next
  case (Lands k)
  then have cl': "cl' = cl\<lparr>network := arrive k (network cl)\<rparr>" using assms(2) by simp
  show ?thesis unfolding cl' by (rule wedged_frame [OF assms(1) lands_refines]) auto
next
  case Advances
  then obtain c where cl': "cl' = cl\<lparr>clock := c\<rparr>" using assms(2) by (auto simp: and_then_eq_Inr)
  show ?thesis unfolding cl' by (rule wedged_frame [OF assms(1) network_settings_refine(3)]) auto
next
  case (User a app client)
  then have a: "a \<noteq> RestartNode" using assms(3) by auto
  obtain ctl w app' where act: "apply_action Debug fl client a app cl = Inr (ctl, w, app', cl')"
    using assms(2) User by (auto simp: and_then_eq_Inr)
  show ?thesis
    by (rule wedged_frame [OF assms(1) apply_action_refines [OF _ act a]]) (auto dest: apply_action_running [OF act a])
qed

lemma wedged_forever:
  "simulate Debug fl es cl = Some cl' \<Longrightarrow> wedged cl \<Longrightarrow> \<forall>e \<in> set es. \<not> restarts e \<Longrightarrow> wedged cl'"
proof (induction es arbitrary: cl)
  case (Cons e es)
  obtain cl1 where e: "sim_event Debug fl e cl = Some (Inr cl1)" "simulate Debug fl es cl1 = Some cl'"
    using Cons.prems(1) by (auto split: option.splits sum.splits)
  have "wedged cl1" by (rule wedged_event [OF Cons.prems(2) e(1)]) (use Cons.prems(3) in simp)
  with Cons.IH [OF e(2)] Cons.prems(3) show ?case by simp
qed simp

lemma wedged_no_leader:
  assumes "wedged cl" "running cl i = Some n"
  shows "role (raft n) \<noteq> Leader"
proof -
  obtain s where s: "sim_rel members3 s cl" "stuck (nodes s 1)" "hopeless (nodes s 2)" "running cl 3 = None"
    using assms(1) unfolding wedged_def by blast
  have "i \<noteq> 3" using s(4) assms(2) by auto
  moreover have "i \<in> set members3" "raft n = nodes s i" using s(1) assms(2) by (auto simp: sim_rel_def)
  ultimately have "raft n = nodes s i" "i = 1 \<or> i = 2" by (auto simp: members3_def)
  with s(2,3) show ?thesis by (auto simp: stuck_def hopeless_def)
qed

section \<open>The run gets there\<close>

lemma wedge_run_result:
  "\<exists>(cl0 :: (nat, unit) Cluster) cl m n. cluster_new Debug members3 clock_new node_config_default = Inr cl0 \<and>
     simulate Debug demo_floats wedge_run cl0 = Some cl \<and>
     running cl 1 = Some m \<and> stuck (raft m) \<and> begun m \<and> unarmed (timers m) \<and> state_machine m = kv_new \<and>
     running cl 2 = Some n \<and> hopeless (raft n) \<and> begun n \<and> state_machine n = kv_new \<and> running cl 3 = None \<and>
     (\<forall>i ch c. senders (network cl) i = Some ch \<longrightarrow> channels (network cl) ch = Some c \<longrightarrow> queue c = []) \<and>
     in_flight (network cl) = [] \<and> partitions (network cl) = {} \<and> drop_rate (net_config (network cl)) = 0"
  by (simp add: start_simps wedge_run_def cursor_on_def sim_simps runtime_simps run_simps user_simps
      stuck_def hopeless_def unarmed_def)

lemma wedge_run_wedged:
  "\<exists>(cl0 :: (nat, unit) Cluster) cl. cluster_new Debug members3 clock_new node_config_default = Inr cl0 \<and>
     simulate Debug demo_floats wedge_run cl0 = Some cl \<and> wedged cl \<and> running cl 1 \<noteq> None \<and> running cl 2 \<noteq> None \<and>
     partitions (network cl) = {} \<and> drop_rate (net_config (network cl)) = 0"
proof -
  obtain cl0 cl :: "(nat, unit) Cluster" and m n where
    new: "cluster_new Debug members3 clock_new node_config_default = Inr cl0"
    and run: "simulate Debug demo_floats wedge_run cl0 = Some cl"
    and m: "running cl 1 = Some m" "stuck (raft m)" "begun m" "unarmed (timers m)"
    and n: "running cl 2 = Some n" "hopeless (raft n)" "begun n" and dead: "running cl 3 = None"
    and empty: "\<forall>i ch c. senders (network cl) i = Some ch \<longrightarrow> channels (network cl) ch = Some c \<longrightarrow> queue c = []"
      "in_flight (network cl) = []"
    and clear: "partitions (network cl) = {}" "drop_rate (net_config (network cl)) = 0"
    using wedge_run_result by blast
  have "throughout demo_floats (\<lambda>_ _. True) wedge_run cl0" by (rule throughout_all) simp
  from simulate_can [OF run this] obtain s where s: "sim_rel members3 s cl"
    by (rule forgetful_sim.transfer [OF _ new_cluster_refines [OF new], where P = "\<lambda>_. True"]) simp_all
  then have "sim_rel members3 (s\<lparr>net := []\<rparr>) cl" using empty by (simp add: sim_rel_def net_ok_def)
  moreover have "nodes s 1 = raft m" "nodes s 2 = raft n" using s m(1) n(1) by (auto simp: sim_rel_def)
  moreover have "begun k" if "running cl i = Some k" for i k
  proof -
    have "i \<in> set members3" using s that by (auto simp: sim_rel_def)
    with that dead m(1,3) n(1,3) show ?thesis by (auto simp: members3_def)
  qed
  ultimately have "wedged cl" using m(1,2,4) n(2) dead unfolding wedged_def
    by (intro conjI exI [of _ "s\<lparr>net := []\<rparr>"]) auto
  with new run m(1) n(1) clear show ?thesis by blast
qed

text \<open>C26: the simulator can lose its leader for good, with a majority alive and connected. After the run above
  nodes 1 and 2 run, without a partition or loss of messages, and whatever happens from then on (timers,
  deliveries, commands and every other action of the user) short of restarting a node, no running node
  is ever a leader again.\<close>

theorem simulator_can_lose_leader_for_good:
  "\<exists>(cl0 :: (nat, unit) Cluster) cl. cluster_new Debug members3 clock_new node_config_default = Inr cl0 \<and>
     simulate Debug demo_floats wedge_run cl0 = Some cl \<and> running cl 1 \<noteq> None \<and> running cl 2 \<noteq> None \<and>
     partitions (network cl) = {} \<and> drop_rate (net_config (network cl)) = 0 \<and>
     (\<forall>fl es cl' i n. simulate Debug fl es cl = Some cl' \<and> (\<forall>e \<in> set es. \<not> restarts e) \<and> running cl' i = Some n \<longrightarrow>
        role (raft n) \<noteq> Leader)"
  using wedge_run_wedged wedged_forever wedged_no_leader by metis

text \<open>The next campaign of node 2 fails as the first one did.\<close>

definition next_campaign :: "nat SimEvent list" where
  "next_campaign = [Fires 2 2, Turn 2 Timer (\<lambda>_. 0) (\<lambda>_. 0), Turn 1 Peer (\<lambda>_. 0) (\<lambda>_. 0), Turn 2 Peer (\<lambda>_. 0) (\<lambda>_. 0)]"

lemma next_campaign_result:
  "\<exists>(cl0 :: (nat, unit) Cluster) cl m n. cluster_new Debug members3 clock_new node_config_default = Inr cl0 \<and>
     simulate Debug demo_floats (wedge_run @ next_campaign) cl0 = Some cl \<and>
     running cl 1 = Some m \<and> cterm (raft m) = 3 \<and> running cl 2 = Some n \<and> cterm (raft n) = 3"
  by (simp add: start_simps wedge_run_def next_campaign_def cursor_on_def sim_simps runtime_simps run_simps
      user_simps)

theorem simulator_can_lose_leader_for_good_witness:
  "\<exists>(cl :: (nat, unit) Cluster) m n. running cl 1 = Some m \<and> cterm (raft m) = 3 \<and> role (raft m) \<noteq> Leader \<and>
     running cl 2 = Some n \<and> cterm (raft n) = 3 \<and> role (raft n) \<noteq> Leader"
proof -
  obtain cl0 cl :: "(nat, unit) Cluster" and m n where
    new: "cluster_new Debug members3 clock_new node_config_default = Inr cl0"
    and run: "simulate Debug demo_floats (wedge_run @ next_campaign) cl0 = Some cl"
    and n: "running cl 1 = Some m" "cterm (raft m) = 3" "running cl 2 = Some n" "cterm (raft n) = 3"
    using next_campaign_result by blast
  obtain cl1 where cl1: "simulate Debug demo_floats wedge_run cl0 = Some cl1"
    "simulate Debug demo_floats next_campaign cl1 = Some cl"
    using run by (auto simp: simulate_append split: option.splits)
  have quiet: "\<forall>e \<in> set next_campaign. \<not> restarts e" by (simp add: next_campaign_def)
  have "role (raft k) \<noteq> Leader" if "running cl i = Some k" for i k
    using simulator_can_lose_leader_for_good new cl1 quiet that by (metis option.inject sum.inject(2))
  with n show ?thesis by blast
qed

end
