(* ===== verification/SimTime.thy ===== *)
theory SimTime
  imports SimPanics
begin

text \<open>
  The simulator in simulated time. A timer task sleeps on the simulated clock, so it ends no sooner than
  the time it was started plus its duration. Here the runs of \<open>SimRun\<close> keep, as auxiliary state, the sleep
  of every pending timer task, and a task can end only when its sleep is ready. What the timers promise
  the nodes can then be stated: a node that hears from its leader does not campaign for a while.
\<close>

section \<open>Runs in time\<close>

text \<open>The sleeps of the timer tasks of all nodes. A reset starts its sleep in the turn it is part of.\<close>

type_synonym Alarms = "NodeId \<Rightarrow> nat \<Rightarrow> panic + u64"

definition no_alarms :: Alarms where
  "no_alarms = (\<lambda>_ _. Inl EmptyRange)"

definition pending_timer :: "('f, 'w) Cluster \<Rightarrow> NodeId \<Rightarrow> nat \<Rightarrow> TimerTask option" where
  "pending_timer cl i k = (case running cl i of None \<Rightarrow> None | Some n \<Rightarrow> live (tasks (timers n)) k)"

definition set_alarms :: "('f, 'w) Cluster \<Rightarrow> ('f, 'w) Cluster \<Rightarrow> Alarms \<Rightarrow> Alarms" where
  "set_alarms cl cl' al = (\<lambda>i k.
     case pending_timer cl' i k of
       None \<Rightarrow> al i k
     | Some task \<Rightarrow> if pending_timer cl i k = None then sleep Debug (sleeps task) (clock cl) else al i k)"

fun in_time :: "'f SimEvent \<Rightarrow> ('f, 'w) Cluster \<Rightarrow> Alarms \<Rightarrow> bool" where
  "in_time (Fires i k) cl al = (case al i k of Inl _ \<Rightarrow> False | Inr s \<Rightarrow> sleep_ready s (clock cl))"
| "in_time _ _ _ = True"

fun timed_simulate ::
    "'f::{zero,one,plus,minus,linorder} Floats \<Rightarrow> 'f SimEvent list \<Rightarrow> ('f, 'w) Cluster \<Rightarrow> Alarms \<Rightarrow>
     (('f, 'w) Cluster \<times> Alarms) option" where
  "timed_simulate fl [] cl al = Some (cl, al)"
| "timed_simulate fl (e # es) cl al =
     (if \<not> in_time e cl al then None
      else (case sim_event Debug fl e cl of
          Some (Inr cl') \<Rightarrow> timed_simulate fl es cl' (set_alarms cl cl' al)
        | _ \<Rightarrow> None))"

lemma set_alarms_apply: "set_alarms cl cl' al i k = (case pending_timer cl' i k of
     None \<Rightarrow> al i k
   | Some task \<Rightarrow> if pending_timer cl i k = None then sleep Debug (sleeps task) (clock cl) else al i k)"
  by (simp add: set_alarms_def)

lemma timed_simulate_Cons:
  "timed_simulate fl (e # es) cl al = Some x \<longleftrightarrow> (\<exists>cl'. in_time e cl al \<and> sim_event Debug fl e cl = Some (Inr cl') \<and>
     timed_simulate fl es cl' (set_alarms cl cl' al) = Some x)"
  by (auto split: option.splits sum.splits)

text \<open>Runs in time are runs: everything shown of the simulator holds of them.\<close>

lemma timed_simulate_run: "timed_simulate fl es cl al = Some (cl', al') \<Longrightarrow> simulate Debug fl es cl = Some cl'"
proof (induction es arbitrary: cl al)
  case (Cons e es)
  then obtain cl1 where "sim_event Debug fl e cl = Some (Inr cl1)" "simulate Debug fl es cl1 = Some cl'"
    unfolding timed_simulate_Cons by blast
  then show ?case by simp
qed simp

section \<open>Time goes forward\<close>

lemma sim_event_clock:
  assumes "sim_event Debug fl e cl = Some (Inr cl')"
  shows "(clock cl' = clock cl \<or> clock_step (clock cl) (clock cl')) \<and> node_config cl' = node_config cl"
proof (cases e)
  case (Begins i rg)
  with assms show ?thesis by (auto simp: begin_run_def put_node_def and_then_eq_Inr split: option.splits if_splits)
next
  case (Turn i src rg rnds)
  with assms obtain inp cl1 where "select_input i src cl = Some (inp, cl1)" "clock cl' = clock cl1"
    "node_config cl' = node_config cl1"
    by (auto simp: turn_def put_node_def and_then_eq_Inr split: option.splits if_splits)
  with select_input_numbers show ?thesis by metis
next
  case (Fires i k)
  with assms show ?thesis by (auto simp: timer_fires_def put_node_def split: option.splits)
next
  case Advances
  with assms show ?thesis
    by (auto simp: and_then_eq_Inr auto_advance_def split: if_splits intro: clock_step.ticks)
next
  case (User a app client)
  then obtain ctl w app' where act: "apply_action Debug fl client a app cl = Inr (ctl, w, app', cl')"
    using assms by (auto simp: and_then_eq_Inr)
  show ?thesis
  proof (cases a)
    case RestartNode
    with act show ?thesis by (auto simp: and_then_eq_Inr dest: restart_node_config split: option.splits)
  next
    case (SubmitCommand k v)
    with act show ?thesis by (auto dest: submit_config split: option.splits)
  qed (use act in \<open>auto simp: and_then_eq_Inr controls config_frames split: option.splits if_splits
      intro: clock_step.intros\<close>)
qed (use assms in auto)

lemma simulate_clock:
  "simulate Debug fl es cl = Some cl' \<Longrightarrow> rtranclp clock_step (clock cl) (clock cl')"
proof (induction es arbitrary: cl)
  case (Cons e es)
  then obtain cl1 where e: "sim_event Debug fl e cl = Some (Inr cl1)" "simulate Debug fl es cl1 = Some cl'"
    by (auto split: option.splits sum.splits)
  from sim_event_clock [OF e(1)] Cons.IH [OF e(2)] show ?case
    by (metis converse_rtranclp_into_rtranclp)
qed simp

section \<open>The timers of a turn\<close>

lemma timer_actions_timed:
  "config_ok c \<Longrightarrow> timed_by c t \<Longrightarrow> timer_actions rg as t = Inr t' \<Longrightarrow> timed_by c t'"
proof (induction as arbitrary: t)
  case (Cons a as)
  then obtain t1 where t1: "timer_action rg a t = Inr t1" "timer_actions rg as t1 = Inr t'"
    by (auto simp: and_then_eq_Inr)
  have "timed_by c t1"
    using t1(1) timed_by_election_reset [OF Cons.prems(1,2), of rg] timed_by_heartbeat_reset [OF Cons.prems(1,2)] Cons.prems(2)
    by (cases a) auto
  with Cons.IH [OF Cons.prems(1)] t1(2) show ?case by blast
qed simp

lemma timers_fresh: "timers_ok t \<Longrightarrow> spawned (tasks t) \<le> k \<Longrightarrow> live (tasks t) k = None"
proof (rule ccontr)
  assume ok: "timers_ok t" "spawned (tasks t) \<le> k" "live (tasks t) k \<noteq> None"
  then obtain task where "live (tasks t) k = Some task" by blast
  with ok(1) have "k < spawned (tasks t)" by (cases "fires task") (auto simp: timers_ok_def)
  with ok(2) show False by simp
qed

text \<open>A task of the timers was there before or is new, and the queue of events stays.\<close>

lemma timer_actions_tasks:
  "timer_actions rg as t = Inr t' \<Longrightarrow> timer_queue t' = timer_queue t \<and>
     (\<forall>k task. live (tasks t') k = Some task \<longrightarrow> live (tasks t) k = Some task \<or> spawned (tasks t) \<le> k)"
proof (induction as arbitrary: t)
  case (Cons a as)
  then obtain t1 where t1: "timer_action rg a t = Inr t1" "timer_actions rg as t1 = Inr t'"
    by (auto simp: and_then_eq_Inr)
  have "timer_queue t1 = timer_queue t \<and> spawned (tasks t) \<le> spawned (tasks t1) \<and>
      (\<forall>k task. live (tasks t1) k = Some task \<longrightarrow> live (tasks t) k = Some task \<or> spawned (tasks t) \<le> k)"
    using t1(1) by (cases a) (auto dest!: election_reset_effect split: if_splits)
  with Cons.IH [OF t1(2)] show ?case by fastforce
qed simp

section \<open>Only an election timeout makes a candidate\<close>

lemma candidate_by_timeout:
  assumes "raft_step Debug r ev = Inr (r', as)" "ev \<noteq> ElectionTimeout" "role r \<noteq> Candidate"
  shows "role r' \<noteq> Candidate"
proof (cases ev rule: raft_event_cases)
  case (RV m)
  with assms(1,3) show ?thesis
    by (auto simp: handle_request_vote_def Let_def split: if_splits)
next
  case (RVR m)
  with assms(1,3) show ?thesis by (auto simp: handle_vote_response_def split: if_splits)
next
  case (AE m)
  with assms(1) append_entries_frame [of r m r' as] assms(3) show ?thesis by auto
next
  case (AER m)
  with assms(1,3) append_entries_response_frame [of Debug r m r' as] show ?thesis by (auto split: if_splits)
next
  case HeartbeatT
  with assms(1,3) heartbeat_actions(1) [of r r' as] show ?thesis by auto
next
  case (Client c)
  with assms(1,3) client_request_frame [of Debug r c r' as] show ?thesis by (auto split: if_splits)
qed (use assms(2) in simp)

section \<open>A quiet node\<close>

text \<open>Before time \<open>T\<close>, in microseconds, the node does not campaign: no election timeout waits in its queue, and
  the tasks of its election timer sleep at least until then.\<close>

definition alarms_after :: "nat \<Rightarrow> NodeId \<Rightarrow> Timers \<Rightarrow> Alarms \<Rightarrow> bool" where
  "alarms_after T i t al \<longleftrightarrow> TimerElection \<notin> set (timer_queue t) \<and>
     (\<forall>k task s. live (tasks t) k = Some task \<longrightarrow> fires task = TimerElection \<longrightarrow> al i k = Inr s \<longrightarrow> T \<le> unat s)"

definition quiet :: "nat \<Rightarrow> NodeId \<Rightarrow> ('f, 'w) Cluster \<Rightarrow> Alarms \<Rightarrow> bool" where
  "quiet T i cl al \<longleftrightarrow> (\<forall>n. running cl i = Some n \<longrightarrow>
     role (raft n) \<noteq> Candidate \<and> alarms_after T i (timers n) al)"

lemma quiet_frame:
  assumes "quiet T i cl al" "running cl' i = running cl i"
  shows "quiet T i cl' (set_alarms cl cl' al)"
  using assms by (auto simp: quiet_def alarms_after_def set_alarms_def pending_timer_def)

text \<open>The sleep of a new task of the election timer lasts at least the configured minimum.\<close>

lemma election_sleep:
  assumes "timed_by c t" "live (tasks t) k = Some task" "fires task = TimerElection"
    "sleep Debug (sleeps task) clk = Inr s"
  shows "unat (now_us clk) + 1000 * as_millis_u64 (election_timeout_min c) \<le> unat s"
proof -
  have b: "from_millis (as_millis_u64 (election_timeout_min c)) \<le> sleeps task" "sleeps task \<le> from_millis (2 ^ 50)"
    using assms(1-3) by (auto simp: timed_by_def)
  have "micros (sleeps task) \<le> micros (from_millis (2 ^ 50))" using b(2) unfolding micros_def by (rule div_le_mono)
  then have fits: "micros (sleeps task) < 2 ^ 64" by (simp add: micros_def from_millis_def)
  have "micros (from_millis (as_millis_u64 (election_timeout_min c))) \<le> micros (sleeps task)"
    using b(1) unfolding micros_def by (rule div_le_mono)
  then have "1000 * as_millis_u64 (election_timeout_min c) \<le> micros (sleeps task)"
    by (simp add: micros_def from_millis_def)
  with sleep_deadline [OF assms(4) fits] show ?thesis by simp
qed

text \<open>The timers after some actions of node \<open>i\<close>, when they were quiet before.\<close>

lemma alarms_after_actions:
  assumes "config_ok c" "timed_by c (timers n)" "alarms_after T i (timers n) al"
    "running cl i = Some n" "running cl' i = Some n'"
    "timers_left (timers n) t" "timer_actions rg as t = Inr (timers n')"
    "T \<le> unat (now_us (clock cl)) + 1000 * as_millis_u64 (election_timeout_min c)"
  shows "alarms_after T i (timers n') (set_alarms cl cl' al)"
  unfolding alarms_after_def
proof (intro conjI allI impI)
  have same: "tasks t = tasks (timers n)" "set (timer_queue t) \<subseteq> set (timer_queue (timers n))"
    using assms(6) by (auto simp: timers_left_def)
  note tasks = timer_actions_tasks [OF assms(7)]
  have t: "timed_by c t" by (rule timed_by_left [OF assms(2,6)])
  note t' = timer_actions_timed [OF assms(1) t assms(7)]
  show "TimerElection \<notin> set (timer_queue (timers n'))"
    using tasks same(2) assms(3) by (auto simp: alarms_after_def)
  fix k task s
  assume k: "live (tasks (timers n')) k = Some task" "fires task = TimerElection" "set_alarms cl cl' al i k = Inr s"
  show "T \<le> unat s"
  proof (cases "live (tasks (timers n)) k")
    case None
    with k assms(4,5) have "sleep Debug (sleeps task) (clock cl) = Inr s"
      by (simp add: set_alarms_def pending_timer_def)
    from election_sleep [OF t' k(1,2) this] assms(8) show ?thesis by simp
  next
    case (Some old)
    then have "k < spawned (tasks t)"
      using timers_fresh [of "timers n" k] assms(2) same(1) by (force simp: timed_by_def)
    then have "live (tasks (timers n)) k = Some task" using tasks k(1) same(1) by (metis leD)
    moreover have "al i k = Inr s" using Some k(1,3) assms(4,5) by (simp add: set_alarms_def pending_timer_def)
    ultimately show ?thesis using assms(3) k(2) by (simp add: alarms_after_def)
  qed
qed

section \<open>The node stays quiet\<close>

text \<open>A restarted node is quiet: it has not begun.\<close>

lemma user_running:
  assumes "apply_action p fl client a app cl = Inr (ctl, woken, app', cl')" "running cl' i = Some n"
  shows "running cl i = Some n \<or> (role (raft n) = Follower \<and> timer_queue (timers n) = [] \<and>
    (\<forall>k. live (tasks (timers n)) k = None))"
proof (cases "a = RestartNode")
  case False
  with apply_action_running [OF assms(1) _ assms(2)] show ?thesis by blast
next
  case True
  then have "cl' = cl \<or> (\<exists>j. restart_node p j cl = Inr cl')"
    using assms(1) by (auto simp: and_then_eq_Inr split: option.splits)
  then consider "cl' = cl" | j h cl1 where "start_node p j (others (node_ids cl) j) cl = Inr (h, cl1)"
    "cl' = cl1\<lparr>handles := (handles cl1)(j := Some h)\<rparr>"
    by (auto simp: restart_node_def and_then_eq_Inr split: if_splits)
  then show ?thesis
  proof cases
    case (2 j h cl1)
    have h: "\<exists>m. h_task h = Some m \<and> role (raft m) = Follower \<and> timers m = timers_new (node_config cl)"
      using 2(1) by (auto simp: start_node_def mpsc_channel_def node_new_def and_then_eq_Inr Let_def raft_init_def
          dest!: raft_new_Inr split: if_splits)
    have "handles cl1 = handles cl" using start_node_effect [OF 2(1)] by blast
    with 2(2) h assms(2) show ?thesis by (auto simp: running_def timers_new_def split: if_splits)
  qed (use assms(2) in simp)
qed

lemma quiet_turn:
  assumes "sim_rel members s cl" "numbers_ok k cl" "quiet T i cl al"
    "T \<le> unat (now_us (clock cl)) + 1000 * as_millis_u64 (election_timeout_min (node_config cl))"
    "turn Debug rg rnds j src cl = Some (Inr cl')"
  shows "quiet T i cl' (set_alarms cl cl' al)"
proof -
  obtain ev as s' n n' t where st: "node_step members s j ev (nodes s' j) as" "sim_rel members s' cl'"
    and n: "running cl j = Some n" "raft n = nodes s j" "running cl' = (running cl)(j := Some n')"
      "ev = ElectionTimeout \<longrightarrow> TimerElection \<in> set (timer_queue (timers n))"
      "timers_left (timers n) t" "timer_actions rg as t = Inr (timers n')"
    using turn_step [OF assms(1,5)] unfolding turn_steps_def by blast
  show ?thesis
  proof (cases "j = i")
    case False
    with n(3) show ?thesis by (intro quiet_frame [OF assms(3)]) simp
  next
    case True
    have q: "role (raft n) \<noteq> Candidate" "alarms_after T i (timers n) al"
      using assms(3) n(1) True by (auto simp: quiet_def)
    have "ev \<noteq> ElectionTimeout" using n(4) q(2) by (auto simp: alarms_after_def)
    moreover have "raft n' = nodes s' j" using st(2) n(3) by (simp add: sim_rel_def)
    ultimately have "role (raft n') \<noteq> Candidate"
      using candidate_by_timeout [of "raft n" ev "raft n'" as] st(1) n(2) q(1) by (simp add: node_step_def)
    moreover have "alarms_after T i (timers n') (set_alarms cl cl' al)"
      using assms(2,4) n True by (intro alarms_after_actions [OF _ _ q(2)]) (auto simp: numbers_ok_def)
    ultimately show ?thesis using n(3) True by (simp add: quiet_def)
  qed
qed

lemma quiet_begins:
  assumes "numbers_ok k cl" "quiet T i cl al"
    "T \<le> unat (now_us (clock cl)) + 1000 * as_millis_u64 (election_timeout_min (node_config cl))"
    "begin_run rg j cl = Some (Inr cl')"
  shows "quiet T i cl' (set_alarms cl cl' al)"
proof -
  obtain n m where n: "running cl j = Some n" "node_start (sim_env rg (\<lambda>_. 0 :: 'a)) (attach (network cl) (now_us (clock cl)) n) = Inr m"
    and cl': "cl' = put_node j (detach m) cl"
    using assms(4) by (auto simp: begin_run_def and_then_eq_Inr split: option.splits if_splits)
  let ?n = "detach m"
  have m: "raft ?n = raft n" "timer_actions rg [ResetElectionTimer] (timers n) = Inr (timers ?n)"
    using n(2) by (auto simp: node_start_def attach_def detach_def sim_env_def and_then_eq_Inr)
  have run: "running cl' = (running cl)(j := Some ?n)" using cl' running_handle [OF n(1)] by auto
  show ?thesis
  proof (cases "j = i")
    case False
    with run show ?thesis by (intro quiet_frame [OF assms(2)]) simp
  next
    case True
    have q: "role (raft n) \<noteq> Candidate" "alarms_after T i (timers n) al"
      using assms(2) n(1) True by (auto simp: quiet_def)
    have "alarms_after T i (timers ?n) (set_alarms cl cl' al)"
      using assms(1,3) n(1) run True
      by (intro alarms_after_actions [OF _ _ q(2) _ _ timers_left_refl m(2)]) (auto simp: numbers_ok_def)
    with q(1) m(1) run True show ?thesis by (simp add: quiet_def)
  qed
qed

lemma quiet_fires:
  assumes "quiet T i cl al" "in_time (Fires j k) cl al" "unat (now_us (clock cl)) < T"
    "timer_fires j k cl = Some cl'"
  shows "quiet T i cl' (set_alarms cl cl' al)"
proof -
  obtain n t where n: "running cl j = Some n" "fire k (timers n) = Some t" and cl': "cl' = put_node j (n\<lparr>timers := t\<rparr>) cl"
    using assms(4) by (auto simp: timer_fires_def split: option.splits)
  have run: "running cl' = (running cl)(j := Some (n\<lparr>timers := t\<rparr>))" using cl' running_handle [OF n(1)] by auto
  show ?thesis
  proof (cases "j = i")
    case False
    with run show ?thesis by (intro quiet_frame [OF assms(1)]) simp
  next
    case True
    have q: "role (raft n) \<noteq> Candidate" "alarms_after T i (timers n) al"
      using assms(1) n(1) True by (auto simp: quiet_def)
    obtain task where task: "live (tasks (timers n)) k = Some task" "timer_queue t = timer_queue (timers n) @ [fires task]"
      "live (tasks t) = (live (tasks (timers n)))(k := None)"
      using n(2) by (auto simp: fire_def split: option.splits if_splits)
    obtain s where s: "al i k = Inr s" "s \<le> now_us (clock cl)"
      using assms(2) True by (auto simp: sleep_ready_def split: sum.splits)
    then have "unat s < T" using assms(3) by (simp add: word_le_nat_alt)
    then have "fires task \<noteq> TimerElection" using q(2) task(1) s(1) by (fastforce simp: alarms_after_def)
    then have "fires task = TimerHeartbeat" by (cases "fires task") simp_all
    with q(2) task n(1) run True have "alarms_after T i t (set_alarms cl cl' al)"
      by (auto simp: alarms_after_def set_alarms_def pending_timer_def split: if_splits)
    with q(1) run True show ?thesis by (simp add: quiet_def)
  qed
qed

lemma quiet_event:
  assumes "sim_rel members s cl" "numbers_ok k cl" "quiet T i cl al"
    "T \<le> unat (now_us (clock cl)) + 1000 * as_millis_u64 (election_timeout_min (node_config cl))"
    "unat (now_us (clock cl)) < T" "in_time e cl al" "sim_event Debug fl e cl = Some (Inr cl')"
  shows "quiet T i cl' (set_alarms cl cl' al)"
proof (cases e)
  case (Begins j rg)
  with quiet_begins [OF assms(2-4)] assms(7) show ?thesis by auto
next
  case (Turn j src rg rnds)
  with quiet_turn [OF assms(1-4)] assms(7) show ?thesis by auto
next
  case (Fires j k)
  then show ?thesis using quiet_fires [OF assms(3) _ assms(5)] assms(6,7) by auto
next
  case (Lands j)
  with assms(7) show ?thesis by (intro quiet_frame [OF assms(3)]) auto
next
  case Advances
  with assms(7) show ?thesis by (intro quiet_frame [OF assms(3)]) (auto simp: and_then_eq_Inr)
next
  case (User a app client)
  then obtain ctl w app' where act: "apply_action Debug fl client a app cl = Inr (ctl, w, app', cl')"
    using assms(7) by (auto simp: and_then_eq_Inr)
  show ?thesis unfolding quiet_def
  proof (intro allI impI)
    fix n assume n: "running cl' i = Some n"
    from user_running [OF act n] show "role (raft n) \<noteq> Candidate \<and> alarms_after T i (timers n) (set_alarms cl cl' al)"
    proof (elim disjE)
      assume "running cl i = Some n"
      with assms(3) n show ?thesis
        by (auto simp: quiet_def alarms_after_def set_alarms_def pending_timer_def)
    qed (auto simp: alarms_after_def)
  qed
qed

section \<open>Runs\<close>

lemma simulate_now: "simulate Debug fl es cl = Some cl' \<Longrightarrow> unat (now_us (clock cl)) \<le> unat (now_us (clock cl'))"
  by (rule sim_clock.forward_star [OF simulate_clock])

lemma quiet_run:
  assumes "cluster_ok members" "timed_simulate fl es cl al = Some (cl', al')" "sim_inv members k cl"
    "k + length es \<le> 2 ^ 48" "quiet T i cl al"
    "T \<le> unat (now_us (clock cl)) + 1000 * as_millis_u64 (election_timeout_min (node_config cl))"
    "unat (now_us (clock cl')) < T"
  shows "quiet T i cl' al'"
  using assms(2-6)
proof (induction es arbitrary: cl al k)
  case (Cons e es)
  then obtain cl1 where e: "in_time e cl al" "sim_event Debug fl e cl = Some (Inr cl1)"
    "timed_simulate fl es cl1 (set_alarms cl cl1 al) = Some (cl', al')"
    unfolding timed_simulate_Cons by blast
  obtain s where s: "sim_rel members s cl" "numbers_ok k cl" using Cons.prems(2) by (auto simp: sim_inv_def)
  have one: "simulate Debug fl [e] cl = Some cl1" using e(2) by simp
  have fwd: "unat (now_us (clock cl)) \<le> unat (now_us (clock cl1))" "unat (now_us (clock cl1)) < T"
    using simulate_now [OF one] simulate_now [OF timed_simulate_run [OF e(3)]] assms(7) by simp_all
  then have now: "unat (now_us (clock cl)) < T" by simp
  have k: "k < 2 ^ 48" "Suc k + length es \<le> 2 ^ 48" using Cons.prems(3) by simp_all
  show ?case
  proof (rule Cons.IH [OF e(3) sim_inv_event [OF assms(1) Cons.prems(2) k(1) e(2)] k(2)])
    show "quiet T i cl1 (set_alarms cl cl1 al)" by (rule quiet_event [OF s Cons.prems(4,5) now e(1,2)])
    show "T \<le> unat (now_us (clock cl1)) + 1000 * as_millis_u64 (election_timeout_min (node_config cl1))"
      using Cons.prems(5) fwd(1) sim_event_clock [OF e(2)] by simp
  qed
qed simp

lemma apply_loop_applies: "a \<in> set (snd (apply_loop es commit applied)) \<Longrightarrow> \<exists>c. a = ApplyCommand c"
proof (induction applied rule: apply_loop_induct [of commit])
  case (more applied)
  then show ?case by (auto simp: apply_loop_step split: option.splits)
next
  case (stop applied)
  then show ?case by (simp add: apply_loop_done)
qed

text \<open>After accepting an \<open>AppendEntries\<close> a node is no candidate, and it reset its election timer exactly once.\<close>

lemma accepted_actions:
  assumes "acceptable r m" "handle_append_entries r m = (r', as)"
  shows "role r' \<noteq> Candidate"
    and "\<exists>bs. as = PersistState # ResetElectionTimer # bs \<and> \<not> resets bs"
proof -
  obtain q bs where ap: "apply_committed_entries (ae_accepted r m) = (q, bs)" by fastforce
  with append_entries_accept [OF assms(1)] assms(2) have
    as: "r' = q" "as = PersistState # ResetElectionTimer # append_entries_response q (leader_id m) True # bs" by auto
  have "\<not> resets (append_entries_response q (leader_id m) True # bs)"
    using ap by (auto simp: resets_def append_entries_response_def apply_committed_entries_def case_prod_beta
        dest: apply_loop_applies)
  with as(2) show "\<exists>bs. as = PersistState # ResetElectionTimer # bs \<and> \<not> resets bs" by blast
  from append_entries_frame [OF assms(2)] assms(1) show "role r' \<noteq> Candidate"
    by (cases "ae_term m" "cterm r" rule: linorder_cases) (auto simp: acceptable_def split: if_splits)
qed

text \<open>Accepting an \<open>AppendEntries\<close> makes the node quiet: the one task of its election timer is new.\<close>

lemma accepted_quiet:
  assumes "sim_rel members s cl" "numbers_ok k cl" "running cl i = Some n"
    "select_input i Peer cl = Some (FromPeer f (MAppendEntries m), cl1)" "acceptable (raft n) m"
    "TimerElection \<notin> set (timer_queue (timers n))"
    "turn Debug rg rnds i Peer cl = Some (Inr cl')"
  shows "quiet (unat (now_us (clock cl)) + 1000 * as_millis_u64 (election_timeout_min (node_config cl))) i cl'
    (set_alarms cl cl' al)"
proof -
  obtain ev as s' n0 n' t where st: "node_step members s i ev (nodes s' i) as" "sim_rel members s' cl'"
    and n0: "running cl i = Some n0" "raft n0 = nodes s i" "running cl' = (running cl)(i := Some n')"
      "\<forall>m. ev = EvMessage m \<longleftrightarrow> (\<exists>f cl1. select_input i Peer cl = Some (FromPeer f m, cl1))"
      "timers_left (timers n0) t" "timer_actions rg as t = Inr (timers n')"
    using turn_step [OF assms(1,7)] unfolding turn_steps_def by blast
  have n: "n0 = n" using n0(1) assms(3) by simp
  have ev: "ev = EvMessage (MAppendEntries m)" using n0(4) assms(4) by blast
  have h: "handle_append_entries (raft n) m = (nodes s' i, as)" using st(1) ev n0(2) n by (simp add: node_step_def)
  have "raft n' = nodes s' i" using st(2) n0(3) by (simp add: sim_rel_def)
  with accepted_actions(1) [OF assms(5) h] have role: "role (raft n') \<noteq> Candidate" by simp
  obtain bs t1 where t1: "\<not> resets bs" "election_reset rg t = Inr t1" "timer_actions rg bs t1 = Inr (timers n')"
    using accepted_actions(2) [OF assms(5) h] n0(6) by (auto simp: and_then_eq_Inr)
  with timer_actions_quiet [OF t1(3,1)] have t': "election_reset rg t = Inr (timers n')" by simp
  have cfg: "config_ok (node_config cl)" "timed_by (node_config cl) (timers n)"
    using assms(2,3) by (auto simp: numbers_ok_def)
  have t: "tasks t = tasks (timers n)" "set (timer_queue t) \<subseteq> set (timer_queue (timers n))"
    using n0(5) n by (auto simp: timers_left_def)
  have new: "timed_by (node_config cl) (timers n')"
    using timer_actions_timed [OF cfg(1) timed_by_left [OF cfg(2)] n0(6)] n0(5) n by simp
  have "alarms_after (unat (now_us (clock cl)) + 1000 * as_millis_u64 (election_timeout_min (node_config cl)))
      i (timers n') (set_alarms cl cl' al)"
    unfolding alarms_after_def
  proof (intro conjI allI impI)
    show "TimerElection \<notin> set (timer_queue (timers n'))"
      using timer_actions_tasks [OF n0(6)] t(2) assms(6) by auto
    fix k task a
    assume k: "live (tasks (timers n')) k = Some task" "fires task = TimerElection" "set_alarms cl cl' al i k = Inr a"
    have "k = spawned (tasks (timers n))"
      using election_reset_effect [OF t'] new k(1,2) t(1) by (auto simp: timed_by_def timers_ok_def)
    moreover have "live (tasks (timers n)) (spawned (tasks (timers n))) = None"
      using timers_fresh cfg(2) by (simp add: timed_by_def)
    ultimately have "sleep Debug (sleeps task) (clock cl) = Inr a"
      using k n0(3) assms(3) by (simp add: set_alarms_def pending_timer_def)
    from election_sleep [OF new k(1,2) this]
    show "unat (now_us (clock cl)) + 1000 * as_millis_u64 (election_timeout_min (node_config cl)) \<le> unat a" .
  qed
  with role n0(3) show ?thesis by (simp add: quiet_def)
qed

section \<open>The promise of the election timer\<close>

lemma start_nodes_config: "start_nodes p is cl = Inr cl' \<Longrightarrow> node_config cl' = node_config cl"
proof (induction "is" arbitrary: cl)
  case (Cons i "is")
  then obtain h cl1 where "start_node p i (others (node_ids cl) i) cl = Inr (h, cl1)"
    "start_nodes p is (cl1\<lparr>handles := (handles cl1)(i := Some h)\<rparr>) = Inr cl'"
    by (auto simp: and_then_eq_Inr)
  with Cons.IH show ?case
    by (auto simp: start_node_def mpsc_channel_def and_then_eq_Inr register_def Let_def split: if_splits)
qed simp

lemma cluster_new_config: "cluster_new p ids c config = Inr cl \<Longrightarrow> node_config cl = config"
  by (auto simp: cluster_new_def dest: start_nodes_config)

lemma simulate_config: "simulate Debug fl es cl = Some cl' \<Longrightarrow> node_config cl' = node_config cl"
proof (induction es arbitrary: cl)
  case (Cons e es)
  then obtain cl1 where e: "sim_event Debug fl e cl = Some (Inr cl1)" "simulate Debug fl es cl1 = Some cl'"
    by (auto split: option.splits sum.splits)
  with sim_event_clock [OF e(1)] Cons.IH [OF e(2)] show ?case by simp
qed simp

text \<open>C27: in simulated time a leader that is heard is left in peace. When a node of a running cluster takes an
  \<open>AppendEntries\<close> it accepts from its queue, and no election timeout waits already, then whatever the cluster,
  the network, the clock and the user do from there, the node does not campaign before the configured
  minimum of the election timeout has passed on the simulated clock.\<close>

theorem heartbeat_suppresses_election:
  assumes "cluster_ok members" "config_ok config" "cluster_new Debug members clock_new config = Inr cl0"
    and "timed_simulate fl es cl0 no_alarms = Some (cl, al)"
    and "running cl i = Some n" "select_input i Peer cl = Some (FromPeer f (MAppendEntries m), cl1)"
      "acceptable (raft n) m" "TimerElection \<notin> set (timer_queue (timers n))"
    and "timed_simulate fl (Turn i Peer rg rnds # es') cl al = Some (cl', al')"
      "length es + length es' < 2 ^ 48 - 1"
    and "unat (now_us (clock cl')) < unat (now_us (clock cl)) + 1000 * as_millis_u64 (election_timeout_min config)"
      "running cl' i = Some n'"
  shows "role (raft n') \<noteq> Candidate"
proof -
  note run = timed_simulate_run [OF assms(4)]
  have k: "0 + length es \<le> 2 ^ 48" "length es < 2 ^ 48" "Suc (length es) + length es' \<le> 2 ^ 48"
    using assms(10) by simp_all
  have cfg: "node_config cl = config" using simulate_config [OF run] cluster_new_config [OF assms(3)] by simp
  have inv: "sim_inv members (length es) cl"
    using sim_inv_simulate [OF assms(1) run sim_inv_new [OF assms(1-3)] k(1)] by simp
  then obtain s where s: "sim_rel members s cl" "numbers_ok (length es) cl" by (auto simp: sim_inv_def)
  obtain cl2 where turn: "turn Debug rg rnds i Peer cl = Some (Inr cl2)"
    and rest: "timed_simulate fl es' cl2 (set_alarms cl cl2 al) = Some (cl', al')"
    using assms(9) unfolding timed_simulate_Cons by auto
  then have e: "sim_event Debug fl (Turn i Peer rg rnds) cl = Some (Inr cl2)" by simp
  let ?T = "unat (now_us (clock cl)) + 1000 * as_millis_u64 (election_timeout_min (node_config cl))"
  have "quiet ?T i cl' al'"
  proof (rule quiet_run [OF assms(1) rest sim_inv_event [OF assms(1) inv k(2) e] k(3)])
    show "quiet ?T i cl2 (set_alarms cl cl2 al)" by (rule accepted_quiet [OF s assms(5-8) turn])
    have "simulate Debug fl [Turn i Peer rg rnds] cl = Some cl2" using e by simp
    from simulate_now [OF this] show "?T \<le> unat (now_us (clock cl2)) +
        1000 * as_millis_u64 (election_timeout_min (node_config cl2))"
      using sim_event_clock [OF e] by simp
    show "unat (now_us (clock cl')) < ?T" using assms(11) cfg by simp
  qed
  with assms(12) show ?thesis by (simp add: quiet_def)
qed

text \<open>Time that passes with no sleep registered only moves the clock.\<close>

lemma timed_advances:
  assumes "\<not> paused (clock cl)" "wakers (clock cl) = []" "unat (now_us (clock cl)) + k * unat (step_us (clock cl)) < 2 ^ 64"
  shows "timed_simulate fl (replicate k Advances @ es) cl al =
    timed_simulate fl es (cl\<lparr>clock := (clock cl)\<lparr>now_us := now_us (clock cl) + of_nat k * step_us (clock cl)\<rparr>\<rparr>) al"
  using assms
proof (induction k arbitrary: cl)
  case (Suc k)
  let ?cl = "cl\<lparr>clock := (clock cl)\<lparr>now_us := now_us (clock cl) + step_us (clock cl)\<rparr>\<rparr>"
  have fits: "unat (now_us (clock cl)) + unat (step_us (clock cl)) < 2 ^ 64" using Suc.prems(3) by simp
  then have now: "unat (now_us (clock cl) + step_us (clock cl)) = unat (now_us (clock cl)) + unat (step_us (clock cl))"
    by (simp add: unat_add_no_overflow)
  have "sim_event Debug fl Advances cl = Some (Inr ?cl)"
    using Suc.prems(1,2) add_u64_fits [OF fits] by (simp add: auto_advance_def tick_def wake_due.simps)
  moreover have "set_alarms cl ?cl al = al" by (simp add: set_alarms_def pending_timer_def fun_eq_iff split: option.split)
  ultimately have "timed_simulate fl (replicate (Suc k) Advances @ es) cl al = timed_simulate fl (replicate k Advances @ es) ?cl al"
    by simp
  also have "\<dots> = timed_simulate fl es (?cl\<lparr>clock := (clock ?cl)\<lparr>now_us := now_us (clock ?cl) + of_nat k * step_us (clock ?cl)\<rparr>\<rparr>) al"
    using Suc.prems now by (intro Suc.IH) simp_all
  finally show ?case by (simp add: algebra_simps)
qed simp

text \<open>Node 1 is elected, fifty milliseconds later its heartbeat reaches node 2, and time goes on.\<close>

lemmas timed_run_simps = start_simps sim_simps runtime_simps run_simps acceptable_def no_alarms_def
  timed_advances timed_advances [where es = "[]", simplified] DEFAULT_STEP_MS_def set_alarms_apply
  pending_timer_def in_time.simps sleep_def sleep_ready_def micros_def

definition first_heartbeat :: "nat SimEvent list" where
  "first_heartbeat = [Begins 1 (\<lambda>_. 0), Begins 2 (\<lambda>_. 1)] @ replicate 15 Advances @
     [Fires 1 0, Turn 1 Timer (\<lambda>_. 0) (\<lambda>_. 0), Turn 2 Peer (\<lambda>_. 0) (\<lambda>_. 0), Turn 1 Peer (\<lambda>_. 0) (\<lambda>_. 0)] @
     replicate 5 Advances @ [Fires 1 2, Turn 1 Timer (\<lambda>_. 0) (\<lambda>_. 0)]"

lemma first_heartbeat_run:
  "\<exists>(cl0 :: (nat, unit) Cluster) cl al n f m cl1 cl' al' n'.
     cluster_new Debug members3 clock_new node_config_default = Inr cl0 \<and>
     timed_simulate demo_floats first_heartbeat cl0 no_alarms = Some (cl, al) \<and> running cl 2 = Some n \<and>
     select_input 2 Peer cl = Some (FromPeer f (MAppendEntries m), cl1) \<and> acceptable (raft n) m \<and>
     timer_queue (timers n) = [] \<and>
     timed_simulate demo_floats (Turn 2 Peer (\<lambda>_. 0) (\<lambda>_. 0) # replicate 14 Advances) cl al = Some (cl', al') \<and>
     unat (now_us (clock cl)) = 200000 \<and> unat (now_us (clock cl')) = 340000 \<and> running cl' 2 = Some n'"
  by (simp add: timed_run_simps first_heartbeat_def)

theorem heartbeat_suppresses_election_witness:
  "\<exists>(cl :: (nat, unit) Cluster) n. unat (now_us (clock cl)) = 340000 \<and> running cl 2 = Some n \<and>
     role (raft n) \<noteq> Candidate"
proof -
  obtain cl0 cl cl1 cl' :: "(nat, unit) Cluster" and al n f m al' n' where
    new: "cluster_new Debug members3 clock_new node_config_default = Inr cl0"
    and r1: "timed_simulate demo_floats first_heartbeat cl0 no_alarms = Some (cl, al)"
    and n: "running cl 2 = Some n" "select_input 2 Peer cl = Some (FromPeer f (MAppendEntries m), cl1)"
      "acceptable (raft n) m" "timer_queue (timers n) = []"
    and r2: "timed_simulate demo_floats (Turn 2 Peer (\<lambda>_. 0) (\<lambda>_. 0) # replicate 14 Advances) cl al = Some (cl', al')"
    and t: "unat (now_us (clock cl)) = 200000" "unat (now_us (clock cl')) = 340000" "running cl' 2 = Some n'"
    using first_heartbeat_run by blast
  have q: "TimerElection \<notin> set (timer_queue (timers n))" using n(4) by simp
  have l: "length first_heartbeat + length (replicate 14 (Advances :: nat SimEvent)) < 2 ^ 48 - 1"
    by (simp add: first_heartbeat_def)
  have before: "unat (now_us (clock cl')) < unat (now_us (clock cl)) +
      1000 * as_millis_u64 (election_timeout_min node_config_default)"
    using t by (simp add: node_config_default_def as_millis_u64_def from_millis_def)
  from heartbeat_suppresses_election [OF members3_ok config_ok_default new r1 n(1-3) q r2 l before t(3)]
  have "role (raft n') \<noteq> Candidate" .
  with t(2,3) show ?thesis by blast
qed

text \<open>The condition on the queue is needed. When the timer of node 2 has ended before the heartbeat is handled,
  its timeout waits in the queue; resetting the timer does not take it out, and node 2 campaigns in the
  very microsecond in which it accepted the heartbeat.\<close>

definition late_heartbeat :: "nat SimEvent list" where
  "late_heartbeat = [Begins 1 (\<lambda>_. 0), Begins 2 (\<lambda>_. 1)] @ replicate 15 Advances @
     [Fires 1 0, Turn 1 Timer (\<lambda>_. 0) (\<lambda>_. 0), Turn 2 Peer (\<lambda>_. 0) (\<lambda>_. 0), Turn 1 Peer (\<lambda>_. 0) (\<lambda>_. 0)] @
     replicate 15 Advances @ [Fires 1 2, Turn 1 Timer (\<lambda>_. 0) (\<lambda>_. 0), Fires 2 1]"

lemma queued_timeout_survives_reset:
  "\<exists>(cl0 :: (nat, unit) Cluster) cl al n f m cl1 cl' al' n'.
     cluster_new Debug members3 clock_new node_config_default = Inr cl0 \<and>
     timed_simulate demo_floats late_heartbeat cl0 no_alarms = Some (cl, al) \<and> running cl 2 = Some n \<and>
     select_input 2 Peer cl = Some (FromPeer f (MAppendEntries m), cl1) \<and> acceptable (raft n) m \<and>
     timed_simulate demo_floats [Turn 2 Peer (\<lambda>_. 0) (\<lambda>_. 0), Turn 2 Timer (\<lambda>_. 0) (\<lambda>_. 0)] cl al = Some (cl', al') \<and>
     clock cl' = clock cl \<and> running cl' 2 = Some n' \<and> role (raft n') = Candidate \<and> cterm (raft n') = 2"
  by (simp add: timed_run_simps late_heartbeat_def)

end
