(* ===== verification/SimAlarms.thy ===== *)
theory SimAlarms
  imports SimTime
begin

text \<open>
  The other half of what the timers promise: a node does not wait for ever. The sleep of every pending
  timer task ends at most its duration from now, so a node whose election timer runs, and that hears
  nothing, campaigns within the configured maximum of the election timeout.
\<close>

section \<open>Every pending task has its alarm\<close>

definition alarms_known :: "('f, 'w) Cluster \<Rightarrow> Alarms \<Rightarrow> bool" where
  "alarms_known cl al \<longleftrightarrow> (\<forall>i k task. pending_timer cl i k = Some task \<longrightarrow>
     (\<exists>s. al i k = Inr s \<and> unat s \<le> unat (now_us (clock cl)) + micros (sleeps task)))"

lemma pending_timer_running:
  "pending_timer cl i k = Some task \<longleftrightarrow> (\<exists>n. running cl i = Some n \<and> live (tasks (timers n)) k = Some task)"
  by (simp add: pending_timer_def split: option.split)

text \<open>A step starts tasks and ends tasks, but a task that stays is the one it was.\<close>

lemma pending_actions:
  assumes "timers_ok (timers n)" "running cl i = Some n" "running cl' = (running cl)(i := Some n')"
    "timers_left (timers n) t" "timer_actions rg as t = Inr (timers n')" "pending_timer cl' j k = Some task"
  shows "pending_timer cl j k = None \<or> pending_timer cl j k = Some task"
proof (cases "j = i")
  case False
  with assms(3,6) show ?thesis by (simp add: pending_timer_def)
next
  case True
  with assms(3,6) have k: "live (tasks (timers n')) k = Some task" by (simp add: pending_timer_def)
  have t: "tasks t = tasks (timers n)" using assms(4) by (auto simp: timers_left_def)
  have "live (tasks (timers n)) k = Some task \<or> spawned (tasks (timers n)) \<le> k"
    using timer_actions_tasks [OF assms(5)] k t by metis
  with timers_fresh [OF assms(1)] assms(2) True show ?thesis by (auto simp: pending_timer_def)
qed

lemma pending_stable:
  assumes "sim_rel members s cl" "numbers_ok b cl" "sim_event Debug fl e cl = Some (Inr cl')"
    "pending_timer cl' j k = Some task"
  shows "pending_timer cl j k = None \<or> pending_timer cl j k = Some task"
proof (cases e)
  case (Begins i rg)
  then obtain n m where n: "running cl i = Some n" "node_start (sim_env rg (\<lambda>_. 0 :: 'a)) (attach (network cl) (now_us (clock cl)) n) = Inr m"
    and cl': "cl' = put_node i (detach m) cl"
    using assms(3) by (auto simp: begin_run_def and_then_eq_Inr split: option.splits if_splits)
  have "timer_actions rg [ResetElectionTimer] (timers n) = Inr (timers (detach m))"
    using n(2) by (auto simp: node_start_def attach_def detach_def sim_env_def and_then_eq_Inr)
  moreover have "running cl' = (running cl)(i := Some (detach m))" using cl' running_handle [OF n(1)] by auto
  moreover have "timers_ok (timers n)" using assms(2) n(1) by (auto simp: numbers_ok_def timed_by_def)
  ultimately show ?thesis using pending_actions [OF _ n(1) _ timers_left_refl] assms(4) by blast
next
  case (Turn i src rg rnds)
  then have "turn Debug rg rnds i src cl = Some (Inr cl')" using assms(3) by simp
  from turn_step [OF assms(1) this] obtain as n n' t where n: "running cl i = Some n" "running cl' = (running cl)(i := Some n')"
    "timers_left (timers n) t" "timer_actions rg as t = Inr (timers n')"
    unfolding turn_steps_def by blast
  have "timers_ok (timers n)" using assms(2) n(1) by (auto simp: numbers_ok_def timed_by_def)
  from pending_actions [OF this n assms(4)] show ?thesis .
next
  case (Fires i l)
  then obtain n t where n: "running cl i = Some n" "fire l (timers n) = Some t" and cl': "cl' = put_node i (n\<lparr>timers := t\<rparr>) cl"
    using assms(3) by (auto simp: timer_fires_def split: option.splits)
  have "running cl' = (running cl)(i := Some (n\<lparr>timers := t\<rparr>))" using cl' running_handle [OF n(1)] by auto
  with assms(4) n show ?thesis
    by (auto simp: pending_timer_def fire_def split: option.splits if_splits)
next
  case (User a app client)
  then obtain ctl w app' where act: "apply_action Debug fl client a app cl = Inr (ctl, w, app', cl')"
    using assms(3) by (auto simp: and_then_eq_Inr)
  obtain n where n: "running cl' j = Some n" "live (tasks (timers n)) k = Some task"
    using assms(4) by (auto simp: pending_timer_running)
  from user_running [OF act n(1)] n(2) show ?thesis by (auto simp: pending_timer_def)
qed (use assms(3,4) in \<open>auto simp: pending_timer_def and_then_eq_Inr\<close>)

lemma alarms_known_event:
  assumes "cluster_ok members" "sim_inv members b cl" "b < 2 ^ 48" "sim_event Debug fl e cl = Some (Inr cl')" "alarms_known cl al"
  shows "alarms_known cl' (set_alarms cl cl' al)"
  unfolding alarms_known_def
proof (intro allI impI)
  fix i k task assume new: "pending_timer cl' i k = Some task"
  obtain s where s: "sim_rel members s cl" "numbers_ok b cl" using assms(2) by (auto simp: sim_inv_def)
  have "simulate Debug fl [e] cl = Some cl'" using assms(4) by simp
  note fwd = simulate_now [OF this]
  show "\<exists>t. set_alarms cl cl' al i k = Inr t \<and> unat t \<le> unat (now_us (clock cl')) + micros (sleeps task)"
  proof (cases "pending_timer cl i k")
    case None
    have "numbers_ok (Suc b) cl'" using sim_inv_event [OF assms(1-4)] by (simp add: sim_inv_def)
    with new have long: "sleeps task \<le> from_millis (2 ^ 50)"
      by (auto simp: pending_timer_running numbers_ok_def timed_by_def)
    have "unat (now_us (clock cl)) \<le> 10000 * b" using s(2) by (simp add: numbers_ok_def clock_paced_def)
    also have "\<dots> \<le> 10000 * 2 ^ 48" using assms(3) by simp
    finally obtain t where t: "sleep Debug (sleeps task) (clock cl) = Inr t"
      using sleep_fits [of "clock cl" "sleeps task"] long by (auto simp: from_millis_def)
    have "micros (sleeps task) \<le> micros (from_millis (2 ^ 50))" using long unfolding micros_def by (rule div_le_mono)
    then have "micros (sleeps task) < 2 ^ 64" by (simp add: micros_def from_millis_def)
    from sleep_deadline [OF t this] None new t fwd show ?thesis by (simp add: set_alarms_def)
  next
    case (Some old)
    with pending_stable [OF s assms(4) new] have "old = task" by simp
    with Some assms(5) obtain t where "al i k = Inr t" "unat t \<le> unat (now_us (clock cl)) + micros (sleeps task)"
      unfolding alarms_known_def by blast
    with Some new fwd show ?thesis by (auto simp: set_alarms_def)
  qed
qed

lemma alarms_known_run:
  "timed_simulate fl es cl al = Some (cl', al') \<Longrightarrow> cluster_ok members \<Longrightarrow> sim_inv members b cl \<Longrightarrow>
     b + length es \<le> 2 ^ 48 \<Longrightarrow> alarms_known cl al \<Longrightarrow> alarms_known cl' al'"
proof (induction es arbitrary: cl al b)
  case (Cons e es)
  from Cons.prems(1) obtain cl1 where e: "sim_event Debug fl e cl = Some (Inr cl1)"
    "timed_simulate fl es cl1 (set_alarms cl cl1 al) = Some (cl', al')"
    unfolding timed_simulate_Cons by blast
  have "b < 2 ^ 48" "Suc b + length es \<le> 2 ^ 48" using Cons.prems(4) by simp_all
  with sim_inv_event [OF Cons.prems(2,3) _ e(1)] alarms_known_event [OF Cons.prems(2,3) _ e(1) Cons.prems(5)]
    Cons.IH [OF e(2) Cons.prems(2)] show ?case by blast
qed simp

section \<open>Waiting\<close>

lemma waits:
  assumes "\<not> paused (clock cl)" "unat (now_us (clock cl)) + j * unat (step_us (clock cl)) < 2 ^ 64"
  shows "\<exists>w. \<forall>es. timed_simulate fl (replicate j Advances @ es) cl al =
    timed_simulate fl es (cl\<lparr>clock := (clock cl)\<lparr>now_us := now_us (clock cl) + of_nat j * step_us (clock cl), wakers := w\<rparr>\<rparr>) al"
  using assms
proof (induction j arbitrary: cl)
  case 0
  show ?case by (intro exI [of _ "wakers (clock cl)"]) simp
next
  case (Suc j)
  let ?next = "\<lambda>w. cl\<lparr>clock := (clock cl)\<lparr>now_us := now_us (clock cl) + step_us (clock cl), wakers := w\<rparr>\<rparr>"
  have fits: "unat (now_us (clock cl)) + unat (step_us (clock cl)) < 2 ^ 64" using Suc.prems(2) by simp
  then have now: "unat (now_us (clock cl) + step_us (clock cl)) = unat (now_us (clock cl)) + unat (step_us (clock cl))"
    by (simp add: unat_add_no_overflow)
  obtain due w where "wake_due (now_us (clock cl) + step_us (clock cl)) (wakers (clock cl)) = (due, w)" by fastforce
  then have w: "sim_event Debug fl Advances cl = Some (Inr (?next w))"
    using Suc.prems(1) add_u64_fits [OF fits] by (simp add: auto_advance_def tick_def)
  have "set_alarms cl (?next w) al = al" by (simp add: set_alarms_def pending_timer_def fun_eq_iff split: option.split)
  with w have "timed_simulate fl (replicate (Suc j) Advances @ es) cl al = timed_simulate fl (replicate j Advances @ es) (?next w) al" for es
    by simp
  with Suc.IH [of "?next w"] Suc.prems now show ?case by (simp add: algebra_simps)
qed

text \<open>An election timeout makes a candidate, or a leader of one without peers, in the next term.\<close>

lemma campaign_effect:
  assumes "handle_election_timeout Debug r = Inr (r', as)" "role r \<noteq> Leader"
  shows "unat (cterm r') = unat (cterm r) + 1 \<and> role r' \<noteq> Follower"
proof (cases "peers r = []")
  case True
  with assms have "add_u64 Debug (cterm r) 1 = Inr (cterm r')" "role r' = Leader"
    by (auto simp: handle_election_timeout_def Let_def and_then_eq_Inr dest!: become_leader_frame)
  then show ?thesis by (auto dest: add_u64_Debug_unat)
next
  case False
  from election_timeout_candidate(1,2) [OF assms(2) this assms(1)] show ?thesis by (auto dest: add_u64_Debug_unat)
qed

text \<open>A timer that is due ends, and the node campaigns.\<close>

lemma due_campaigns:
  assumes "cluster_ok members" "length members < 2 ^ 63" "sim_inv members b cl" "b < 2 ^ 48 - 1"
    "running cl i = Some n" "live (tasks (timers n)) k = Some task" "fires task = TimerElection"
    "timer_queue (timers n) = []" "role (raft n) \<noteq> Leader" "al i k = Inr s" "s \<le> now_us (clock cl)"
  shows "\<exists>cl' al' n'. timed_simulate fl [Fires i k, Turn i Timer rg rnds] cl al = Some (cl', al') \<and>
    clock cl' = clock cl \<and> running cl' i = Some n' \<and> unat (cterm (raft n')) = unat (cterm (raft n)) + 1 \<and>
    role (raft n') \<noteq> Follower"
proof -
  define t where "t = (timers n)\<lparr>tasks := (tasks (timers n))\<lparr>live := (live (tasks (timers n)))(k := None)\<rparr>,
    timer_queue := [TimerElection]\<rparr>"
  define cl1 where "cl1 = put_node i (n\<lparr>timers := t\<rparr>) cl"
  have fire: "fire k (timers n) = Some t" using assms(6-8) by (simp add: fire_def timer_channel_capacity_def t_def)
  then have e1: "sim_event Debug fl (Fires i k) cl = Some (Inr cl1)" using assms(5) by (simp add: timer_fires_def cl1_def)
  have b: "b < 2 ^ 48" "Suc b < 2 ^ 48" using assms(4) by simp_all
  obtain u where u: "sim_rel members u cl1" "model_ok members (Suc b) u" "numbers_ok (Suc b) cl1"
    using sim_inv_event [OF assms(1,3) b(1) e1] by (auto simp: sim_inv_def)
  have run1: "running cl1 i = Some (n\<lparr>timers := t\<rparr>)" using running_handle [OF assms(5)] by (auto simp: cl1_def)
  have "k < spawned (tasks (timers n))"
    using timers_fresh [of "timers n" k] assms(3,5,6) by (force simp: sim_inv_def numbers_ok_def timed_by_def)
  then have "begun (n\<lparr>timers := t\<rparr>)" by (simp add: begun_def t_def)
  then obtain x where x: "sim_event Debug fl (Turn i Timer rg rnds) cl1 = Some x"
    using run1 by (simp add: turn_def run_once_def attach_def t_def)
  have "cursor_ok members (Turn i Timer rg rnds :: 'a SimEvent)" by (simp add: cursor_ok_def)
  from sim_event_ok [OF u b(2) assms(2) this x] x obtain cl2 where
    e2: "sim_event Debug fl (Turn i Timer rg rnds) cl1 = Some (Inr cl2)" by blast
  then have turn: "turn Debug rg rnds i Timer cl1 = Some (Inr cl2)" by simp
  obtain ev as u' n2 where st: "node_step members u i ev (nodes u' i) as" "sim_rel members u' cl2"
    and n2: "raft (n\<lparr>timers := t\<rparr>) = nodes u i" "running cl2 = (running cl1)(i := Some n2)" "ev = ElectionTimeout"
    using turn_step [OF u(1) turn] run1 unfolding turn_steps_def by (auto simp: t_def)
  have "raft n2 = nodes u' i" using st(2) n2(2) by (simp add: sim_rel_def)
  then have "handle_election_timeout Debug (raft n) = Inr (raft n2, as)"
    using st(1) n2(1,3) by (simp add: node_step_def)
  note camp = campaign_effect [OF this assms(9)]
  have "in_time (Fires i k) cl al" using assms(10,11) by (simp add: sleep_ready_def)
  with e1 e2 obtain al' where "timed_simulate fl [Fires i k, Turn i Timer rg rnds] cl al = Some (cl2, al')" by simp
  moreover have "clock cl2 = clock cl"
    using turn by (auto simp: turn_def put_node_def and_then_eq_Inr cl1_def split: option.splits if_splits)
  ultimately show ?thesis using n2(2) camp by auto
qed

text \<open>A new cluster has no timer running.\<close>

lemma start_nodes_no_timers:
  "start_nodes p is cl = Inr cl' \<Longrightarrow> (\<And>i k. pending_timer cl i k = None) \<Longrightarrow> pending_timer cl' i k = None"
proof (induction "is" arbitrary: cl)
  case (Cons j "is")
  then obtain h cl1 where st: "start_node p j (others (node_ids cl) j) cl = Inr (h, cl1)"
    "start_nodes p is (cl1\<lparr>handles := (handles cl1)(j := Some h)\<rparr>) = Inr cl'"
    by (auto simp: and_then_eq_Inr)
  have "pending_timer (cl1\<lparr>handles := (handles cl1)(j := Some h)\<rparr>) l k = None" for l k
    using st(1) Cons.prems(2) by (auto simp: start_node_def mpsc_channel_def node_new_def and_then_eq_Inr Let_def
        pending_timer_def running_def timers_new_def split: if_splits)
  from Cons.IH [OF st(2) this] show ?case .
qed simp

lemma new_cluster_no_timers: "cluster_new p ids c config = Inr cl \<Longrightarrow> pending_timer cl i k = None"
  unfolding cluster_new_def by (erule start_nodes_no_timers) (simp add: pending_timer_def running_def)

text \<open>How many ticks it takes to get to a time.\<close>

lemma ticks_to:
  fixes step :: nat
  assumes "0 < step" "s \<le> now + m"
  shows "\<exists>j. s \<le> now + j * step \<and> j * step < m + step \<and> j \<le> m"
proof (intro exI conjI)
  let ?j = "(s - now + step - 1) div step"
  have "s - now + step - 1 < (?j + 1) * step" using assms(1) by (simp add: dividend_less_div_times)
  then show "s \<le> now + ?j * step" by simp
  have le: "?j * step \<le> s - now + step - 1" by simp
  then show "?j * step < m + step" using assms by linarith
  have "?j \<le> (m * step + step - 1) div step"
  proof (rule div_le_mono)
    have "m \<le> m * step" using assms(1) by simp
    with assms(2) have "s - now \<le> m * step" by linarith
    then show "s - now + step - 1 \<le> m * step + step - 1" by (intro diff_le_mono add_le_mono1)
  qed
  also have "m * step + step - 1 = step - 1 + m * step" using assms(1) by simp
  also have "\<dots> div step = (step - 1) div step + m" using assms(1) by (simp only: div_mult_self1)
  also have "\<dots> = m" using assms(1) by simp
  finally show "?j \<le> m" .
qed

text \<open>C28: silence ends in a campaign. In simulated time, a node that is not a leader and whose election timer is
  running, with the clock not paused, campaigns when nothing else happens: after some ticks its timer
  ends, within the configured maximum of the election timeout and one tick, and the turn that handles
  the timeout starts an election in the next term; nothing panics on the way.\<close>

theorem silence_ends_in_campaign:
  assumes "cluster_ok members" "length members < 2 ^ 63" "config_ok config"
    and "cluster_new Debug members clock_new config = Inr cl0" "timed_simulate fl es cl0 no_alarms = Some (cl, al)"
    and "running cl i = Some n" "live (tasks (timers n)) k = Some task" "fires task = TimerElection"
      "timer_queue (timers n) = []" "role (raft n) \<noteq> Leader" "\<not> paused (clock cl)"
    and "length es + 1000 * as_millis_u64 (election_timeout_max config) < 2 ^ 48 - 1"
  shows "\<exists>j cl' al' n'. timed_simulate fl (replicate j Advances @ [Fires i k, Turn i Timer rg rnds]) cl al = Some (cl', al') \<and>
    unat (now_us (clock cl')) < unat (now_us (clock cl)) + 1000 * as_millis_u64 (election_timeout_max config) +
      unat (step_us (clock cl)) \<and>
    running cl' i = Some n' \<and> unat (cterm (raft n')) = unat (cterm (raft n)) + 1 \<and> role (raft n') \<noteq> Follower"
proof -
  note run = timed_simulate_run [OF assms(5)]
  let ?now = "unat (now_us (clock cl))" and ?step = "unat (step_us (clock cl))"
  let ?max = "1000 * as_millis_u64 (election_timeout_max config)"
  have b: "0 + length es \<le> 2 ^ 48" using assms(12) by simp
  note inv0 = sim_inv_new [OF assms(1,3,4)]
  have inv: "sim_inv members (length es) cl" using sim_inv_simulate [OF assms(1) run inv0 b] by simp
  have cfg: "node_config cl = config" using simulate_config [OF run] cluster_new_config [OF assms(4)] by simp
  have num: "clock_paced (length es) (clock cl)" "timed_by config (timers n)"
    using inv assms(6) cfg by (auto simp: sim_inv_def numbers_ok_def)
  have "alarms_known cl0 no_alarms"
    using new_cluster_no_timers [OF assms(4)] by (simp add: alarms_known_def)
  from alarms_known_run [OF assms(5,1) inv0 b this] obtain s where
    s: "al i k = Inr s" "unat s \<le> ?now + micros (sleeps task)"
    using assms(6,7) unfolding alarms_known_def pending_timer_running by blast
  have "sleeps task \<le> from_millis (as_millis_u64 (election_timeout_max config))"
    using num(2) assms(7,8) by (auto simp: timed_by_def)
  then have "micros (sleeps task) \<le> micros (from_millis (as_millis_u64 (election_timeout_max config)))"
    unfolding micros_def by (rule div_le_mono)
  then have late: "unat s \<le> ?now + ?max" using s(2) by (simp add: micros_def from_millis_def)
  obtain j where j: "unat s \<le> ?now + j * ?step" "j * ?step < ?max + ?step" "j \<le> ?max"
    using ticks_to [of ?step "unat s" ?now ?max] num(1) late by (auto simp: clock_paced_def)
  have "?now + j * ?step < 2 ^ 64" using num(1) j(2) assms(12) by (simp add: clock_paced_def)
  note fits = this
  obtain w where w: "timed_simulate fl (replicate j Advances @ es') cl al = timed_simulate fl es'
      (cl\<lparr>clock := (clock cl)\<lparr>now_us := now_us (clock cl) + of_nat j * step_us (clock cl), wakers := w\<rparr>\<rparr>) al" for es'
    using waits [OF assms(11) fits] by blast
  define cl1 where "cl1 = cl\<lparr>clock := (clock cl)\<lparr>now_us := now_us (clock cl) + of_nat j * step_us (clock cl), wakers := w\<rparr>\<rparr>"
  have now: "unat (now_us (clock cl1)) = ?now + j * ?step"
  proof -
    have "now_us (clock cl1) = of_nat (?now + j * ?step)" by (simp add: cl1_def)
    with fits show ?thesis by (simp only: unat_of_nat) simp
  qed
  have "timed_simulate fl (replicate j Advances) cl al = Some (cl1, al)" using w [of "[]"] by (simp add: cl1_def)
  from sim_inv_simulate [OF assms(1) timed_simulate_run [OF this] inv] have inv1: "sim_inv members (length es + j) cl1"
    using j(3) assms(12) by simp
  have run1: "running cl1 i = Some n" using assms(6) by (simp add: cl1_def)
  have due: "s \<le> now_us (clock cl1)" using now j(1) by (simp add: word_le_nat_alt)
  have "length es + j < 2 ^ 48 - 1" using j(3) assms(12) by simp
  from due_campaigns [where al = al and i = i and k = k, OF assms(1,2) inv1 this run1 assms(7-10) s(1) due] obtain cl' al' n' where
    "timed_simulate fl [Fires i k, Turn i Timer rg rnds] cl1 al = Some (cl', al')" "clock cl' = clock cl1"
    "running cl' i = Some n'" "unat (cterm (raft n')) = unat (cterm (raft n)) + 1" "role (raft n') \<noteq> Follower"
    by blast
  with w [of "[Fires i k, Turn i Timer rg rnds]"] now j(2) show ?thesis
    by (intro exI [of _ j] exI [of _ cl'] exI [of _ al'] exI [of _ n']) (simp add: cl1_def)
qed

text \<open>Node 1 begins to run in a new cluster.\<close>

lemma first_node_waits:
  "\<exists>(cl0 :: (nat, unit) Cluster) cl al n task. cluster_new Debug members3 clock_new node_config_default = Inr cl0 \<and>
     timed_simulate demo_floats [Begins 1 (\<lambda>_. 0)] cl0 no_alarms = Some (cl, al) \<and> running cl 1 = Some n \<and>
     live (tasks (timers n)) 0 = Some task \<and> fires task = TimerElection \<and> timer_queue (timers n) = [] \<and>
     role (raft n) \<noteq> Leader \<and> cterm (raft n) = 0 \<and> \<not> paused (clock cl) \<and> now_us (clock cl) = 0 \<and> step_us (clock cl) = 10000"
  by (simp add: timed_run_simps)

theorem silence_ends_in_campaign_witness:
  "\<exists>(cl :: (nat, unit) Cluster) n. running cl 1 = Some n \<and> unat (cterm (raft n)) = 1 \<and> role (raft n) \<noteq> Follower \<and>
     unat (now_us (clock cl)) < 310000"
proof -
  obtain cl0 cl :: "(nat, unit) Cluster" and al n task where
    new: "cluster_new Debug members3 clock_new node_config_default = Inr cl0"
    and run: "timed_simulate demo_floats [Begins 1 (\<lambda>_. 0)] cl0 no_alarms = Some (cl, al)"
    and n: "running cl 1 = Some n" "live (tasks (timers n)) 0 = Some task" "fires task = TimerElection"
      "timer_queue (timers n) = []" "role (raft n) \<noteq> Leader" "\<not> paused (clock cl)"
    and t: "cterm (raft n) = 0" "now_us (clock cl) = 0" "step_us (clock cl) = 10000"
    using first_node_waits by blast
  have max: "as_millis_u64 (election_timeout_max node_config_default) = 300"
    by (simp add: node_config_default_def as_millis_u64_def from_millis_def)
  have l: "length members3 < 2 ^ 63"
    "length [Begins 1 (\<lambda>_. 0) :: nat SimEvent] + 1000 * as_millis_u64 (election_timeout_max node_config_default) < 2 ^ 48 - 1"
    by (simp_all add: members3_def max)
  from silence_ends_in_campaign [OF members3_ok l(1) config_ok_default new run n l(2), of "\<lambda>_. 0" "\<lambda>_. 0"]
  obtain cl' :: "(nat, unit) Cluster" and n' where "running cl' 1 = Some n'" "unat (cterm (raft n')) = unat (cterm (raft n)) + 1"
    "role (raft n') \<noteq> Follower" "unat (now_us (clock cl')) < unat (now_us (clock cl)) +
      1000 * as_millis_u64 (election_timeout_max node_config_default) + unat (step_us (clock cl))" by blast
  with t max show ?thesis by auto
qed

end
