(* ===== verification/SimSession.thy ===== *)
theory SimSession
  imports SimSafety SimView
begin

text \<open>
  A session at the terminal: \<open>run\<close> and \<open>event_loop\<close> of \<open>ui/renderer.rs\<close> with the terminal they talk to, and
  \<open>async_main\<close> of \<open>main.rs\<close> around them. The terminal is a library (\<open>crossterm\<close>, \<open>ratatui\<close>); it is a parameter,
  a state and what each call returns and makes of it. Every call can fail, and a session may not end.
  The tasks of the nodes, of the timers and of the clock run beside it; what they do to the cluster
  between two frames is a parameter too. The time a frame takes is not modelled.
\<close>

section \<open>The terminal\<close>

record ('t, 'e) Tty =
  enable_raw_mode :: "'t \<Rightarrow> ('e + unit) \<times> 't"
  enter_alternate_screen :: "'t \<Rightarrow> ('e + unit) \<times> 't"
  terminal_new :: "'t \<Rightarrow> ('e + unit) \<times> 't"
  disable_raw_mode :: "'t \<Rightarrow> ('e + unit) \<times> 't"
  leave_alternate_screen :: "'t \<Rightarrow> ('e + unit) \<times> 't"
  show_cursor :: "'t \<Rightarrow> ('e + unit) \<times> 't"
  draw_frame :: "Frame \<Rightarrow> 't \<Rightarrow> ('e + unit) \<times> 't"
  poll_event :: "'t \<Rightarrow> ('e + bool) \<times> 't"
  read_event :: "'t \<Rightarrow> ('e + UiEvent) \<times> 't"

text \<open>Calls one after the other, each followed by \<open>?\<close>.\<close>

fun all_of :: "('t \<Rightarrow> ('e + unit) \<times> 't) list \<Rightarrow> 't \<Rightarrow> ('e + unit) \<times> 't" where
  "all_of [] t = (Inr (), t)"
| "all_of (c # cs) t = (case c t of (Inl e, t') \<Rightarrow> (Inl e, t') | (Inr _, t') \<Rightarrow> all_of cs t')"

definition set_up :: "('t, 'e) Tty \<Rightarrow> 't \<Rightarrow> ('e + unit) \<times> 't" where
  "set_up tty = all_of [enable_raw_mode tty, enter_alternate_screen tty, terminal_new tty]"

definition tear_down :: "('t, 'e) Tty \<Rightarrow> 't \<Rightarrow> ('e + unit) \<times> 't" where
  "tear_down tty = all_of [disable_raw_mode tty, leave_alternate_screen tty, show_cursor tty]"

section \<open>The event loop\<close>

text \<open>One turn of the loop: a frame is drawn, and an event that is there is handled.\<close>

definition ui_frame ::
    "profile \<Rightarrow> 'f::{zero,one,plus,minus,linorder} ViewFloats \<Rightarrow> ('t, 'e) Tty \<Rightarrow> nat \<Rightarrow> 't \<Rightarrow> App \<Rightarrow> ('f, 'w) Cluster \<Rightarrow>
     panic + ('e + LoopControl) \<times> 't \<times> App \<times> ('f, 'w) Cluster" where
  "ui_frame p fl tty client t app cl =
     (case draw_frame tty (draw fl app cl) t of
        (Inl e, t1) \<Rightarrow> Inr (Inl e, t1, app, cl)
      | (Inr _, t1) \<Rightarrow>
     (case poll_event tty t1 of
        (Inl e, t2) \<Rightarrow> Inr (Inl e, t2, app, cl)
      | (Inr False, t2) \<Rightarrow> Inr (Inr Continue, t2, app, cl)
      | (Inr True, t2) \<Rightarrow>
     (case read_event tty t2 of
        (Inl e, t3) \<Rightarrow> Inr (Inl e, t3, app, cl)
      | (Inr ev, t3) \<Rightarrow>
          and_then (event_loop p (Floats.truncate fl) client [ev] app cl) (\<lambda>(ctl, app', cl').
          Inr (Inr ctl, t3, app', cl')))))"

partial_function (option) ui_loop ::
    "profile \<Rightarrow> 'f::{zero,one,plus,minus,linorder} ViewFloats \<Rightarrow> ('t, 'e) Tty \<Rightarrow> ('t \<Rightarrow> ('f, 'w) Cluster \<Rightarrow> ('f, 'w) Cluster) \<Rightarrow>
     nat \<Rightarrow> 't \<Rightarrow> App \<Rightarrow> ('f, 'w) Cluster \<Rightarrow> (panic + ('e + unit) \<times> 't \<times> App \<times> ('f, 'w) Cluster) option" where
  "ui_loop p fl tty meanwhile client t app cl =
     (case ui_frame p fl tty client t app (meanwhile t cl) of
        Inl x \<Rightarrow> Some (Inl x)
      | Inr (Inl e, t', app', cl') \<Rightarrow> Some (Inr (Inl e, t', app', cl'))
      | Inr (Inr ctl, t', app', cl') \<Rightarrow>
          if ctl = Break then Some (Inr (Inr (), t', app', cl'))
          else ui_loop p fl tty meanwhile (client + 1) t' app' cl')"

text \<open>\<open>run\<close>: the loop between setting the terminal up and restoring it. A panic is not caught.\<close>

definition run_ui ::
    "profile \<Rightarrow> 'f::{zero,one,plus,minus,linorder} ViewFloats \<Rightarrow> ('t, 'e) Tty \<Rightarrow> ('t \<Rightarrow> ('f, 'w) Cluster \<Rightarrow> ('f, 'w) Cluster) \<Rightarrow>
     't \<Rightarrow> ('f, 'w) Cluster \<Rightarrow> (panic + ('e + unit) \<times> 't \<times> ('f, 'w) Cluster) option" where
  "run_ui p fl tty meanwhile t cl =
     (case set_up tty t of
        (Inl e, t1) \<Rightarrow> Some (Inr (Inl e, t1, cl))
      | (Inr _, t1) \<Rightarrow>
          (case ui_loop p fl tty meanwhile 0 t1 app_default cl of
             None \<Rightarrow> None
           | Some (Inl x) \<Rightarrow> Some (Inl x)
           | Some (Inr (result, t2, app, cl')) \<Rightarrow>
               (case tear_down tty t2 of
                  (Inl e, t3) \<Rightarrow> Some (Inr (Inl e, t3, cl'))
                | (Inr _, t3) \<Rightarrow> Some (Inr (result, t3, cl')))))"

definition async_main ::
    "profile \<Rightarrow> 'f::{zero,one,plus,minus,linorder} ViewFloats \<Rightarrow> ('t, 'e) Tty \<Rightarrow> ('t \<Rightarrow> ('f, 'w) Cluster \<Rightarrow> ('f, 'w) Cluster) \<Rightarrow>
     't \<Rightarrow> (panic + ('e + unit) \<times> 't \<times> ('f, 'w) Cluster) option" where
  "async_main p fl tty meanwhile t =
     (case start_cluster p of Inl x \<Rightarrow> Some (Inl x) | Inr cl \<Rightarrow> run_ui p fl tty meanwhile t cl)"

text \<open>The user can leave: in the normal mode \<open>q\<close> and \<open>Q\<close> end the loop.\<close>

lemma quit_ends_loop:
  assumes "input_mode app = Normal" "draw_frame tty (draw fl app (meanwhile t cl)) t = (Inr (), t1)"
    "poll_event tty t1 = (Inr True, t2)" "read_event tty t2 = (Inr (KeyPress (KeyChar c)), t3)"
    "c = of_char (CHR ''q'') \<or> c = of_char (CHR ''Q'')"
  shows "ui_loop p fl tty meanwhile client t app cl = Some (Inr (Inr (), t3, app, meanwhile t cl))"
  using assms by (auto simp: ui_loop.simps [of p fl tty meanwhile client t] ui_frame_def decode_def normal_char_def)

section \<open>A session is a run of the simulator\<close>

text \<open>Beside the interface only the tasks of the simulator touch the cluster.\<close>

fun by_user :: "'f SimEvent \<Rightarrow> bool" where
  "by_user (User _ _ _) = True"
| "by_user _ = False"

definition tasks_only ::
    "'f::{zero,one,plus,minus,linorder} Floats \<Rightarrow> ('t \<Rightarrow> ('f, 'w) Cluster \<Rightarrow> ('f, 'w) Cluster) \<Rightarrow> bool" where
  "tasks_only fl meanwhile \<longleftrightarrow>
     (\<forall>t cl. \<exists>es. simulate Debug fl es cl = Some (meanwhile t cl) \<and> (\<forall>e \<in> set es. \<not> by_user e))"

text \<open>The key that restarts the selected node.\<close>

definition never_reads_r :: "('t, 'e) Tty \<Rightarrow> bool" where
  "never_reads_r tty \<longleftrightarrow> (\<forall>t. fst (read_event tty t) \<noteq> Inr (KeyPress (KeyChar (of_char (CHR ''r'')))))"

lemma decode_restart:
  assumes "decode k app = (Some RestartNode, app')"
  shows "k = KeyChar (of_char (CHR ''r''))"
  using assms
  by (cases "(k, app)" rule: decode_normal.cases)
    (auto simp: decode_def normal_char_def split: InputMode.splits if_splits KeyCode.splits
      elim!: decode_entering_key.elims decode_entering_value.elims)

lemma event_loop_run:
  assumes "event_loop Debug fl client [ev] app cl = Inr (ctl, app', cl')"
  shows "\<exists>es. simulate Debug fl es cl = Some cl' \<and>
    (\<forall>e \<in> set es. restarts e \<longrightarrow> ev = KeyPress (KeyChar (of_char (CHR ''r''))))"
proof (cases ev)
  case (KeyPress k)
  obtain a app1 where d: "decode k app = (a, app1)" by fastforce
  show ?thesis
  proof (cases a)
    case None
    with assms d KeyPress show ?thesis by (intro exI [of _ "[]"]) simp
  next
    case (Some act)
    with assms d KeyPress obtain c w app2 where "apply_action Debug fl client act app1 cl = Inr (c, w, app2, cl')"
      by (auto simp: and_then_eq_Inr split: if_splits)
    then have "simulate Debug fl [User act app1 client] cl = Some cl'" by simp
    moreover have "k = KeyChar (of_char (CHR ''r''))" if "restarts (User act app1 client :: 'a SimEvent)"
      using that d Some decode_restart by (cases act) auto
    ultimately show ?thesis using KeyPress by (intro exI [of _ "[User act app1 client]"]) auto
  qed
next
  case OtherUiEvent
  with assms show ?thesis by (intro exI [of _ "[]"]) simp
qed

text \<open>The runs of the cluster during a session: no restart happens when the key is never read.\<close>

definition session_run ::
    "'f::{zero,one,plus,minus,linorder} Floats \<Rightarrow> ('t, 'e) Tty \<Rightarrow> ('f, 'w) Cluster \<Rightarrow> ('f, 'w) Cluster \<Rightarrow> bool" where
  "session_run fl tty cl cl' \<longleftrightarrow>
     (\<exists>es. simulate Debug fl es cl = Some cl' \<and> (never_reads_r tty \<longrightarrow> (\<forall>e \<in> set es. \<not> restarts e)))"

lemma frame_run:
  assumes "ui_frame Debug fl tty client t app cl = Inr (r, t', app', cl')"
  shows "session_run (Floats.truncate fl) tty cl cl'"
proof -
  consider "cl' = cl"
    | t2 ev ctl where "read_event tty t2 = (Inr ev, t')" "event_loop Debug (Floats.truncate fl) client [ev] app cl = Inr (ctl, app', cl')"
    using assms unfolding ui_frame_def
    by (auto simp: and_then_eq_Inr simp del: event_loop.simps split: prod.splits sum.splits bool.splits)
  then show ?thesis
  proof cases
    case 1
    then show ?thesis unfolding session_run_def by (intro exI [of _ "[]"]) simp
  next
    case 2
    have "never_reads_r tty \<Longrightarrow> ev \<noteq> KeyPress (KeyChar (of_char (CHR ''r'')))"
      using 2(1) unfolding never_reads_r_def by (metis fst_conv)
    with event_loop_run [OF 2(2)] show ?thesis unfolding session_run_def by blast
  qed
qed

lemma session_run_trans [trans]:
  "session_run fl tty cl cl1 \<Longrightarrow> session_run fl tty cl1 cl' \<Longrightarrow> session_run fl tty cl cl'"
  unfolding session_run_def
proof (elim exE conjE)
  fix es es'
  assume "simulate Debug fl es cl = Some cl1" "simulate Debug fl es' cl1 = Some cl'"
    "never_reads_r tty \<longrightarrow> (\<forall>e \<in> set es. \<not> restarts e)" "never_reads_r tty \<longrightarrow> (\<forall>e \<in> set es'. \<not> restarts e)"
  then show "\<exists>es. simulate Debug fl es cl = Some cl' \<and> (never_reads_r tty \<longrightarrow> (\<forall>e \<in> set es. \<not> restarts e))"
    by (intro exI [of _ "es @ es'"]) (auto simp: simulate_append)
qed

lemma session_run_tasks: "tasks_only fl meanwhile \<Longrightarrow> session_run fl tty cl (meanwhile t cl)"
proof -
  assume "tasks_only fl meanwhile"
  then obtain es where es: "simulate Debug fl es cl = Some (meanwhile t cl)" "\<forall>e \<in> set es. \<not> by_user e"
    unfolding tasks_only_def by blast
  have "\<not> restarts e" if "\<not> by_user e" for e :: "'a SimEvent" using that by (cases e) auto
  with es show ?thesis unfolding session_run_def by blast
qed

lemma loop_run:
  fixes fl :: "'f::{zero,one,plus,minus,linorder} ViewFloats" and cl :: "('f, 'w) Cluster"
  assumes "ui_loop Debug fl tty meanwhile client t app cl = Some (Inr (r, t', app', cl'))"
    "tasks_only (Floats.truncate fl) meanwhile"
  shows "session_run (Floats.truncate fl) tty cl cl'"
proof -
  have "Debug = Debug \<longrightarrow> tasks_only (Floats.truncate fl) meanwhile \<longrightarrow> (\<forall>r' u app'' cl''.
    Inr (r, t', app', cl') = (Inr (r', u, app'', cl'') :: panic + _) \<longrightarrow> session_run (Floats.truncate fl) tty cl cl'')"
  proof (rule ui_loop.raw_induct [where P = "\<lambda>p fl tty meanwhile client t app cl x. p = Debug \<longrightarrow>
    tasks_only (Floats.truncate fl) meanwhile \<longrightarrow>
    (\<forall>r t' app' cl'. x = Inr (r, t', app', cl') \<longrightarrow> session_run (Floats.truncate fl) tty cl cl')", OF _ assms(1)], intro impI allI)
    fix loop p tty meanwhile client t app x r t' app' and cl cl' :: "('f, 'w) Cluster"
    and fl :: "'f ViewFloats"
    assume IH: "\<And>p fl tty meanwhile client t app cl x. loop p fl tty meanwhile client t app cl = Some x \<Longrightarrow>
        p = Debug \<longrightarrow> tasks_only (Floats.truncate fl) meanwhile \<longrightarrow>
        (\<forall>r t' app' cl'. x = Inr (r, t', app', cl') \<longrightarrow> session_run (Floats.truncate fl) tty cl cl')"
      and p: "p = Debug" and ok: "tasks_only (Floats.truncate fl) meanwhile" and x: "x = Inr (r, t', app', cl')"
      and step: "(case ui_frame p fl tty client t app (meanwhile t cl) of
        Inl x \<Rightarrow> Some (Inl x)
      | Inr (Inl e, t', app', cl') \<Rightarrow> Some (Inr (Inl e, t', app', cl'))
      | Inr (Inr ctl, t', app', cl') \<Rightarrow>
          if ctl = Break then Some (Inr (Inr (), t', app', cl'))
          else loop p fl tty meanwhile (client + 1) t' app' cl') = Some x"
    then obtain o1 t1 app1 cl1 where f: "ui_frame Debug fl tty client t app (meanwhile t cl) = Inr (o1, t1, app1, cl1)"
      and rest: "cl' = cl1 \<or> loop p fl tty meanwhile (client + 1) t1 app1 cl1 = Some x"
      by (auto split: sum.splits if_splits)
    have "session_run (Floats.truncate fl) tty cl (meanwhile t cl)" by (rule session_run_tasks [OF ok])
    also have "session_run (Floats.truncate fl) tty (meanwhile t cl) cl1" by (rule frame_run [OF f])
    finally have one: "session_run (Floats.truncate fl) tty cl cl1" .
    from rest show "session_run (Floats.truncate fl) tty cl cl'"
    proof
      assume "loop p fl tty meanwhile (client + 1) t1 app1 cl1 = Some x"
      with IH p ok x have "session_run (Floats.truncate fl) tty cl1 cl'" by blast
      with one show ?thesis by (rule session_run_trans)
    qed (use one in simp)
  qed
  with assms(2) show ?thesis by blast
qed

lemma run_ui_run:
  assumes "run_ui Debug fl tty meanwhile t cl = Some (Inr (r, t', cl'))" "tasks_only (Floats.truncate fl) meanwhile"
  shows "session_run (Floats.truncate fl) tty cl cl'"
proof -
  consider "cl' = cl" | t1 r1 t2 app where "ui_loop Debug fl tty meanwhile 0 t1 app_default cl = Some (Inr (r1, t2, app, cl'))"
    using assms(1) unfolding run_ui_def by (auto split: prod.splits sum.splits option.splits)
  then show ?thesis
  proof cases
    case 1
    then show ?thesis unfolding session_run_def by (intro exI [of _ "[]"]) simp
  qed (rule loop_run [OF _ assms(2)])
qed

lemma program_cluster_ok: "cluster_ok sim_node_ids"
  by (simp add: cluster_ok_def sim_node_ids_def)

text \<open>C24: the program keeps election safety. When the program ends, its cluster of five nodes is in a state of a
  run of the simulator from the start; and unless the key that restarts a node was read, no two
  nodes lead in the same term.\<close>

theorem session_keeps_election_safety:
  assumes "async_main Debug fl tty meanwhile t = Some (Inr (res, t', cl))" "tasks_only (Floats.truncate fl) meanwhile"
  shows "\<exists>cl0 es. start_cluster Debug = Inr cl0 \<and> simulate Debug (Floats.truncate fl) es cl0 = Some cl \<and>
    (never_reads_r tty \<longrightarrow> (\<forall>i j m n. running cl i = Some m \<longrightarrow> running cl j = Some n \<longrightarrow>
       role (raft m) = Leader \<longrightarrow> role (raft n) = Leader \<longrightarrow> cterm (raft m) = cterm (raft n) \<longrightarrow> i = j))"
proof -
  obtain cl0 where cl0: "start_cluster Debug = Inr cl0" "run_ui Debug fl tty meanwhile t cl0 = Some (Inr (res, t', cl))"
    using assms(1) unfolding async_main_def by (auto split: sum.splits)
  then have new: "cluster_new Debug sim_node_ids clock_new sim_config = Inr cl0" by (simp add: start_cluster_def)
  obtain es where es: "simulate Debug (Floats.truncate fl) es cl0 = Some cl" "never_reads_r tty \<longrightarrow> (\<forall>e \<in> set es. \<not> restarts e)"
    using run_ui_run [OF cl0(2) assms(2)] unfolding session_run_def by blast
  have "i = j" if "never_reads_r tty" "running cl i = Some m" "running cl j = Some n" "role (raft m) = Leader"
    "role (raft n) = Leader" "cterm (raft m) = cterm (raft n)" for i j m n
  proof -
    have quiet: "\<forall>e \<in> set es. \<not> restarts e" using es(2) that(1) by blast
    obtain s where s: "reachable sim_node_ids s"
      "\<And>i n. running cl i = Some n \<Longrightarrow> i \<in> set sim_node_ids \<and> raft n = nodes s i"
      using running_in_model [OF new es(1) quiet] by blast
    show ?thesis
      using single_leader [OF program_cluster_ok s(1)] s(2) [OF that(2)] s(2) [OF that(3)] that(4-6) by simp
  qed
  with cl0(1) es(1) show ?thesis by blast
qed

section \<open>The terminal is restored\<close>

text \<open>What is relied on of the terminal library, with the terminal observed by three flags: a call that
  succeeds does what its name says, and does not undo what the calls before it did.\<close>

definition tty_ok :: "('t \<Rightarrow> bool) \<Rightarrow> ('t \<Rightarrow> bool) \<Rightarrow> ('t \<Rightarrow> bool) \<Rightarrow> ('t, 'e) Tty \<Rightarrow> bool" where
  "tty_ok raw alternate hidden tty \<longleftrightarrow> (\<forall>t t'.
     (enable_raw_mode tty t = (Inr (), t') \<longrightarrow> raw t') \<and>
     (raw t \<longrightarrow> raw (snd (enter_alternate_screen tty t)) \<and> raw (snd (terminal_new tty t))) \<and>
     (disable_raw_mode tty t = (Inr (), t') \<longrightarrow> \<not> raw t') \<and>
     (leave_alternate_screen tty t = (Inr (), t') \<longrightarrow> \<not> alternate t' \<and> raw t' = raw t) \<and>
     (show_cursor tty t = (Inr (), t') \<longrightarrow> \<not> hidden t' \<and> raw t' = raw t \<and> alternate t' = alternate t))"

lemma all_of_Inr: "all_of (c # cs) t = (Inr (), t') \<longleftrightarrow> (\<exists>t1. c t = (Inr (), t1) \<and> all_of cs t1 = (Inr (), t'))"
  by (auto split: prod.splits sum.splits)

lemma tear_down_restores:
  assumes "tty_ok raw alternate hidden tty" "tear_down tty t = (Inr (), t')"
  shows "\<not> raw t' \<and> \<not> alternate t' \<and> \<not> hidden t'"
proof -
  obtain t1 t2 where "disable_raw_mode tty t = (Inr (), t1)" "leave_alternate_screen tty t1 = (Inr (), t2)"
    "show_cursor tty t2 = (Inr (), t')"
    using assms(2) by (auto simp: tear_down_def all_of_Inr simp del: all_of.simps(2))
  with assms(1) show ?thesis unfolding tty_ok_def by metis
qed

lemma set_up_failure:
  assumes "tty_ok raw alternate hidden tty" "set_up tty t = (Inl e, t')" "fst (enable_raw_mode tty t) = Inr ()"
  shows "raw t'"
proof -
  obtain t1 where "enable_raw_mode tty t = (Inr (), t1)" using assms(3) by (cases "enable_raw_mode tty t") auto
  moreover from this assms(1) have "raw t1" "raw (snd (enter_alternate_screen tty t1))"
    "\<And>u. raw u \<Longrightarrow> raw (snd (terminal_new tty u))"
    unfolding tty_ok_def by blast+
  ultimately show ?thesis using assms(2) by (fastforce simp: set_up_def split: prod.splits sum.splits)
qed

text \<open>C37: the terminal is restored, mostly. Once it was set up, it is out of raw mode and of the alternate screen
  with its cursor shown when \<open>run\<close> returns, also after an error of the event loop, which is then the
  result; only an error while restoring it hides that result. But an error in setting it up, after
  raw mode was enabled, returns at once and leaves it in raw mode.\<close>

theorem terminal_restored:
  assumes "tty_ok raw alternate hidden tty" "run_ui p fl tty meanwhile t cl = Some (Inr (res, t', cl'))"
  shows "case set_up tty t of
      (Inl e, t1) \<Rightarrow> res = Inl e \<and> t' = t1 \<and> cl' = cl \<and> (fst (enable_raw_mode tty t) = Inr () \<longrightarrow> raw t')
    | (Inr _, t1) \<Rightarrow>
        (\<exists>r t2 app. ui_loop p fl tty meanwhile 0 t1 app_default cl = Some (Inr (r, t2, app, cl')) \<and>
           (case tear_down tty t2 of
              (Inl e, _) \<Rightarrow> res = Inl e
            | _ \<Rightarrow> res = r \<and> \<not> raw t' \<and> \<not> alternate t' \<and> \<not> hidden t'))"
proof (cases "set_up tty t")
  case (Pair s t1)
  show ?thesis
  proof (cases s)
    case (Inl e)
    with Pair assms(2) set_up_failure [OF assms(1)] show ?thesis by (auto simp: run_ui_def)
  next
    case (Inr u)
    with Pair assms(2) obtain r t2 app where loop: "ui_loop p fl tty meanwhile 0 t1 app_default cl = Some (Inr (r, t2, app, cl'))"
      and down: "case tear_down tty t2 of (Inl e, t3) \<Rightarrow> res = Inl e | (Inr _, t3) \<Rightarrow> res = r \<and> t' = t3"
      by (auto simp: run_ui_def split: prod.splits sum.splits option.splits)
    then show ?thesis
      using Pair Inr tear_down_restores [OF assms(1), of t2 t']
      by (auto split: prod.splits sum.splits)
  qed
qed

section \<open>A session\<close>

text \<open>A terminal with keys waiting to be read, without the key that restarts a node; setting it up can fail.\<close>

record Screen =
  is_raw :: bool
  is_alternate :: bool
  is_hidden :: bool
  keys :: "KeyCode list"

definition demo_tty :: "bool \<Rightarrow> (Screen, nat) Tty" where
  "demo_tty fails =
     \<lparr>enable_raw_mode = (\<lambda>s. (Inr (), s\<lparr>is_raw := True\<rparr>)),
      enter_alternate_screen = (\<lambda>s. (Inr (), s\<lparr>is_alternate := True\<rparr>)),
      terminal_new = (\<lambda>s. (if fails then Inl 5 else Inr (), s)),
      disable_raw_mode = (\<lambda>s. (Inr (), s\<lparr>is_raw := False\<rparr>)),
      leave_alternate_screen = (\<lambda>s. (Inr (), s\<lparr>is_alternate := False\<rparr>)),
      show_cursor = (\<lambda>s. (Inr (), s\<lparr>is_hidden := False\<rparr>)),
      draw_frame = (\<lambda>_ s. (Inr (), s\<lparr>is_hidden := True\<rparr>)),
      poll_event = (\<lambda>s. (Inr True, s)),
      read_event = (\<lambda>s. case keys s of [] \<Rightarrow> (Inl 7, s) | k # ks \<Rightarrow>
        (Inr (if k = KeyChar (of_char (CHR ''r'')) then OtherUiEvent else KeyPress k), s\<lparr>keys := ks\<rparr>))\<rparr>"

definition demo_view :: "nat ViewFloats" where
  "demo_view = \<lparr>DROP_RATE_STEP = 1, show_percent = decimal, show_seconds = show_u64,
     show_event_time = show_u64, show_clock_time = show_u64, show_clock_step = show_u64\<rparr>"

definition fresh_screen :: "KeyCode list \<Rightarrow> Screen" where
  "fresh_screen ks = \<lparr>is_raw = False, is_alternate = False, is_hidden = False, keys = ks\<rparr>"

lemma demo_tty_ok: "tty_ok is_raw is_alternate is_hidden (demo_tty fails)"
  by (auto simp: tty_ok_def demo_tty_def)

lemma demo_tty_no_r: "never_reads_r (demo_tty fails)"
  by (auto simp: never_reads_r_def demo_tty_def split: list.splits)

lemmas session_simps = run_ui_def set_up_def tear_down_def ui_frame_def demo_tty_def fresh_screen_def decode_def
  normal_char_def app_default_def

text \<open>The user toggles the pause and quits; a read fails; setting up fails.\<close>

lemma demo_sessions:
  fixes cl :: "(nat, unit) Cluster"
  shows "run_ui Debug demo_view (demo_tty False) (\<lambda>_ c. c) (fresh_screen [KeyChar 112, KeyChar 113]) cl =
      Some (Inr (Inr (), fresh_screen [], cl\<lparr>clock := (clock cl)\<lparr>paused := \<not> paused (clock cl)\<rparr>\<rparr>))"
    and "run_ui Debug demo_view (demo_tty False) (\<lambda>_ c. c) (fresh_screen []) cl = Some (Inr (Inl 7, fresh_screen [], cl))"
    and "run_ui Debug demo_view (demo_tty True) (\<lambda>_ c. c) (fresh_screen []) cl =
      Some (Inr (Inl 5, (fresh_screen [])\<lparr>is_raw := True, is_alternate := True\<rparr>, cl))"
  by (simp_all add: session_simps ui_loop.simps controls clock_pause_def clock_resume_def)

theorem terminal_restored_witness:
  "\<exists>(cl :: (nat, unit) Cluster) res t'. run_ui Debug demo_view (demo_tty False) (\<lambda>_ c. c) (fresh_screen []) cl = Some (Inr (res, t', cl)) \<and>
     res = Inl 7 \<and> \<not> is_raw t'"
proof -
  fix cl :: "(nat, unit) Cluster"
  note run = demo_sessions(2) [of cl]
  from terminal_restored [OF demo_tty_ok run] have "\<not> is_raw (fresh_screen [])"
    by (auto simp: set_up_def tear_down_def demo_tty_def fresh_screen_def)
  with run show ?thesis by blast
qed

text \<open>Before the user quits, node 1 is elected.\<close>

definition five_elect :: "nat SimEvent list" where
  "five_elect = [Begins 1 (\<lambda>_. 0), Begins 2 (\<lambda>_. 0), Begins 3 (\<lambda>_. 0), Fires 1 0, Turn 1 Timer (\<lambda>_. 0) (\<lambda>_. 0),
     Turn 2 Peer (\<lambda>_. 0) (\<lambda>_. 0), Turn 3 Peer (\<lambda>_. 0) (\<lambda>_. 0), Turn 1 Peer (\<lambda>_. 0) (\<lambda>_. 0), Turn 1 Peer (\<lambda>_. 0) (\<lambda>_. 0)]"

definition elect_meanwhile :: "Screen \<Rightarrow> (nat, unit) Cluster \<Rightarrow> (nat, unit) Cluster" where
  "elect_meanwhile t cl = (case simulate Debug (Floats.truncate demo_view) five_elect cl of Some cl' \<Rightarrow> cl' | None \<Rightarrow> cl)"

lemma elect_meanwhile_tasks: "tasks_only (Floats.truncate demo_view) elect_meanwhile"
  unfolding tasks_only_def
proof (intro allI)
  fix t cl
  show "\<exists>es. simulate Debug (Floats.truncate demo_view) es cl = Some (elect_meanwhile t cl) \<and> (\<forall>e \<in> set es. \<not> by_user e)"
  proof (cases "simulate Debug (Floats.truncate demo_view) five_elect cl")
    case None
    then show ?thesis by (intro exI [of _ "[]"]) (simp add: elect_meanwhile_def)
  next
    case (Some cl')
    then show ?thesis by (intro exI [of _ five_elect]) (simp add: elect_meanwhile_def five_elect_def)
  qed
qed

lemma demo_quits:
  "run_ui Debug demo_view (demo_tty False) elect_meanwhile (fresh_screen [KeyChar 113]) cl =
     Some (Inr (Inr (), fresh_screen [], elect_meanwhile (fresh_screen []) cl))"
  by (simp add: session_simps ui_loop.simps elect_meanwhile_def)

lemma five_elect_run:
  "\<exists>(cl0 :: (nat, unit) Cluster) cl n. start_cluster Debug = Inr cl0 \<and>
     simulate Debug (Floats.truncate demo_view) five_elect cl0 = Some cl \<and> running cl 1 = Some n \<and> role (raft n) = Leader"
  by (simp add: start_cluster_def sim_node_ids_def sim_config_def five_elect_def start_simps sim_simps runtime_simps
      run_simps)

theorem session_keeps_election_safety_witness:
  "\<exists>(cl :: (nat, unit) Cluster) n.
     async_main Debug demo_view (demo_tty False) elect_meanwhile (fresh_screen [KeyChar 113]) =
       Some (Inr (Inr (), fresh_screen [], cl)) \<and>
     running cl 1 = Some n \<and> role (raft n) = Leader \<and>
     (\<forall>j m. running cl j = Some m \<longrightarrow> role (raft m) = Leader \<longrightarrow> cterm (raft m) = cterm (raft n) \<longrightarrow> j = 1)"
proof -
  obtain cl0 cl :: "(nat, unit) Cluster" and n where r: "start_cluster Debug = Inr cl0"
      "simulate Debug (Floats.truncate demo_view) five_elect cl0 = Some cl" "running cl 1 = Some n" "role (raft n) = Leader"
    using five_elect_run by blast
  then have main: "async_main Debug demo_view (demo_tty False) elect_meanwhile (fresh_screen [KeyChar 113]) =
      Some (Inr (Inr (), fresh_screen [], cl))"
    by (simp add: async_main_def demo_quits elect_meanwhile_def)
  from session_keeps_election_safety [OF main elect_meanwhile_tasks] demo_tty_no_r
  have "\<forall>i j m n. running cl i = Some m \<longrightarrow> running cl j = Some n \<longrightarrow>
      role (raft m) = Leader \<longrightarrow> role (raft n) = Leader \<longrightarrow> cterm (raft m) = cterm (raft n) \<longrightarrow> i = j" by blast
  with main r(3,4) show ?thesis by blast
qed

end
