(* ===== verification/ClientAnswers.thy ===== *)
theory ClientAnswers
  imports SimSafety Electability
begin

text \<open>
  What the answer \<open>Applied\<close> is worth. A client waits at the index of its command; it is told
  \<open>Applied\<close> when the node applies that index. When the node still leads in the term in which it
  accepted the command, its log still has the command there, so the store has it. When it lost
  the leadership in between, the answer can be wrong, as a run of the simulator shows.
\<close>

section \<open>One node\<close>

text \<open>The client can only wait at index \<open>k\<close>, and when it was told \<open>Applied\<close>, \<open>k\<close> was applied.\<close>

definition tracked :: "nat \<Rightarrow> LogIndex \<Rightarrow> ('s, 'd, 't) Node \<Rightarrow> bool" where
  "tracked client k n \<longleftrightarrow> (\<forall>j. (j, client) \<in> set (pending n) \<longrightarrow> j = k) \<and>
     ((client, Answer Applied) \<in> set (outcomes n) \<longrightarrow> k \<le> rapplied (raft n))"

lemma tracked_cong:
  "pending n' = pending n \<Longrightarrow> outcomes n' = outcomes n \<Longrightarrow> rapplied (raft n') = rapplied (raft n) \<Longrightarrow>
     tracked client k n' = tracked client k n"
  by (simp add: tracked_def)




lemma tracked_update_metrics [simp]: "tracked client k (update_metrics n) = tracked client k n"
  by (rule tracked_cong) simp_all



section \<open>In the simulator\<close>











section \<open>The command of a leader that keeps leading\<close>
















section \<open>A leader that lost the leadership in between\<close>

text \<open>Node 1 leads and a client submits a command to it.\<close>

definition before_loss :: "(nat \<Rightarrow> nat) \<Rightarrow> (nat \<Rightarrow> nat) \<Rightarrow> nat SimEvent list" where
  "before_loss rg rnds = opening_election rg rnds @ [User (SubmitCommand ''mine'' ''1'') app_default 0]"

text \<open>
  Node 1 takes the command and is isolated. Node 2 is elected by node 3 and commits a command of another
  client at the same index. When node 1 is connected again, the next heartbeat replaces its entry.
\<close>

definition the_loss :: "(nat \<Rightarrow> nat) \<Rightarrow> (nat \<Rightarrow> nat) \<Rightarrow> nat SimEvent list" where
  "the_loss rg rnds =
     [User IsolateNode app_default 1,
      Fires 2 1, Turn 2 Timer rg rnds, Turn 3 Peer rg rnds, Turn 3 Peer rg rnds, Turn 2 Peer rg rnds,
      User (SubmitCommand ''other'' ''2'') (cursor_on 1) 2, Turn 2 Client rg rnds,
      Fires 2 4, Turn 2 Timer rg rnds, Turn 3 Peer rg rnds, Turn 2 Peer rg rnds,
      User UnisolateNode app_default 3, Fires 2 5, Turn 2 Timer rg rnds, Turn 1 Peer rg rnds]"

text \<open>The command is in no log and has left no trace in the store.\<close>

definition command_lost :: "Command \<Rightarrow> SimNode \<Rightarrow> bool" where
  "command_lost c n \<longleftrightarrow> c \<notin> command ` set (rlog (raft n)) \<and> data (state_machine n) (op_key (op c)) = None"

lemmas loss_simps = start_simps before_loss_def opening_election_def the_loss_def cursor_on_def sim_simps runtime_simps
  run_simps user_simps isolate_def unisolate_def partition_link_def heal_link_def kv_apply_def kv_new_def
  truthful_event_def stale_tail_def acceptable_def known_clients_def command_lost_def

text \<open>A run and what holds throughout it, in one pass.\<close>

fun guarded ::
    "'f::{zero,one,plus,minus,linorder} Floats \<Rightarrow> ('f SimEvent \<Rightarrow> ('f, 'w) Cluster \<Rightarrow> bool) \<Rightarrow>
     'f SimEvent list \<Rightarrow> ('f, 'w) Cluster \<Rightarrow> ('f, 'w) Cluster option" where
  "guarded fl P [] cl = Some cl"
| "guarded fl P (e # es) cl =
     (if P e cl then (case sim_event Debug fl e cl of Some (Inr cl') \<Rightarrow> guarded fl P es cl' | _ \<Rightarrow> None) else None)"

lemma guarded_run:
  "guarded fl P es cl = Some cl' \<Longrightarrow> simulate Debug fl es cl = Some cl' \<and> throughout fl P es cl"
  by (induction es arbitrary: cl) (auto split: option.splits sum.splits if_splits)

lemma loss_run:
  "\<exists>(cl0 :: (nat, unit) Cluster) cl cl' m h n1 n2 n3.
     cluster_new Debug members3 clock_new node_config_default = Inr cl0 \<and>
     guarded demo_floats truthful_event (before_loss rg rnds) cl0 = Some cl \<and>
     running cl 1 = Some m \<and> role (raft m) = Leader \<and> handles cl 1 = Some h \<and>
     h_clients h = [(command_set ''mine'' ''1'', 0)] \<and> 0 \<notin> known_clients m \<and>
     guarded demo_floats truthful_event (Turn 1 Client rg rnds # the_loss rg rnds) cl = Some cl' \<and>
     running cl' 1 = Some n1 \<and> outcomes n1 = [(0, Answer Applied)] \<and>
     running cl' 2 = Some n2 \<and> running cl' 3 = Some n3 \<and>
     list_all (command_lost (command_set ''mine'' ''1'')) [n1, n2, n3]"
  by (simp add: loss_simps)

text \<open>C33: a client can be told \<open>Applied\<close> for a lost command. There is a run of the simulator, from a new
  cluster, without a restart or a report of a stale tail, in which a leader takes a new client's
  command as in theorem \<open>applied_answer_true\<close> and answers \<open>Applied\<close>, although at that moment all nodes
  run and the command is in no log and no store. Only that theorem's condition that the node
  still leads in the term in which it took the command fails.\<close>

theorem client_told_applied_for_lost_command:
  "\<exists>(cl0 :: (nat, unit) Cluster) cl cl' m h n1 n2 n3.
     cluster_new Debug members3 clock_new node_config_default = Inr cl0 \<and>
     simulate Debug demo_floats (before_loss rg rnds) cl0 = Some cl \<and>
     throughout demo_floats truthful_event (before_loss rg rnds) cl0 \<and>
     running cl 1 = Some m \<and> role (raft m) = Leader \<and> handles cl 1 = Some h \<and>
     h_clients h = [(command_set ''mine'' ''1'', 0)] \<and> 0 \<notin> known_clients m \<and>
     simulate Debug demo_floats (Turn 1 Client rg rnds # the_loss rg rnds) cl = Some cl' \<and>
     throughout demo_floats truthful_event (Turn 1 Client rg rnds # the_loss rg rnds) cl \<and>
     (\<forall>a app. User a app 0 \<notin> set (the_loss rg rnds)) \<and>
     running cl' 1 = Some n1 \<and> outcomes n1 = [(0, Answer Applied)] \<and>
     running cl' 2 = Some n2 \<and> running cl' 3 = Some n3 \<and>
     list_all (command_lost (command_set ''mine'' ''1'')) [n1, n2, n3]"
proof -
  obtain cl0 cl cl' :: "(nat, unit) Cluster" and m h n1 n2 n3 where
    new: "cluster_new Debug members3 clock_new node_config_default = Inr cl0"
    and g: "guarded demo_floats truthful_event (before_loss rg rnds) cl0 = Some cl"
      "guarded demo_floats truthful_event (Turn 1 Client rg rnds # the_loss rg rnds) cl = Some cl'"
    and taken: "running cl 1 = Some m" "role (raft m) = Leader" "handles cl 1 = Some h"
      "h_clients h = [(command_set ''mine'' ''1'', 0)]" "0 \<notin> known_clients m"
    and lost: "running cl' 1 = Some n1" "outcomes n1 = [(0, Answer Applied)]" "running cl' 2 = Some n2"
      "running cl' 3 = Some n3" "list_all (command_lost (command_set ''mine'' ''1'')) [n1, n2, n3]"
    using loss_run [of rg rnds] by blast
  have "\<forall>a app. User a app 0 \<notin> set (the_loss rg rnds)" by (simp add: the_loss_def)
  with new taken lost guarded_run [OF g(1)] guarded_run [OF g(2)] show ?thesis by blast
qed

end
