(* ===== verification/TestSupport.thy ===== *)
theory TestSupport
  imports RaftSystem
begin

text \<open>
  The unit tests of \<open>raft-core\<close> as evaluations of the model: the helper functions that the test
  modules share. A test is a boolean with the name it has in the code; the assignments to fields
  that set up a node are the update functions below. Tests run in a debug build. A panic in the
  code under test fails the test.
\<close>

named_theorems unit_tests \<open>the unit tests and their helpers\<close>

definition passes :: "panic + Raft \<times> Action list \<Rightarrow> (Raft \<Rightarrow> Action list \<Rightarrow> bool) \<Rightarrow> bool" where [unit_tests]:
  "passes x P = (case x of Inl _ \<Rightarrow> False | Inr (raft, actions) \<Rightarrow> P raft actions)"

section \<open>Setting up a node\<close>

text \<open>\<open>Raft::new\<close> does not panic in a test: no test lists a node among its own peers.\<close>

definition new_raft :: "NodeId \<Rightarrow> NodeId list \<Rightarrow> Raft" where [unit_tests]:
  "new_raft i ps = raft_init i ps"

lemma new_raft_ok: "i \<notin> set ps \<Longrightarrow> raft_new Debug i ps = Inr (new_raft i ps)"
  by (simp add: new_raft_def)

definition make_leader :: "NodeId \<Rightarrow> NodeId list \<Rightarrow> Raft" where [unit_tests]:
  "make_leader i ps = (new_raft i ps)\<lparr>role := Leader,
     leader_state := Some \<lparr>next_index = replicate (length ps) 1, match_index = replicate (length ps) 0\<rparr>\<rparr>"

definition create_log_entry :: "u64 \<Rightarrow> u64 \<Rightarrow> LogEntry" where [unit_tests]:
  "create_log_entry i t = \<lparr>entry_term = t, index = i, command = command_default\<rparr>"

definition push_entry :: "u64 \<Rightarrow> u64 \<Rightarrow> Raft \<Rightarrow> Raft" where [unit_tests]:
  "push_entry i t r = r\<lparr>persistent := (persistent r)\<lparr>log := rlog r @ [create_log_entry i t]\<rparr>\<rparr>"

definition with_role :: "Role \<Rightarrow> Raft \<Rightarrow> Raft" where [unit_tests]:
  "with_role x r = r\<lparr>role := x\<rparr>"

definition with_term :: "Term \<Rightarrow> Raft \<Rightarrow> Raft" where [unit_tests]:
  "with_term t r = r\<lparr>persistent := (persistent r)\<lparr>current_term := t\<rparr>\<rparr>"

definition with_vote :: "NodeId \<Rightarrow> Raft \<Rightarrow> Raft" where [unit_tests]:
  "with_vote v r = r\<lparr>persistent := (persistent r)\<lparr>voted_for := Some v\<rparr>\<rparr>"

definition with_known_leader :: "NodeId option \<Rightarrow> Raft \<Rightarrow> Raft" where [unit_tests]:
  "with_known_leader l r = r\<lparr>known_leader := l\<rparr>"

definition with_commit_index :: "LogIndex \<Rightarrow> Raft \<Rightarrow> Raft" where [unit_tests]:
  "with_commit_index i r = r\<lparr>volatile := (volatile r)\<lparr>commit_index := i\<rparr>\<rparr>"

definition with_last_applied :: "LogIndex \<Rightarrow> Raft \<Rightarrow> Raft" where [unit_tests]:
  "with_last_applied i r = r\<lparr>volatile := (volatile r)\<lparr>last_applied := i\<rparr>\<rparr>"

definition with_candidate_state :: "NodeId list \<Rightarrow> NodeId list \<Rightarrow> Raft \<Rightarrow> Raft" where [unit_tests]:
  "with_candidate_state received granted r =
     r\<lparr>candidate_state := Some \<lparr>votes_received = set received, votes_granted = set granted\<rparr>\<rparr>"

definition with_next_index :: "nat \<Rightarrow> LogIndex \<Rightarrow> Raft \<Rightarrow> Raft" where [unit_tests]:
  "with_next_index k i r = r\<lparr>leader_state :=
     map_option (\<lambda>ls. ls\<lparr>next_index := (next_index ls)[k := i]\<rparr>) (leader_state r)\<rparr>"

definition with_match_index :: "nat \<Rightarrow> LogIndex \<Rightarrow> Raft \<Rightarrow> Raft" where [unit_tests]:
  "with_match_index k i r = r\<lparr>leader_state :=
     map_option (\<lambda>ls. ls\<lparr>match_index := (match_index ls)[k := i]\<rparr>) (leader_state r)\<rparr>"

section \<open>Looking at the actions\<close>

definition count_actions :: "Action list \<Rightarrow> (Action \<Rightarrow> bool) \<Rightarrow> nat" where [unit_tests]:
  "count_actions actions f = length (filter f actions)"

fun is_request_vote :: "Action \<Rightarrow> bool" where
  "is_request_vote (Send _ (MRequestVote _)) = True"
| "is_request_vote _ = False"

fun is_vote_response :: "Action \<Rightarrow> bool" where
  "is_vote_response (Send _ (MRequestVoteResponse _)) = True"
| "is_vote_response _ = False"

fun is_append_entries :: "Action \<Rightarrow> bool" where
  "is_append_entries (Send _ (MAppendEntries _)) = True"
| "is_append_entries _ = False"

fun is_append_entries_response :: "Action \<Rightarrow> bool" where
  "is_append_entries_response (Send _ (MAppendEntriesResponse _)) = True"
| "is_append_entries_response _ = False"

fun is_send :: "Action \<Rightarrow> bool" where
  "is_send (Send _ _) = True"
| "is_send _ = False"

fun is_apply :: "Action \<Rightarrow> bool" where
  "is_apply (ApplyCommand _) = True"
| "is_apply _ = False"

fun is_not_leader :: "Action \<Rightarrow> bool" where
  "is_not_leader (NotLeader _) = True"
| "is_not_leader _ = False"

text \<open>The votes asked for and the \<open>AppendEntries\<close> sent, with their receivers, in order.\<close>

definition vote_requests :: "Action list \<Rightarrow> (NodeId \<times> RequestVote) list" where [unit_tests]:
  "vote_requests actions = List.map_filter
     (\<lambda>a. case a of Send i (MRequestVote v) \<Rightarrow> Some (i, v) | _ \<Rightarrow> None) actions"

definition append_entries :: "Action list \<Rightarrow> (NodeId \<times> AppendEntries) list" where [unit_tests]:
  "append_entries actions = List.map_filter
     (\<lambda>a. case a of Send i (MAppendEntries m) \<Rightarrow> Some (i, m) | _ \<Rightarrow> None) actions"

definition append_entry_targets :: "Action list \<Rightarrow> NodeId list" where [unit_tests]:
  "append_entry_targets actions = map fst (append_entries actions)"

text \<open>The first of its kind, on which a test asserts; a test fails when there is none.\<close>

definition find_vote_response :: "Action list \<Rightarrow> (RequestVoteResponse \<Rightarrow> bool) \<Rightarrow> bool" where [unit_tests]:
  "find_vote_response actions P = (case List.map_filter
     (\<lambda>a. case a of Send _ (MRequestVoteResponse v) \<Rightarrow> Some v | _ \<Rightarrow> None) actions of
       [] \<Rightarrow> False | v # _ \<Rightarrow> P v)"

definition find_append_entries_response ::
    "Action list \<Rightarrow> (AppendEntriesResponse \<Rightarrow> bool) \<Rightarrow> bool" where [unit_tests]:
  "find_append_entries_response actions P = (case List.map_filter
     (\<lambda>a. case a of Send _ (MAppendEntriesResponse m) \<Rightarrow> Some m | _ \<Rightarrow> None) actions of
       [] \<Rightarrow> False | m # _ \<Rightarrow> P m)"

definition find_append_entries :: "Action list \<Rightarrow> NodeId \<Rightarrow> (AppendEntries \<Rightarrow> bool) \<Rightarrow> bool" where [unit_tests]:
  "find_append_entries actions peer P =
     (case filter (\<lambda>(i, _). i = peer) (append_entries actions) of [] \<Rightarrow> False | (_, m) # _ \<Rightarrow> P m)"

definition has_reset_timer :: "Action list \<Rightarrow> bool" where [unit_tests]:
  "has_reset_timer actions = list_ex (\<lambda>a. a = ResetElectionTimer) actions"

lemmas test_simps = run_simps map_filter_simps raft_step_def handle_message_def command_default_def

end
