(* ===== verification/VoteTests.thy ===== *)
theory VoteTests
  imports TestSupport
begin

text \<open>The unit tests of \<open>raft-core/src/raft/vote.rs\<close>.\<close>

section \<open>Helpers\<close>

definition vote_request :: "u64 \<Rightarrow> NodeId \<Rightarrow> u64 \<Rightarrow> u64 \<Rightarrow> RequestVote" where [unit_tests]:
  "vote_request t candidate i lt =
     \<lparr>rv_term = t, candidate_id = candidate, rv_last_log_index = i, rv_last_log_term = lt\<rparr>"

definition vote_resp :: "u64 \<Rightarrow> NodeId \<Rightarrow> bool \<Rightarrow> RequestVoteResponse" where [unit_tests]:
  "vote_resp t from granted = \<lparr>rvr_term = t, vote_granted = granted, vote_from = from\<rparr>"

definition grant :: "Action list \<Rightarrow> bool" where [unit_tests]:
  "grant actions = list_ex
     (\<lambda>a. case a of Send _ (MRequestVoteResponse v) \<Rightarrow> vote_granted v | _ \<Rightarrow> False) actions"

section \<open>\<open>handle_request_vote\<close>\<close>

definition reject_stale_candidate_term :: bool where [unit_tests]:
  "reject_stale_candidate_term =
     (let raft = with_term 5 (new_raft 1 [2, 3]);
          (raft, actions) = handle_request_vote raft (vote_request 4 2 0 0) in
      \<not> grant actions \<and> find_vote_response actions (\<lambda>v. rvr_term v = 5) \<and> \<not> has_reset_timer actions)"

definition higher_term_causes_step_down_before_vote :: bool where [unit_tests]:
  "higher_term_causes_step_down_before_vote =
     (let raft = with_vote 3 (with_role Leader (with_term 2 (new_raft 1 [2, 3])));
          (raft, _) = handle_request_vote raft (vote_request 5 2 0 0) in
      cterm raft = 5 \<and> role raft = Follower \<and> vote raft = Some 2)"

definition higher_term_vote_response_triggers_step_down_before_other_checks :: bool where [unit_tests]:
  "higher_term_vote_response_triggers_step_down_before_other_checks =
     (let raft = with_term 5 (with_role Candidate (new_raft 1 [2, 3])) in
      passes (handle_vote_response Debug raft \<lparr>rvr_term = 9, vote_granted = True, vote_from = 99\<rparr>)
        (\<lambda>raft actions. role raft = Follower \<and> cterm raft = 9 \<and> actions = []))"

definition reject_if_already_voted_for_different_candidate :: bool where [unit_tests]:
  "reject_if_already_voted_for_different_candidate =
     (let raft = with_vote 10 (with_term 3 (new_raft 1 [2, 3]));
          (raft, actions) = handle_request_vote raft (vote_request 3 2 0 0) in
      \<not> grant actions \<and> \<not> has_reset_timer actions)"

definition allow_same_candidate_to_retry_vote :: bool where [unit_tests]:
  "allow_same_candidate_to_retry_vote =
     (let raft = with_vote 2 (with_term 3 (new_raft 1 [2, 3]));
          (raft, actions) = handle_request_vote raft (vote_request 3 2 0 0) in
      grant actions \<and> has_reset_timer actions)"

definition reject_if_candidate_log_term_is_older :: bool where [unit_tests]:
  "reject_if_candidate_log_term_is_older =
     (let raft = push_entry 5 3 (new_raft 1 [2, 3]);
          (raft, actions) = handle_request_vote raft (vote_request 4 2 10 2) in
      \<not> grant actions)"

definition reject_if_same_log_term_but_shorter_log :: bool where [unit_tests]:
  "reject_if_same_log_term_but_shorter_log =
     (let raft = push_entry 10 3 (new_raft 1 [2, 3]);
          (raft, actions) = handle_request_vote raft (vote_request 4 2 5 3) in
      \<not> grant actions)"

definition accept_if_candidate_log_term_is_newer :: bool where [unit_tests]:
  "accept_if_candidate_log_term_is_newer =
     (let raft = push_entry 10 2 (new_raft 1 [2, 3]);
          (raft, actions) = handle_request_vote raft (vote_request 3 2 1 5) in
      grant actions)"

definition accept_if_same_log_term_and_longer_log :: bool where [unit_tests]:
  "accept_if_same_log_term_and_longer_log =
     (let raft = push_entry 5 3 (new_raft 1 [2, 3]);
          (raft, actions) = handle_request_vote raft (vote_request 4 2 10 3) in
      grant actions)"

definition accept_if_logs_identical :: bool where [unit_tests]:
  "accept_if_logs_identical =
     (let raft = push_entry 5 3 (new_raft 1 [2, 3]);
          (raft, actions) = handle_request_vote raft (vote_request 4 2 5 3) in
      grant actions)"

definition accept_if_follower_log_empty :: bool where [unit_tests]:
  "accept_if_follower_log_empty =
     (let raft = new_raft 1 [2, 3];
          (raft, actions) = handle_request_vote raft (vote_request 1 2 0 0) in
      grant actions)"

definition log_term_takes_priority_over_log_length :: bool where [unit_tests]:
  "log_term_takes_priority_over_log_length =
     (let raft = push_entry 100 9 (new_raft 1 [2, 3]);
          (raft, actions) = handle_request_vote raft (vote_request 11 2 5 10) in
      grant actions)"

definition reject_if_same_index_but_older_term :: bool where [unit_tests]:
  "reject_if_same_index_but_older_term =
     (let raft = push_entry 10 5 (new_raft 1 [2, 3]);
          (raft, actions) = handle_request_vote raft (vote_request 6 2 10 4) in
      \<not> grant actions)"

definition never_vote_twice_in_same_term :: bool where [unit_tests]:
  "never_vote_twice_in_same_term =
     (let raft = with_term 4 (new_raft 1 [2, 3]);
          (raft, a1) = handle_request_vote raft (vote_request 4 2 0 0);
          (raft, a2) = handle_request_vote raft (vote_request 4 3 0 0) in
      grant a1 \<and> \<not> grant a2)"

definition higher_term_clears_previous_vote :: bool where [unit_tests]:
  "higher_term_clears_previous_vote =
     (let raft = with_vote 10 (with_term 3 (new_raft 1 [2, 3]));
          (raft, actions) = handle_request_vote raft (vote_request 4 2 0 0) in
      grant actions \<and> cterm raft = 4 \<and> vote raft = Some 2)"

definition timer_reset_only_on_vote_granted :: bool where [unit_tests]:
  "timer_reset_only_on_vote_granted =
     (let raft = with_vote 9 (new_raft 1 [2, 3]);
          (raft, actions) = handle_request_vote raft (vote_request 0 2 0 0) in
      \<not> has_reset_timer actions)"

section \<open>\<open>handle_vote_response\<close>\<close>

definition ignore_stale_vote_response :: bool where [unit_tests]:
  "ignore_stale_vote_response =
     (let raft = with_term 5 (new_raft 1 [2, 3]) in
      passes (handle_vote_response Debug raft (vote_resp 4 1 True)) (\<lambda>raft actions. actions = []))"

definition ignore_vote_response_when_not_candidate :: bool where [unit_tests]:
  "ignore_vote_response_when_not_candidate =
     (let raft = with_role Follower (new_raft 1 [2, 3]) in
      passes (handle_vote_response Debug raft (vote_resp 0 2 True)) (\<lambda>raft actions. actions = []))"

definition ignore_vote_from_unknown_peer :: bool where [unit_tests]:
  "ignore_vote_from_unknown_peer =
     (let raft = with_role Candidate (new_raft 1 [2, 3]) in
      passes (handle_vote_response Debug raft (vote_resp 0 99 True))
        (\<lambda>raft actions. actions = [] \<and> role raft = Candidate))"

definition become_leader_on_majority :: bool where [unit_tests]:
  "become_leader_on_majority =
     (let raft = with_candidate_state [1] [1] (with_term 1 (with_role Candidate (new_raft 1 [2, 3]))) in
      passes (handle_vote_response Debug raft (vote_resp 1 2 True))
        (\<lambda>raft actions. role raft = Leader \<and> actions \<noteq> [] \<and> hd actions = ResetHeartbeatTimer))"

definition continue_waiting_if_majority_not_reached :: bool where [unit_tests]:
  "continue_waiting_if_majority_not_reached =
     (let raft = with_candidate_state [1] [1] (with_term 3 (with_role Candidate (new_raft 1 [2, 3, 4, 5]))) in
      passes (handle_vote_response Debug raft (vote_resp 3 2 True))
        (\<lambda>raft actions. role raft = Candidate \<and> actions = []))"

definition step_down_on_higher_term_vote_response :: bool where [unit_tests]:
  "step_down_on_higher_term_vote_response =
     (let raft = with_term 5 (with_role Candidate (new_raft 1 [2, 3])) in
      passes (handle_vote_response Debug raft (vote_resp 6 2 True))
        (\<lambda>raft actions. role raft = Follower \<and> cterm raft = 6 \<and> vote raft = None \<and>
           candidate_state raft = None \<and> actions = []))"

definition duplicate_vote_response_is_ignored :: bool where [unit_tests]:
  "duplicate_vote_response_is_ignored =
     (let raft = with_candidate_state [1, 2] [1] (with_role Candidate (new_raft 1 [2, 3])) in
      passes (handle_vote_response Debug raft (vote_resp 0 2 True))
        (\<lambda>raft actions. actions = [] \<and>
           (case candidate_state raft of None \<Rightarrow> False | Some cs \<Rightarrow> card (votes_granted cs) = 1)))"

definition rejected_vote_does_not_increase_granted_count :: bool where [unit_tests]:
  "rejected_vote_does_not_increase_granted_count =
     (let raft = with_candidate_state [1] [1] (with_role Candidate (new_raft 1 [2, 3, 4, 5])) in
      passes (handle_vote_response Debug raft (vote_resp 0 2 False))
        (\<lambda>raft actions.
           (case candidate_state raft of None \<Rightarrow> False | Some cs \<Rightarrow> card (votes_granted cs) = 1)))"

definition leader_transition_happens_only_once :: bool where [unit_tests]:
  "leader_transition_happens_only_once =
     (let raft = with_candidate_state [1, 2] [1, 2] (with_term 1 (with_role Candidate (new_raft 1 [2, 3, 4]))) in
      passes (handle_vote_response Debug raft (vote_resp 1 3 True)) (\<lambda>raft _. role raft = Leader \<and>
      passes (handle_vote_response Debug raft (vote_resp 1 4 True)) (\<lambda>raft actions. actions = [])))"

definition leader_state_initialized_correctly_on_win :: bool where [unit_tests]:
  "leader_state_initialized_correctly_on_win =
     (let raft = with_candidate_state [1] [1] (with_term 1 (with_role Candidate (new_raft 1 [2, 3]))) in
      passes (handle_vote_response Debug raft (vote_resp 1 2 True)) (\<lambda>raft _.
        case leader_state raft of None \<Rightarrow> False
        | Some ls \<Rightarrow> next_index ls = replicate (length (peers raft)) (last_log_index raft + 1) \<and>
            match_index ls = replicate (length (peers raft)) 0))"

definition quorum_correct_for_odd_and_even_clusters :: bool where [unit_tests]:
  "quorum_correct_for_odd_and_even_clusters =
     (quorum (new_raft 1 [2, 3, 4, 5]) = 3 \<and> quorum (new_raft 1 [2, 3, 4]) = 3 \<and>
      quorum (new_raft 1 [2, 3]) = 2 \<and> quorum (new_raft 1 [2]) = 2 \<and> quorum (new_raft 1 []) = 1)"

section \<open>They pass\<close>

definition vote_tests :: "bool list" where
  "vote_tests =
     [reject_stale_candidate_term, higher_term_causes_step_down_before_vote,
      higher_term_vote_response_triggers_step_down_before_other_checks,
      reject_if_already_voted_for_different_candidate, allow_same_candidate_to_retry_vote,
      reject_if_candidate_log_term_is_older, reject_if_same_log_term_but_shorter_log,
      accept_if_candidate_log_term_is_newer, accept_if_same_log_term_and_longer_log,
      accept_if_logs_identical, accept_if_follower_log_empty, log_term_takes_priority_over_log_length,
      reject_if_same_index_but_older_term, never_vote_twice_in_same_term, higher_term_clears_previous_vote,
      timer_reset_only_on_vote_granted, ignore_stale_vote_response, ignore_vote_response_when_not_candidate,
      ignore_vote_from_unknown_peer, become_leader_on_majority, continue_waiting_if_majority_not_reached,
      step_down_on_higher_term_vote_response, duplicate_vote_response_is_ignored,
      rejected_vote_does_not_increase_granted_count, leader_transition_happens_only_once,
      leader_state_initialized_correctly_on_win, quorum_correct_for_odd_and_even_clusters]"

lemma vote_tests_pass: "list_all id vote_tests"
  by (simp add: vote_tests_def unit_tests test_simps)

end
