(* ===== verification/AppendEntriesTests.thy ===== *)
theory AppendEntriesTests
  imports TestSupport
begin

text \<open>The unit tests of \<open>raft-core/src/raft/append_entries.rs\<close>.\<close>

section \<open>Helpers\<close>

definition create_append_entries ::
    "u64 \<Rightarrow> NodeId \<Rightarrow> u64 \<Rightarrow> u64 \<Rightarrow> LogEntry list \<Rightarrow> u64 \<Rightarrow> AppendEntries" where [unit_tests]:
  "create_append_entries t leader prev_index prev_term es commit =
     \<lparr>ae_term = t, leader_id = leader, prev_log_index = prev_index, prev_log_term = prev_term,
      entries = es, leader_commit = commit\<rparr>"

definition create_append_entries_response ::
    "u64 \<Rightarrow> NodeId \<Rightarrow> bool \<Rightarrow> u64 \<Rightarrow> AppendEntriesResponse" where [unit_tests]:
  "create_append_entries_response t from ok match =
     \<lparr>aer_term = t, success = ok, aer_from = from, aer_match_index = match\<rparr>"

definition response_success :: "Action list \<Rightarrow> bool" where [unit_tests]:
  "response_success actions = list_ex
     (\<lambda>a. case a of Send _ (MAppendEntriesResponse m) \<Rightarrow> success m | _ \<Rightarrow> False) actions"

section \<open>\<open>handle_append_entries\<close>: checks\<close>

definition reject_stale_leader_term :: bool where [unit_tests]:
  "reject_stale_leader_term =
     (let raft = with_term 5 (new_raft 1 [2, 3]);
          (raft, actions) = handle_append_entries raft (create_append_entries 4 1 0 0 [] 0) in
      \<not> response_success actions \<and> find_append_entries_response actions (\<lambda>m. aer_term m = 5) \<and>
      \<not> has_reset_timer actions)"

definition higher_term_causes_step_down_then_accepts :: bool where [unit_tests]:
  "higher_term_causes_step_down_then_accepts =
     (let raft = with_term 3 (with_role Leader (new_raft 1 [2, 3]));
          (raft, actions) = handle_append_entries raft (create_append_entries 5 2 0 0 [] 0) in
      cterm raft = 5 \<and> role raft = Follower \<and> response_success actions)"

definition candidate_steps_down_on_same_term_append_entries :: bool where [unit_tests]:
  "candidate_steps_down_on_same_term_append_entries =
     (let raft = with_term 3 (with_role Candidate (new_raft 1 [2, 3]));
          (raft, actions) = handle_append_entries raft (create_append_entries 3 2 0 0 [] 0) in
      role raft = Follower \<and> candidate_state raft = None \<and> response_success actions)"

definition reject_if_prev_log_entry_missing :: bool where [unit_tests]:
  "reject_if_prev_log_entry_missing =
     (let raft = new_raft 1 [2, 3];
          (raft, actions) = handle_append_entries raft (create_append_entries 1 2 5 1 [] 0) in
      \<not> response_success actions \<and> \<not> has_reset_timer actions)"

definition reject_if_prev_log_term_mismatch :: bool where [unit_tests]:
  "reject_if_prev_log_term_mismatch =
     (let raft = push_entry 1 2 (new_raft 1 [2, 3]);
          (raft, actions) = handle_append_entries raft (create_append_entries 4 2 1 3 [] 0) in
      \<not> response_success actions)"

definition accept_if_prev_log_matches :: bool where [unit_tests]:
  "accept_if_prev_log_matches =
     (let raft = push_entry 1 2 (new_raft 1 [2, 3]);
          (raft, actions) = handle_append_entries raft (create_append_entries 3 2 1 2 [] 0) in
      response_success actions \<and> has_reset_timer actions)"

definition accept_with_empty_log_and_zero_prev :: bool where [unit_tests]:
  "accept_with_empty_log_and_zero_prev =
     (let raft = new_raft 1 [2, 3];
          (raft, actions) = handle_append_entries raft (create_append_entries 1 2 0 0 [] 0) in
      response_success actions \<and> has_reset_timer actions)"

section \<open>\<open>handle_append_entries\<close>: the log\<close>

definition appends_new_entries_to_empty_log :: bool where [unit_tests]:
  "appends_new_entries_to_empty_log =
     (let raft = new_raft 1 [2, 3];
          (raft, _) = handle_append_entries raft (create_append_entries 1 2 0 0 [create_log_entry 1 1, create_log_entry 2 1] 0) in
      length (rlog raft) = 2 \<and> index (rlog raft ! 0) = 1 \<and> index (rlog raft ! 1) = 2)"

definition appends_entries_after_existing_log :: bool where [unit_tests]:
  "appends_entries_after_existing_log =
     (let raft = push_entry 2 1 (push_entry 1 1 (new_raft 1 [2, 3]));
          (raft, _) = handle_append_entries raft (create_append_entries 1 2 2 1 [create_log_entry 3 1, create_log_entry 4 1] 0) in
      length (rlog raft) = 4)"

definition skips_entries_already_in_log :: bool where [unit_tests]:
  "skips_entries_already_in_log =
     (let raft = push_entry 2 1 (push_entry 1 1 (new_raft 1 [2, 3]));
          (raft, _) = handle_append_entries raft (create_append_entries 1 2 0 0 [create_log_entry 1 1, create_log_entry 2 1] 0) in
      length (rlog raft) = 2)"

definition truncates_conflicting_suffix_and_appends :: bool where [unit_tests]:
  "truncates_conflicting_suffix_and_appends =
     (let raft = push_entry 3 1 (push_entry 2 1 (push_entry 1 1 (new_raft 1 [2, 3])));
          (raft, _) = handle_append_entries raft (create_append_entries 2 2 2 1 [create_log_entry 3 2, create_log_entry 4 2] 0) in
      length (rlog raft) = 4 \<and> entry_term (rlog raft ! 2) = 2 \<and> index (rlog raft ! 3) = 4)"

definition truncation_removes_all_entries_after_conflict_point :: bool where [unit_tests]:
  "truncation_removes_all_entries_after_conflict_point =
     (let raft = fold (\<lambda>i. push_entry i 1) [1, 2, 3, 4, 5] (new_raft 1 [2, 3]);
          (raft, _) = handle_append_entries raft (create_append_entries 2 2 1 1 [create_log_entry 2 2] 0) in
      length (rlog raft) = 2 \<and> entry_term (rlog raft ! 1) = 2)"

section \<open>\<open>handle_append_entries\<close>: commit index and timer\<close>

definition commit_index_advances_to_leader_commit_when_log_is_longer :: bool where [unit_tests]:
  "commit_index_advances_to_leader_commit_when_log_is_longer =
     (let raft = push_entry 3 1 (push_entry 2 1 (push_entry 1 1 (new_raft 1 [2, 3])));
          (raft, _) = handle_append_entries raft (create_append_entries 1 2 3 1 [] 2) in
      rcommit raft = 2)"

definition commit_index_capped_at_last_new_entry :: bool where [unit_tests]:
  "commit_index_capped_at_last_new_entry =
     (let raft = new_raft 1 [2, 3];
          (raft, _) = handle_append_entries raft (create_append_entries 1 2 0 0 [create_log_entry 1 1, create_log_entry 2 1] 5) in
      rcommit raft = 2)"

definition commit_index_does_not_go_backwards :: bool where [unit_tests]:
  "commit_index_does_not_go_backwards =
     (let raft = with_commit_index 2 (push_entry 2 1 (push_entry 1 1 (new_raft 1 [2, 3])));
          (raft, _) = handle_append_entries raft (create_append_entries 1 2 2 1 [] 1) in
      rcommit raft = 2)"

definition commit_index_not_advanced_when_leader_commit_is_zero :: bool where [unit_tests]:
  "commit_index_not_advanced_when_leader_commit_is_zero =
     (let raft = push_entry 1 1 (new_raft 1 [2, 3]);
          (raft, _) = handle_append_entries raft (create_append_entries 1 2 0 0 [create_log_entry 1 1] 0) in
      rcommit raft = 0)"

definition apply_actions_emitted_for_newly_committed_entries :: bool where [unit_tests]:
  "apply_actions_emitted_for_newly_committed_entries =
     (let raft = push_entry 2 1 (push_entry 1 1 (new_raft 1 [2, 3]));
          (raft, actions) = handle_append_entries raft (create_append_entries 1 2 2 1 [] 2) in
      count_actions actions is_apply = 2 \<and> rapplied raft = 2)"

definition no_apply_actions_when_nothing_newly_committed :: bool where [unit_tests]:
  "no_apply_actions_when_nothing_newly_committed =
     (let raft = with_last_applied 1 (with_commit_index 1 (push_entry 1 1 (new_raft 1 [2, 3])));
          (raft, actions) = handle_append_entries raft (create_append_entries 1 2 1 1 [] 1) in
      \<not> list_ex is_apply actions)"

definition election_timer_reset_on_success :: bool where [unit_tests]:
  "election_timer_reset_on_success =
     (let raft = new_raft 1 [2, 3];
          (raft, actions) = handle_append_entries raft (create_append_entries 1 2 0 0 [] 0) in
      has_reset_timer actions)"

definition no_election_timer_reset_on_rejection :: bool where [unit_tests]:
  "no_election_timer_reset_on_rejection =
     (let raft = with_term 5 (new_raft 1 [2, 3]);
          (raft, actions) = handle_append_entries raft (create_append_entries 3 2 0 0 [] 0) in
      \<not> has_reset_timer actions)"

section \<open>\<open>handle_append_entries_response\<close>: indices\<close>

definition step_down_on_higher_term_response :: bool where [unit_tests]:
  "step_down_on_higher_term_response =
     (let raft = with_term 4 (make_leader 1 [2, 3]) in
      passes (handle_append_entries_response Debug raft (create_append_entries_response 6 2 True 3))
        (\<lambda>raft actions. role raft = Follower \<and> cterm raft = 6 \<and> actions = []))"

definition ignore_stale_response :: bool where [unit_tests]:
  "ignore_stale_response =
     (let raft = with_term 5 (make_leader 1 [2, 3]) in
      passes (handle_append_entries_response Debug raft (create_append_entries_response 4 2 True 3))
        (\<lambda>raft actions. actions = [] \<and> role raft = Leader))"

definition ignore_if_not_leader :: bool where [unit_tests]:
  "ignore_if_not_leader =
     (let raft = with_role Follower (new_raft 1 [2, 3]) in
      passes (handle_append_entries_response Debug raft (create_append_entries_response 1 2 True 1))
        (\<lambda>raft actions. actions = []))"

definition ignore_response_from_unknown_peer :: bool where [unit_tests]:
  "ignore_response_from_unknown_peer =
     (let raft = make_leader 1 [2, 3] in
      passes (handle_append_entries_response Debug raft (create_append_entries_response 0 99 True 1))
        (\<lambda>raft actions. actions = []))"

definition failure_decrements_next_index :: bool where [unit_tests]:
  "failure_decrements_next_index =
     (let raft = with_next_index 0 5 (make_leader 1 [2, 3]) in
      passes (handle_append_entries_response Debug raft (create_append_entries_response 0 2 False 0))
        (\<lambda>raft _. case leader_state raft of None \<Rightarrow> False | Some ls \<Rightarrow> next_index ls ! 0 = 4))"

definition failure_does_not_decrement_next_index_below_one :: bool where [unit_tests]:
  "failure_does_not_decrement_next_index_below_one =
     (let raft = with_next_index 0 1 (make_leader 1 [2, 3]) in
      passes (handle_append_entries_response Debug raft (create_append_entries_response 0 2 False 0))
        (\<lambda>raft _. case leader_state raft of None \<Rightarrow> False | Some ls \<Rightarrow> next_index ls ! 0 = 1))"

definition failure_does_not_advance_match_index :: bool where [unit_tests]:
  "failure_does_not_advance_match_index =
     (let raft = with_match_index 0 0 (make_leader 1 [2, 3]) in
      passes (handle_append_entries_response Debug raft (create_append_entries_response 0 2 False 0))
        (\<lambda>raft _. case leader_state raft of None \<Rightarrow> False | Some ls \<Rightarrow> match_index ls ! 0 = 0))"

definition success_advances_next_and_match_index :: bool where [unit_tests]:
  "success_advances_next_and_match_index =
     (let raft = make_leader 1 [2, 3] in
      passes (handle_append_entries_response Debug raft (create_append_entries_response 0 2 True 4))
        (\<lambda>raft _. case leader_state raft of None \<Rightarrow> False | Some ls \<Rightarrow> match_index ls ! 0 = 4 \<and> next_index ls ! 0 = 5))"

definition success_does_not_go_backwards_on_duplicate_response :: bool where [unit_tests]:
  "success_does_not_go_backwards_on_duplicate_response =
     (let raft = with_next_index 0 6 (with_match_index 0 5 (make_leader 1 [2, 3])) in
      passes (handle_append_entries_response Debug raft (create_append_entries_response 0 2 True 3))
        (\<lambda>raft _. case leader_state raft of None \<Rightarrow> False | Some ls \<Rightarrow> match_index ls ! 0 = 5 \<and> next_index ls ! 0 = 6))"

section \<open>\<open>handle_append_entries_response\<close>: commit index\<close>

definition commit_index_advances_when_quorum_reached :: bool where [unit_tests]:
  "commit_index_advances_when_quorum_reached =
     (let raft = push_entry 2 1 (push_entry 1 1 (with_term 1 (make_leader 1 [2, 3]))) in
      passes (handle_append_entries_response Debug raft (create_append_entries_response 1 2 True 2))
        (\<lambda>raft _. rcommit raft = 2))"

definition commit_index_does_not_advance_without_quorum :: bool where [unit_tests]:
  "commit_index_does_not_advance_without_quorum =
     (let raft = push_entry 1 1 (with_term 1 (make_leader 1 [2, 3, 4, 5])) in
      passes (handle_append_entries_response Debug raft (create_append_entries_response 1 2 True 1))
        (\<lambda>raft _. rcommit raft = 0))"

definition commit_index_advances_only_for_current_term_entries :: bool where [unit_tests]:
  "commit_index_advances_only_for_current_term_entries =
     (let raft = push_entry 2 1 (push_entry 1 1 (with_term 3 (make_leader 1 [2, 3]))) in
      passes (handle_append_entries_response Debug raft (create_append_entries_response 3 2 True 2))
        (\<lambda>raft _. rcommit raft = 0))"

definition old_term_entries_committed_indirectly_via_current_term_entry :: bool where [unit_tests]:
  "old_term_entries_committed_indirectly_via_current_term_entry =
     (let raft = push_entry 2 3 (push_entry 1 1 (with_term 3 (make_leader 1 [2, 3]))) in
      passes (handle_append_entries_response Debug raft (create_append_entries_response 3 2 True 2))
        (\<lambda>raft _. rcommit raft = 2))"

definition apply_actions_emitted_after_commit_index_advances :: bool where [unit_tests]:
  "apply_actions_emitted_after_commit_index_advances =
     (let raft = push_entry 2 1 (push_entry 1 1 (with_term 1 (make_leader 1 [2, 3]))) in
      passes (handle_append_entries_response Debug raft (create_append_entries_response 1 2 True 2))
        (\<lambda>raft actions. count_actions actions is_apply = 2 \<and> rapplied raft = 2))"

definition no_apply_actions_when_commit_index_unchanged :: bool where [unit_tests]:
  "no_apply_actions_when_commit_index_unchanged =
     (let raft = push_entry 1 1 (with_term 1 (make_leader 1 [2, 3, 4, 5])) in
      passes (handle_append_entries_response Debug raft (create_append_entries_response 1 2 True 1))
        (\<lambda>raft actions. \<not> list_ex is_apply actions))"

definition multiple_peers_confirming_same_index_does_not_double_apply :: bool where [unit_tests]:
  "multiple_peers_confirming_same_index_does_not_double_apply =
     (let raft = push_entry 1 1 (with_term 1 (make_leader 1 [2, 3])) in
      passes (handle_append_entries_response Debug raft (create_append_entries_response 1 2 True 1)) (\<lambda>raft _.
      passes (handle_append_entries_response Debug raft (create_append_entries_response 1 3 True 1))
        (\<lambda>raft actions. count_actions actions is_apply = 0)))"

section \<open>They pass\<close>

definition append_entries_tests :: "bool list" where
  "append_entries_tests =
     [reject_stale_leader_term, higher_term_causes_step_down_then_accepts,
      candidate_steps_down_on_same_term_append_entries, reject_if_prev_log_entry_missing,
      reject_if_prev_log_term_mismatch, accept_if_prev_log_matches,
      accept_with_empty_log_and_zero_prev, appends_new_entries_to_empty_log,
      appends_entries_after_existing_log, skips_entries_already_in_log,
      truncates_conflicting_suffix_and_appends,
      truncation_removes_all_entries_after_conflict_point,
      commit_index_advances_to_leader_commit_when_log_is_longer,
      commit_index_capped_at_last_new_entry, commit_index_does_not_go_backwards,
      commit_index_not_advanced_when_leader_commit_is_zero,
      apply_actions_emitted_for_newly_committed_entries,
      no_apply_actions_when_nothing_newly_committed, election_timer_reset_on_success,
      no_election_timer_reset_on_rejection, step_down_on_higher_term_response,
      ignore_stale_response, ignore_if_not_leader, ignore_response_from_unknown_peer,
      failure_decrements_next_index, failure_does_not_decrement_next_index_below_one,
      failure_does_not_advance_match_index, success_advances_next_and_match_index,
      success_does_not_go_backwards_on_duplicate_response,
      commit_index_advances_when_quorum_reached, commit_index_does_not_advance_without_quorum,
      commit_index_advances_only_for_current_term_entries,
      old_term_entries_committed_indirectly_via_current_term_entry,
      apply_actions_emitted_after_commit_index_advances,
      no_apply_actions_when_commit_index_unchanged,
      multiple_peers_confirming_same_index_does_not_double_apply]"

lemma append_entries_tests_pass: "list_all id append_entries_tests"
  by (simp add: append_entries_tests_def unit_tests test_simps)

end
