(* ===== verification/ElectionTests.thy ===== *)
theory ElectionTests
  imports TestSupport
begin

text \<open>The unit tests of \<open>raft-core/src/raft/election.rs\<close>.\<close>

section \<open>\<open>handle_election_timeout\<close>\<close>

definition election_timeout_promotes_follower_to_candidate_and_sends_votes :: bool where [unit_tests]:
  "election_timeout_promotes_follower_to_candidate_and_sends_votes =
     (let raft = new_raft 1 [2, 3] in
      role raft = Follower \<and> cterm raft = 0 \<and> vote raft = None \<and>
      passes (handle_election_timeout Debug raft)
        (\<lambda>raft actions. role raft = Candidate \<and> cterm raft = 1 \<and> vote raft = Some (raft_id raft) \<and>
           has_reset_timer actions \<and>
           list_all (\<lambda>peer. list_ex (\<lambda>(i, v). i = peer \<and> candidate_id v = raft_id raft \<and>
             rv_term v = cterm raft) (vote_requests actions)) (peers raft) \<and>
           count_actions actions is_request_vote = length (peers raft)))"

definition election_timeout_with_empty_log_sends_zero_indices :: bool where [unit_tests]:
  "election_timeout_with_empty_log_sends_zero_indices =
     (let raft = (new_raft 1 [2, 3])\<lparr>persistent := (persistent (new_raft 1 [2, 3]))\<lparr>log := []\<rparr>\<rparr> in
      passes (handle_election_timeout Debug raft)
        (\<lambda>_ actions. list_all (\<lambda>(_, v). rv_last_log_index v = 0 \<and> rv_last_log_term v = 0)
           (vote_requests actions)))"

definition election_timeout_for_candidate_increments_term :: bool where [unit_tests]:
  "election_timeout_for_candidate_increments_term =
     (let raft = with_term 5 (with_role Candidate (new_raft 1 [2, 3])) in
      passes (handle_election_timeout Debug raft)
        (\<lambda>raft actions. role raft = Candidate \<and> cterm raft = 6 \<and> vote raft = Some (raft_id raft) \<and>
           count_actions actions is_request_vote = 2))"

definition election_timeout_does_nothing_if_leader :: bool where [unit_tests]:
  "election_timeout_does_nothing_if_leader =
     (let raft = with_term 3 (with_role Leader (new_raft 1 [2, 3])) in
      passes (handle_election_timeout Debug raft)
        (\<lambda>raft actions. role raft = Leader \<and> cterm raft = 3 \<and> vote raft = None \<and> actions = []))"

definition election_timeout_sends_vote_to_all_peers :: bool where [unit_tests]:
  "election_timeout_sends_vote_to_all_peers =
     (let raft = new_raft 1 [2, 3, 4, 5] in
      passes (handle_election_timeout Debug raft)
        (\<lambda>raft actions. let voted_peers = map fst (vote_requests actions) in
           length voted_peers = 4 \<and> 1 \<notin> set voted_peers \<and>
           list_all (\<lambda>p. p \<in> set voted_peers) [2, 3, 4, 5]))"

definition election_timeout_returns_one_reset_timer :: bool where [unit_tests]:
  "election_timeout_returns_one_reset_timer =
     (let raft = new_raft 1 [2, 3, 4] in
      passes (handle_election_timeout Debug raft)
        (\<lambda>raft actions. count_actions actions (\<lambda>a. a = ResetElectionTimer) = 1 \<and>
           count_actions actions (\<lambda>a. a = PersistState) = 1 \<and> count_actions actions is_send = 3 \<and>
           length actions = 5))"

definition single_node_cluster_becomes_leader_immediately :: bool where [unit_tests]:
  "single_node_cluster_becomes_leader_immediately =
     (let raft = new_raft 1 [] in
      passes (handle_election_timeout Debug raft)
        (\<lambda>raft actions. role raft = Leader \<and> count_actions actions (\<lambda>a. a = PersistState) = 1 \<and>
           count_actions actions (\<lambda>a. a = ResetHeartbeatTimer) = 1 \<and> length actions = 2))"

definition candidate_restart_election_resets_votes :: bool where [unit_tests]:
  "candidate_restart_election_resets_votes =
     (let raft = with_candidate_state [1, 2, 3, 4, 5] [1, 2, 3, 4, 5] (with_vote 99 (with_term 3 (with_role Candidate (new_raft 1 [2, 3])))) in
      passes (handle_election_timeout Debug raft)
        (\<lambda>raft _. cterm raft = 4 \<and> vote raft = Some (raft_id raft) \<and>
           (case candidate_state raft of None \<Rightarrow> False
            | Some cs \<Rightarrow> card (votes_granted cs) = 1 \<and> 1 \<in> votes_granted cs)))"

definition multiple_calls_produce_one_reset_timer_each :: bool where [unit_tests]:
  "multiple_calls_produce_one_reset_timer_each =
     (let raft = new_raft 1 [2, 3]; one = (\<lambda>actions. count_actions actions (\<lambda>a. a = ResetElectionTimer) = 1) in
      passes (handle_election_timeout Debug raft) (\<lambda>raft actions. one actions \<and>
      passes (handle_election_timeout Debug raft) (\<lambda>raft actions. one actions \<and>
      passes (handle_election_timeout Debug raft) (\<lambda>raft actions. one actions))))"

section \<open>They pass\<close>

definition election_tests :: "bool list" where
  "election_tests =
     [election_timeout_promotes_follower_to_candidate_and_sends_votes,
      election_timeout_with_empty_log_sends_zero_indices,
      election_timeout_for_candidate_increments_term, election_timeout_does_nothing_if_leader,
      election_timeout_sends_vote_to_all_peers, election_timeout_returns_one_reset_timer,
      single_node_cluster_becomes_leader_immediately, candidate_restart_election_resets_votes,
      multiple_calls_produce_one_reset_timer_each]"

lemma election_tests_pass: "list_all id election_tests"
  by (simp add: election_tests_def unit_tests test_simps)

end
