(* ===== verification/ClientTests.thy ===== *)
theory ClientTests
  imports TestSupport
begin

text \<open>The unit tests of \<open>raft-core/src/raft/client.rs\<close>.\<close>

section \<open>Helpers\<close>

text \<open>A number of default commands, one after the other, and a look at the node after the last.\<close>

fun requests :: "nat \<Rightarrow> Raft \<Rightarrow> (Raft \<Rightarrow> bool) \<Rightarrow> bool" where
  "requests 0 raft P = P raft"
| "requests (Suc n) raft P =
     passes (handle_client_request Debug raft command_default) (\<lambda>raft _. requests n raft P)"

lemma requests_numeral [unit_tests]:
  "requests (numeral k) raft P =
     passes (handle_client_request Debug raft command_default) (\<lambda>raft _. requests (pred_numeral k) raft P)"
  by (simp add: numeral_eq_Suc)

section \<open>Not the leader\<close>

definition follower_returns_not_leader :: bool where [unit_tests]:
  "follower_returns_not_leader =
     (let raft = new_raft 1 [2, 3] in
      role raft = Follower \<and> passes (handle_client_request Debug raft command_default)
        (\<lambda>raft actions. length actions = 1 \<and> list_all is_not_leader actions))"

definition candidate_returns_not_leader :: bool where [unit_tests]:
  "candidate_returns_not_leader =
     (let raft = with_role Candidate (new_raft 1 [2, 3]) in
      passes (handle_client_request Debug raft command_default)
        (\<lambda>raft actions. length actions = 1 \<and> list_all is_not_leader actions))"

definition not_leader_carries_known_leader_id :: bool where [unit_tests]:
  "not_leader_carries_known_leader_id =
     (let raft = with_known_leader (Some 2) (new_raft 1 [2, 3]) in
      passes (handle_client_request Debug raft command_default)
        (\<lambda>raft actions. actions = [NotLeader (Some 2)]))"

definition not_leader_carries_none_when_leader_unknown :: bool where [unit_tests]:
  "not_leader_carries_none_when_leader_unknown =
     (let raft = with_known_leader None (new_raft 1 [2, 3]) in
      passes (handle_client_request Debug raft command_default)
        (\<lambda>raft actions. actions = [NotLeader None]))"

definition follower_does_not_append_to_log :: bool where [unit_tests]:
  "follower_does_not_append_to_log =
     (let raft = new_raft 1 [2, 3] in
      passes (handle_client_request Debug raft command_default)
        (\<lambda>raft _. rlog raft = []))"

section \<open>The leader\<close>

definition leader_appends_entry_to_log :: bool where [unit_tests]:
  "leader_appends_entry_to_log =
     (let raft = make_leader 1 [2, 3] in
      passes (handle_client_request Debug raft command_default)
        (\<lambda>raft _. length (rlog raft) = 1))"

definition appended_entry_has_current_term :: bool where [unit_tests]:
  "appended_entry_has_current_term =
     (let raft = with_term 4 (make_leader 1 [2, 3]) in
      passes (handle_client_request Debug raft command_default)
        (\<lambda>raft _. length (rlog raft) > 0 \<and> entry_term (rlog raft ! 0) = 4))"

definition appended_entry_has_next_available_index_on_empty_log :: bool where [unit_tests]:
  "appended_entry_has_next_available_index_on_empty_log =
     (let raft = make_leader 1 [2, 3] in
      passes (handle_client_request Debug raft command_default)
        (\<lambda>raft _. length (rlog raft) > 0 \<and> index (rlog raft ! 0) = 1))"

definition appended_entry_follows_last_log_index :: bool where [unit_tests]:
  "appended_entry_follows_last_log_index =
     (let raft = push_entry 2 1 (push_entry 1 1 (make_leader 1 [2, 3])) in
      passes (handle_client_request Debug raft command_default)
        (\<lambda>raft _. rlog raft \<noteq> [] \<and> index (last (rlog raft)) = 3))"

definition appended_entry_carries_the_submitted_command :: bool where [unit_tests]:
  "appended_entry_carries_the_submitted_command =
     (let raft = make_leader 1 [2, 3] in
      passes (handle_client_request Debug raft (command_set ''key'' ''value''))
        (\<lambda>raft _. length (rlog raft) > 0 \<and> command (rlog raft ! 0) = command_set ''key'' ''value''))"

definition multiple_requests_produce_sequential_indices :: bool where [unit_tests]:
  "multiple_requests_produce_sequential_indices =
     (requests 5 (make_leader 1 [2, 3]) (\<lambda>raft. map index (rlog raft) = [1, 2, 3, 4, 5]))"

definition multiple_requests_all_use_current_term :: bool where [unit_tests]:
  "multiple_requests_all_use_current_term =
     (requests 3 (with_term 7 (make_leader 1 [2, 3])) (\<lambda>raft. list_all (\<lambda>e. entry_term e = 7) (rlog raft)))"

definition leader_returns_reset_heartbeat_timer :: bool where [unit_tests]:
  "leader_returns_reset_heartbeat_timer =
     (let raft = make_leader 1 [2, 3] in
      passes (handle_client_request Debug raft command_default)
        (\<lambda>raft actions. list_ex (\<lambda>a. a = ResetHeartbeatTimer) actions))"

definition multi_node_leader_returns_exactly_one_action :: bool where [unit_tests]:
  "multi_node_leader_returns_exactly_one_action =
     (let raft = make_leader 1 [2, 3] in
      passes (handle_client_request Debug raft command_default)
        (\<lambda>raft actions. length actions = 2))"

definition multi_node_leader_does_not_commit_entry_immediately :: bool where [unit_tests]:
  "multi_node_leader_does_not_commit_entry_immediately =
     (let raft = make_leader 1 [2, 3] in
      passes (handle_client_request Debug raft command_default)
        (\<lambda>raft _. rcommit raft = 0))"

definition multi_node_leader_does_not_apply_entry_immediately :: bool where [unit_tests]:
  "multi_node_leader_does_not_apply_entry_immediately =
     (let raft = make_leader 1 [2, 3] in
      passes (handle_client_request Debug raft command_default)
        (\<lambda>raft _. rapplied raft = 0))"

definition leader_does_not_change_next_index_on_append :: bool where [unit_tests]:
  "leader_does_not_change_next_index_on_append =
     (let raft = make_leader 1 [2, 3] in
      passes (handle_client_request Debug raft command_default)
        (\<lambda>raft' _. leader_state raft' \<noteq> None \<and>
           map_option next_index (leader_state raft) = map_option next_index (leader_state raft')))"

section \<open>A cluster of one node\<close>

definition single_node_leader_commits_entry_immediately :: bool where [unit_tests]:
  "single_node_leader_commits_entry_immediately =
     (let raft = make_leader 1 [] in
      passes (handle_client_request Debug raft command_default)
        (\<lambda>raft actions. rcommit raft = 1 \<and> rapplied raft = 1 \<and> list_ex is_apply actions))"

definition single_node_multiple_requests_all_committed_immediately :: bool where [unit_tests]:
  "single_node_multiple_requests_all_committed_immediately =
     (let one = (\<lambda>i raft. rcommit raft = i \<and> rapplied raft = i) in
      passes (handle_client_request Debug (make_leader 1 []) command_default) (\<lambda>raft _. one 1 raft \<and>
      passes (handle_client_request Debug raft command_default) (\<lambda>raft _. one 2 raft \<and>
      passes (handle_client_request Debug raft command_default) (\<lambda>raft _. one 3 raft))))"

section \<open>They pass\<close>

definition client_tests :: "bool list" where
  "client_tests =
     [follower_returns_not_leader, candidate_returns_not_leader,
      not_leader_carries_known_leader_id, not_leader_carries_none_when_leader_unknown,
      follower_does_not_append_to_log, leader_appends_entry_to_log,
      appended_entry_has_current_term, appended_entry_has_next_available_index_on_empty_log,
      appended_entry_follows_last_log_index, appended_entry_carries_the_submitted_command,
      multiple_requests_produce_sequential_indices, multiple_requests_all_use_current_term,
      leader_returns_reset_heartbeat_timer, multi_node_leader_returns_exactly_one_action,
      multi_node_leader_does_not_commit_entry_immediately,
      multi_node_leader_does_not_apply_entry_immediately,
      leader_does_not_change_next_index_on_append, single_node_leader_commits_entry_immediately,
      single_node_multiple_requests_all_committed_immediately]"

lemma client_tests_pass: "list_all id client_tests"
  by (simp add: client_tests_def unit_tests test_simps)

end
