(* ===== verification/HeartbeatTests.thy ===== *)
theory HeartbeatTests
  imports TestSupport
begin

text \<open>The unit tests of \<open>raft-core/src/raft/heartbeat.rs\<close>.\<close>

section \<open>Timer and messages\<close>

definition follower_does_nothing :: bool where [unit_tests]:
  "follower_does_nothing =
     (let raft = with_role Follower (new_raft 1 [2, 3]) in
      passes (handle_heartbeat_timeout raft)
        (\<lambda>_ actions. actions = []))"

definition candidate_does_nothing :: bool where [unit_tests]:
  "candidate_does_nothing =
     (let raft = with_role Candidate (new_raft 1 [2, 3]) in
      passes (handle_heartbeat_timeout raft)
        (\<lambda>_ actions. actions = []))"

definition leader_resets_heartbeat_timer :: bool where [unit_tests]:
  "leader_resets_heartbeat_timer =
     (let raft = make_leader 1 [2, 3] in
      passes (handle_heartbeat_timeout raft)
        (\<lambda>_ actions. count_actions actions (\<lambda>a. a = ResetHeartbeatTimer) = 1))"

definition sends_one_message_per_peer :: bool where [unit_tests]:
  "sends_one_message_per_peer =
     (let raft = make_leader 1 [2, 3, 4] in
      passes (handle_heartbeat_timeout raft)
        (\<lambda>_ actions. length (append_entry_targets actions) = 3))"

definition messages_go_to_correct_peers :: bool where [unit_tests]:
  "messages_go_to_correct_peers =
     (let raft = make_leader 1 [2, 3, 4] in
      passes (handle_heartbeat_timeout raft)
        (\<lambda>_ actions. let targets = append_entry_targets actions in
           2 \<in> set targets \<and> 3 \<in> set targets \<and> 4 \<in> set targets \<and> 1 \<notin> set targets))"

definition single_peer_cluster_sends_one_message :: bool where [unit_tests]:
  "single_peer_cluster_sends_one_message =
     (let raft = make_leader 1 [2] in
      passes (handle_heartbeat_timeout raft)
        (\<lambda>_ actions. length (append_entry_targets actions) = 1))"

definition heartbeat_with_empty_log_sends_zero_prev_and_empty_entries :: bool where [unit_tests]:
  "heartbeat_with_empty_log_sends_zero_prev_and_empty_entries =
     (let raft = make_leader 1 [2, 3] in
      passes (handle_heartbeat_timeout raft)
        (\<lambda>_ actions. list_all (\<lambda>(_, m). prev_log_index m = 0 \<and> prev_log_term m = 0 \<and> entries m = []) (append_entries actions)))"

definition messages_carry_current_term_and_leader_id :: bool where [unit_tests]:
  "messages_carry_current_term_and_leader_id =
     (let raft = with_term 7 (make_leader 1 [2, 3]) in
      passes (handle_heartbeat_timeout raft)
        (\<lambda>_ actions. list_all (\<lambda>(_, m). ae_term m = 7 \<and> leader_id m = 1) (append_entries actions)))"

definition messages_carry_leader_commit_index :: bool where [unit_tests]:
  "messages_carry_leader_commit_index =
     (let raft = with_commit_index 5 (make_leader 1 [2, 3]) in
      passes (handle_heartbeat_timeout raft)
        (\<lambda>_ actions. list_all (\<lambda>(_, m). leader_commit m = 5) (append_entries actions)))"

section \<open>Replication\<close>

definition includes_entries_peer_has_not_yet_seen :: bool where [unit_tests]:
  "includes_entries_peer_has_not_yet_seen =
     (let raft = with_next_index 1 2 (with_next_index 0 4 (push_entry 3 1 (push_entry 2 1 (push_entry 1 1 (make_leader 1 [2, 3]))))) in
      passes (handle_heartbeat_timeout raft)
        (\<lambda>_ actions. find_append_entries actions 2 (\<lambda>m. entries m = []) \<and>
           find_append_entries actions 3 (\<lambda>m. length (entries m) = 2 \<and>
             index (entries m ! 0) = 2 \<and> index (entries m ! 1) = 3)))"

definition prev_log_fields_reflect_entry_before_next_index :: bool where [unit_tests]:
  "prev_log_fields_reflect_entry_before_next_index =
     (let raft = with_next_index 0 3 (push_entry 3 5 (push_entry 2 5 (push_entry 1 3 (make_leader 1 [2])))) in
      passes (handle_heartbeat_timeout raft)
        (\<lambda>_ actions. find_append_entries actions 2 (\<lambda>m. prev_log_index m = 2 \<and> prev_log_term m = 5 \<and>
           length (entries m) = 1 \<and> index (entries m ! 0) = 3)))"

definition peer_needs_full_log_from_beginning :: bool where [unit_tests]:
  "peer_needs_full_log_from_beginning =
     (let raft = with_next_index 0 1 (push_entry 2 2 (push_entry 1 1 (make_leader 1 [2]))) in
      passes (handle_heartbeat_timeout raft)
        (\<lambda>_ actions. find_append_entries actions 2 (\<lambda>m. prev_log_index m = 0 \<and> prev_log_term m = 0 \<and>
           length (entries m) = 2)))"

definition all_peers_up_to_date_sends_empty_entries :: bool where [unit_tests]:
  "all_peers_up_to_date_sends_empty_entries =
     (let raft = with_next_index 1 3 (with_next_index 0 3 (push_entry 2 1 (push_entry 1 1 (make_leader 1 [2, 3])))) in
      passes (handle_heartbeat_timeout raft)
        (\<lambda>_ actions. list_all (\<lambda>(_, m). entries m = [] \<and> prev_log_index m = 2 \<and> prev_log_term m = 1) (append_entries actions)))"

definition peers_at_different_offsets_receive_different_entries :: bool where [unit_tests]:
  "peers_at_different_offsets_receive_different_entries =
     (let raft = with_next_index 2 6 (with_next_index 1 4 (with_next_index 0 1 (fold (\<lambda>i. push_entry i 1) [1, 2, 3, 4, 5] (make_leader 1 [2, 3, 4])))) in
      passes (handle_heartbeat_timeout raft)
        (\<lambda>_ actions. find_append_entries actions 2 (\<lambda>m. length (entries m) = 5) \<and>
           find_append_entries actions 3 (\<lambda>m. length (entries m) = 2) \<and>
           find_append_entries actions 4 (\<lambda>m. entries m = [])))"

definition multiple_heartbeats_produce_same_messages :: bool where [unit_tests]:
  "multiple_heartbeats_produce_same_messages =
     (let raft = push_entry 1 1 (make_leader 1 [2, 3]) in
      passes (handle_heartbeat_timeout raft) (\<lambda>raft a1. passes (handle_heartbeat_timeout raft) (\<lambda>_ a2.
        map (\<lambda>(_, m). length (entries m)) (append_entries a1) =
        map (\<lambda>(_, m). length (entries m)) (append_entries a2))))"

section \<open>They pass\<close>

definition heartbeat_tests :: "bool list" where
  "heartbeat_tests =
     [follower_does_nothing, candidate_does_nothing, leader_resets_heartbeat_timer,
      sends_one_message_per_peer, messages_go_to_correct_peers,
      single_peer_cluster_sends_one_message,
      heartbeat_with_empty_log_sends_zero_prev_and_empty_entries,
      messages_carry_current_term_and_leader_id, messages_carry_leader_commit_index,
      includes_entries_peer_has_not_yet_seen, prev_log_fields_reflect_entry_before_next_index,
      peer_needs_full_log_from_beginning, all_peers_up_to_date_sends_empty_entries,
      peers_at_different_offsets_receive_different_entries,
      multiple_heartbeats_produce_same_messages]"

lemma heartbeat_tests_pass: "list_all id heartbeat_tests"
  by (simp add: heartbeat_tests_def unit_tests test_simps)

end
