(* ===== verification/StepTests.thy ===== *)
theory StepTests
  imports TestSupport
begin

text \<open>The unit tests of \<open>raft-core/src/raft/step.rs\<close>.\<close>

section \<open>Helpers\<close>

definition new_follower :: Raft where [unit_tests]:
  "new_follower = new_raft 1 [2, 3]"

text \<open>A leader made by an election: a candidate with its own vote, to which peer 2 grants its vote.\<close>

definition with_elected_leader :: "(Raft \<Rightarrow> bool) \<Rightarrow> bool" where [unit_tests]:
  "with_elected_leader P =
     (let raft = with_candidate_state [1] [1] (with_vote 1 (with_term 1 (with_role Candidate new_follower))) in
      passes (raft_step Debug raft (EvMessage (MRequestVoteResponse
          \<lparr>rvr_term = 1, vote_granted = True, vote_from = 2\<rparr>)))
        (\<lambda>raft _. role raft = Leader \<and> P raft))"

section \<open>Election timeout\<close>

definition election_timeout_as_follower_starts_election :: bool where [unit_tests]:
  "election_timeout_as_follower_starts_election =
     (passes (raft_step Debug new_follower ElectionTimeout)
        (\<lambda>raft actions. count_actions actions (\<lambda>a. a = ResetElectionTimer) = 1 \<and> count_actions actions (\<lambda>a. a = PersistState) = 1 \<and>
           count_actions actions is_request_vote = 2 \<and> length actions = 4 \<and>
           role raft = Candidate \<and> cterm raft = 1 \<and> vote raft = Some (raft_id raft)))"

definition election_timeout_vote_requests_target_correct_peers :: bool where [unit_tests]:
  "election_timeout_vote_requests_target_correct_peers =
     (passes (raft_step Debug new_follower ElectionTimeout)
        (\<lambda>raft actions. let targets = map fst (vote_requests actions) in
           2 \<in> set targets \<and> 3 \<in> set targets \<and> 1 \<notin> set targets))"

definition election_timeout_vote_requests_carry_correct_term :: bool where [unit_tests]:
  "election_timeout_vote_requests_carry_correct_term =
     (passes (raft_step Debug new_follower ElectionTimeout)
        (\<lambda>raft actions. list_all (\<lambda>(_, v). rv_term v = 1 \<and> candidate_id v = 1) (vote_requests actions)))"

definition election_timeout_as_candidate_increments_term_again :: bool where [unit_tests]:
  "election_timeout_as_candidate_increments_term_again =
     (passes (raft_step Debug new_follower ElectionTimeout) (\<lambda>raft _.
      passes (raft_step Debug raft ElectionTimeout)
        (\<lambda>raft actions. cterm raft = 2 \<and> role raft = Candidate \<and>
           count_actions actions (\<lambda>a. a = ResetElectionTimer) = 1 \<and>
           count_actions actions is_request_vote = 2)))"

definition election_timeout_as_leader_is_ignored :: bool where [unit_tests]:
  "election_timeout_as_leader_is_ignored =
     (with_elected_leader (\<lambda>raft. passes (raft_step Debug raft ElectionTimeout)
        (\<lambda>raft actions. actions = [] \<and> role raft = Leader \<and> cterm raft = 1)))"

section \<open>Heartbeat timeout\<close>

definition heartbeat_timeout_as_follower_is_ignored :: bool where [unit_tests]:
  "heartbeat_timeout_as_follower_is_ignored =
     (passes (raft_step Debug new_follower HeartbeatTimeout)
        (\<lambda>raft actions. actions = []))"

definition heartbeat_timeout_as_candidate_is_ignored :: bool where [unit_tests]:
  "heartbeat_timeout_as_candidate_is_ignored =
     (passes (raft_step Debug new_follower ElectionTimeout) (\<lambda>raft _.
      passes (raft_step Debug raft HeartbeatTimeout)
        (\<lambda>raft actions. actions = [])))"

definition heartbeat_timeout_as_leader_sends_append_entries_to_all_peers :: bool where [unit_tests]:
  "heartbeat_timeout_as_leader_sends_append_entries_to_all_peers =
     (with_elected_leader (\<lambda>raft. passes (raft_step Debug raft HeartbeatTimeout)
        (\<lambda>raft actions. count_actions actions (\<lambda>a. a = ResetHeartbeatTimer) = 1 \<and>
           count_actions actions is_append_entries = 2 \<and> length actions = 3)))"

definition heartbeat_timeout_append_entries_carry_correct_term_and_leader_id :: bool where [unit_tests]:
  "heartbeat_timeout_append_entries_carry_correct_term_and_leader_id =
     (with_elected_leader (\<lambda>raft. passes (raft_step Debug raft HeartbeatTimeout)
        (\<lambda>raft actions. list_all (\<lambda>(_, m). ae_term m = 1 \<and> leader_id m = 1) (append_entries actions))))"

definition heartbeat_timeout_append_entries_target_correct_peers :: bool where [unit_tests]:
  "heartbeat_timeout_append_entries_target_correct_peers =
     (with_elected_leader (\<lambda>raft. passes (raft_step Debug raft HeartbeatTimeout)
        (\<lambda>raft actions. let targets = map fst (append_entries actions) in
           2 \<in> set targets \<and> 3 \<in> set targets \<and> 1 \<notin> set targets)))"

section \<open>Client request\<close>

definition client_request_as_follower_returns_not_leader :: bool where [unit_tests]:
  "client_request_as_follower_returns_not_leader =
     (passes (raft_step Debug new_follower (ClientRequest command_default))
        (\<lambda>raft actions. count_actions actions is_not_leader = 1 \<and> length actions = 1 \<and> rlog raft = []))"

definition client_request_as_candidate_returns_not_leader :: bool where [unit_tests]:
  "client_request_as_candidate_returns_not_leader =
     (passes (raft_step Debug new_follower ElectionTimeout) (\<lambda>raft _.
      passes (raft_step Debug raft (ClientRequest command_default))
        (\<lambda>raft actions. length actions = 1 \<and> list_all is_not_leader actions \<and> rlog raft = [])))"

definition client_request_as_leader_appends_and_triggers_heartbeat :: bool where [unit_tests]:
  "client_request_as_leader_appends_and_triggers_heartbeat =
     (with_elected_leader (\<lambda>raft. passes (raft_step Debug raft (ClientRequest command_default))
        (\<lambda>raft actions. count_actions actions (\<lambda>a. a = ResetHeartbeatTimer) = 1 \<and> count_actions actions (\<lambda>a. a = PersistState) = 1 \<and>
           length actions = 2 \<and> length (rlog raft) = 1 \<and> index (rlog raft ! 0) = 1 \<and> entry_term (rlog raft ! 0) = 1)))"

definition client_request_as_leader_does_not_commit_without_quorum :: bool where [unit_tests]:
  "client_request_as_leader_does_not_commit_without_quorum =
     (with_elected_leader (\<lambda>raft. passes (raft_step Debug raft (ClientRequest command_default))
        (\<lambda>raft _. rcommit raft = 0)))"

section \<open>Votes\<close>

definition request_vote_from_peer_with_same_term_is_granted :: bool where [unit_tests]:
  "request_vote_from_peer_with_same_term_is_granted =
     (passes (raft_step Debug new_follower (EvMessage (MRequestVote \<lparr>rv_term = 0, candidate_id = 2, rv_last_log_index = 0, rv_last_log_term = 0\<rparr>)))
        (\<lambda>raft actions. count_actions actions (\<lambda>a. a = ResetElectionTimer) = 1 \<and> count_actions actions (\<lambda>a. a = PersistState) = 1 \<and>
           count_actions actions is_vote_response = 1 \<and> length actions = 3 \<and>
           find_vote_response actions (\<lambda>resp. vote_granted resp \<and> rvr_term resp = 0)))"

definition request_vote_from_higher_term_steps_down_and_grants :: bool where [unit_tests]:
  "request_vote_from_higher_term_steps_down_and_grants =
     (with_elected_leader (\<lambda>raft. passes (raft_step Debug raft (EvMessage (MRequestVote \<lparr>rv_term = 3, candidate_id = 2, rv_last_log_index = 0, rv_last_log_term = 0\<rparr>)))
        (\<lambda>raft _. role raft = Follower \<and> cterm raft = 3)))"

definition request_vote_from_stale_term_is_rejected :: bool where [unit_tests]:
  "request_vote_from_stale_term_is_rejected =
     (passes (raft_step Debug (with_term 5 new_follower) (EvMessage (MRequestVote \<lparr>rv_term = 3, candidate_id = 2, rv_last_log_index = 0, rv_last_log_term = 0\<rparr>)))
        (\<lambda>raft actions. find_vote_response actions (\<lambda>resp. \<not> vote_granted resp \<and> rvr_term resp = 5) \<and>
           count_actions actions (\<lambda>a. a = ResetElectionTimer) = 0))"

definition request_vote_response_as_follower_is_ignored :: bool where [unit_tests]:
  "request_vote_response_as_follower_is_ignored =
     (passes (raft_step Debug new_follower (EvMessage (MRequestVoteResponse \<lparr>rvr_term = 0, vote_granted = True, vote_from = 2\<rparr>)))
        (\<lambda>raft actions. actions = [] \<and> role raft = Follower))"

definition request_vote_response_grants_cause_leader_promotion :: bool where [unit_tests]:
  "request_vote_response_grants_cause_leader_promotion =
     (passes (raft_step Debug new_follower ElectionTimeout) (\<lambda>raft _.
      passes (raft_step Debug raft (EvMessage (MRequestVoteResponse \<lparr>rvr_term = 1, vote_granted = True, vote_from = 2\<rparr>)))
        (\<lambda>raft actions. role raft = Leader \<and> count_actions actions (\<lambda>a. a = ResetHeartbeatTimer) = 1)))"

section \<open>Log replication\<close>

definition append_entries_with_matching_term_accepted_and_resets_timer :: bool where [unit_tests]:
  "append_entries_with_matching_term_accepted_and_resets_timer =
     (passes (raft_step Debug new_follower (EvMessage (MAppendEntries \<lparr>ae_term = 0, leader_id = 2, prev_log_index = 0, prev_log_term = 0,
          entries = [], leader_commit = 0\<rparr>)))
        (\<lambda>raft actions. count_actions actions (\<lambda>a. a = ResetElectionTimer) = 1 \<and> count_actions actions (\<lambda>a. a = PersistState) = 1 \<and>
           count_actions actions is_append_entries_response = 1 \<and> length actions = 3 \<and>
           find_append_entries_response actions (\<lambda>resp. success resp \<and> aer_term resp = 0)))"

definition append_entries_with_stale_term_is_rejected :: bool where [unit_tests]:
  "append_entries_with_stale_term_is_rejected =
     (passes (raft_step Debug (with_term 5 new_follower) (EvMessage (MAppendEntries \<lparr>ae_term = 3, leader_id = 2, prev_log_index = 0, prev_log_term = 0,
          entries = [], leader_commit = 0\<rparr>)))
        (\<lambda>raft actions. find_append_entries_response actions (\<lambda>resp. \<not> success resp \<and> aer_term resp = 5) \<and>
           count_actions actions (\<lambda>a. a = ResetElectionTimer) = 0))"

definition append_entries_from_higher_term_steps_down_and_accepts :: bool where [unit_tests]:
  "append_entries_from_higher_term_steps_down_and_accepts =
     (with_elected_leader (\<lambda>raft. passes (raft_step Debug raft (EvMessage (MAppendEntries \<lparr>ae_term = 5, leader_id = 2, prev_log_index = 0, prev_log_term = 0,
          entries = [], leader_commit = 0\<rparr>)))
        (\<lambda>raft _. role raft = Follower \<and> cterm raft = 5)))"

definition append_entries_response_as_follower_is_ignored :: bool where [unit_tests]:
  "append_entries_response_as_follower_is_ignored =
     (passes (raft_step Debug new_follower (EvMessage (MAppendEntriesResponse
          \<lparr>aer_term = 0, success = True, aer_from = 2, aer_match_index = 0\<rparr>)))
        (\<lambda>raft actions. actions = []))"

definition append_entries_response_success_advances_match_index_on_leader :: bool where [unit_tests]:
  "append_entries_response_success_advances_match_index_on_leader =
     (with_elected_leader (\<lambda>raft. passes (raft_step Debug raft (ClientRequest command_default)) (\<lambda>raft _.
      passes (raft_step Debug raft (EvMessage (MAppendEntriesResponse
          \<lparr>aer_term = 1, success = True, aer_from = 2, aer_match_index = 1\<rparr>)))
        (\<lambda>raft _. case leader_state raft of None \<Rightarrow> False
           | Some ls \<Rightarrow> match_index ls ! 0 = 1 \<and> next_index ls ! 0 = 2))))"

definition append_entries_response_reaching_quorum_commits_and_applies :: bool where [unit_tests]:
  "append_entries_response_reaching_quorum_commits_and_applies =
     (with_elected_leader (\<lambda>raft. passes (raft_step Debug raft (ClientRequest command_default)) (\<lambda>raft _.
      passes (raft_step Debug raft (EvMessage (MAppendEntriesResponse
          \<lparr>aer_term = 1, success = True, aer_from = 2, aer_match_index = 1\<rparr>)))
        (\<lambda>raft actions. rcommit raft = 1 \<and> rapplied raft = 1 \<and> count_actions actions is_apply = 1))))"

section \<open>They pass\<close>

definition step_tests :: "bool list" where
  "step_tests =
     [election_timeout_as_follower_starts_election,
      election_timeout_vote_requests_target_correct_peers,
      election_timeout_vote_requests_carry_correct_term,
      election_timeout_as_candidate_increments_term_again, election_timeout_as_leader_is_ignored,
      heartbeat_timeout_as_follower_is_ignored, heartbeat_timeout_as_candidate_is_ignored,
      heartbeat_timeout_as_leader_sends_append_entries_to_all_peers,
      heartbeat_timeout_append_entries_carry_correct_term_and_leader_id,
      heartbeat_timeout_append_entries_target_correct_peers,
      client_request_as_follower_returns_not_leader,
      client_request_as_candidate_returns_not_leader,
      client_request_as_leader_appends_and_triggers_heartbeat,
      client_request_as_leader_does_not_commit_without_quorum,
      request_vote_from_peer_with_same_term_is_granted,
      request_vote_from_higher_term_steps_down_and_grants,
      request_vote_from_stale_term_is_rejected, request_vote_response_as_follower_is_ignored,
      request_vote_response_grants_cause_leader_promotion,
      append_entries_with_matching_term_accepted_and_resets_timer,
      append_entries_with_stale_term_is_rejected,
      append_entries_from_higher_term_steps_down_and_accepts,
      append_entries_response_as_follower_is_ignored,
      append_entries_response_success_advances_match_index_on_leader,
      append_entries_response_reaching_quorum_commits_and_applies]"

lemma step_tests_pass: "list_all id step_tests"
  by (simp add: step_tests_def unit_tests test_simps)

end
