(* ===== verification/RuntimeTests.thy ===== *)
theory RuntimeTests
  imports RuntimeProps
begin

text \<open>
  The integration tests of the runtime, \<open>raft-runtime/src/tests.rs\<close>: running nodes with a transport
  of plain channels, a state machine that records its commands and no persistence. The tests wait
  in real time; here the time that passes is a schedule of timers and turns of the event loops,
  in which the heartbeats of a waiting time are any number.
\<close>

section \<open>The components of the tests\<close>

definition recording_apply :: "Command \<Rightarrow> Command list \<Rightarrow> Command list" where
  "recording_apply c applied = applied @ [c]"

text \<open>A channel is its queue; all of them hold \<open>incoming_channel_capacity\<close> messages.\<close>

type_synonym Channels = "NodeId \<Rightarrow> (NodeId \<times> Message) list option"

record ManualTransport =
  mt_senders :: Channels
  mt_self_id :: NodeId

definition manual_transport_new :: "NodeId \<Rightarrow> ManualTransport" where
  "manual_transport_new i = \<lparr>mt_senders = (\<lambda>_. None), mt_self_id = i\<rparr>"

definition fast_config :: NodeConfig where
  "fast_config =
     \<lparr>election_timeout_min = from_millis 20, election_timeout_max = from_millis 40,
      heartbeat_interval = from_millis 10, incoming_channel_capacity = 64, client_channel_capacity = 16\<rparr>"

definition manual_send :: "NodeId \<Rightarrow> Message \<Rightarrow> ManualTransport \<Rightarrow> ManualTransport" where
  "manual_send to msg t =
     (case mt_senders t to of
        None \<Rightarrow> t
      | Some q \<Rightarrow> if length q < incoming_channel_capacity fast_config
          then t\<lparr>mt_senders := (mt_senders t)(to := Some (q @ [(mt_self_id t, msg)]))\<rparr> else t)"

definition test_env :: "(nat \<Rightarrow> nat) \<Rightarrow> (Command list, unit, ManualTransport) Env" where
  "test_env rg = \<lparr>apply_command = recording_apply, save_state = (\<lambda>st d. (d, no_save st)),
     transport_send = manual_send, rng = rg\<rparr>"

type_synonym TestNode = "(Command list, unit, ManualTransport) Node"

definition build_node :: "NodeId \<Rightarrow> NodeId list \<Rightarrow> ManualTransport \<Rightarrow> panic + TestNode" where
  "build_node i ps tr = node_new Debug i ps None tr () [] 0 fast_config (metrics_new i)"

section \<open>The nodes at work\<close>

text \<open>The spawned nodes and the channels they share; a node gets the channels for its turn.\<close>

record TestBed =
  bed_nodes :: "NodeId \<Rightarrow> TestNode option"
  bed_senders :: Channels

definition empty_bed :: TestBed where
  "empty_bed = \<lparr>bed_nodes = (\<lambda>_. None), bed_senders = (\<lambda>_. None)\<rparr>"

definition put_in :: "NodeId \<Rightarrow> TestNode \<Rightarrow> TestBed \<Rightarrow> TestBed" where
  "put_in i n bed = \<lparr>bed_nodes = (bed_nodes bed)(i := Some n), bed_senders = mt_senders (transport n)\<rparr>"

definition take_turn :: "(nat \<Rightarrow> nat) \<Rightarrow> NodeId \<Rightarrow> Input \<Rightarrow> TestBed \<Rightarrow> TestBed option" where
  "take_turn rg i inp bed =
     (case bed_nodes bed i of
        None \<Rightarrow> None
      | Some n \<Rightarrow>
          (case run_once Debug (test_env rg) inp (n\<lparr>transport := (transport n)\<lparr>mt_senders := bed_senders bed\<rparr>\<rparr>) of
             Some (Inr n') \<Rightarrow> Some (put_in i n' bed)
           | _ \<Rightarrow> None))"

text \<open>\<open>Spawns\<close> runs a node up to its loop, \<open>Wakes\<close> ends the sleep of one of its timer tasks.\<close>

datatype BedEvent = Spawns NodeId TestNode | Wakes NodeId nat | TimerTurn NodeId | PeerTurn NodeId
  | ClientTurn NodeId Command nat

fun bed_event :: "(nat \<Rightarrow> nat) \<Rightarrow> BedEvent \<Rightarrow> TestBed \<Rightarrow> TestBed option" where
  "bed_event rg (Spawns i n) bed =
     (case node_start (test_env rg) n of
        Inl _ \<Rightarrow> None
      | Inr n' \<Rightarrow> Some (put_in i (n'\<lparr>transport := (transport n')\<lparr>mt_senders := bed_senders bed\<rparr>\<rparr>) bed))"
| "bed_event rg (Wakes i k) bed =
     (case bed_nodes bed i of
        None \<Rightarrow> None
      | Some n \<Rightarrow> map_option (\<lambda>t. bed\<lparr>bed_nodes := (bed_nodes bed)(i := Some (n\<lparr>timers := t\<rparr>))\<rparr>)
          (fire k (timers n)))"
| "bed_event rg (TimerTurn i) bed = take_turn rg i FromTimer bed"
| "bed_event rg (PeerTurn i) bed =
     (case bed_senders bed i of
        Some ((frm, msg) # rest) \<Rightarrow>
          take_turn rg i (FromPeer frm msg) (bed\<lparr>bed_senders := (bed_senders bed)(i := Some rest)\<rparr>)
      | _ \<Rightarrow> None)"
| "bed_event rg (ClientTurn i cmd client) bed = take_turn rg i (FromClient cmd client) bed"

fun play :: "(nat \<Rightarrow> nat) \<Rightarrow> BedEvent list \<Rightarrow> TestBed \<Rightarrow> TestBed option" where
  "play rg [] bed = Some bed"
| "play rg (e # es) bed = (case bed_event rg e bed of None \<Rightarrow> None | Some bed' \<Rightarrow> play rg es bed')"

lemma play_append:
  "play rg (es @ fs) bed = (case play rg es bed of None \<Rightarrow> None | Some bed' \<Rightarrow> play rg fs bed')"
  by (induction es arbitrary: bed) (auto split: option.split)

section \<open>The tests\<close>

text \<open>A lone node waits for its election timer and then for a number of heartbeats.\<close>

definition wait_as_leader :: "nat \<Rightarrow> BedEvent list" where
  "wait_as_leader beats = [Wakes 1 0, TimerTurn 1] @ concat (map (\<lambda>k. [Wakes 1 (Suc k), TimerTurn 1]) [0..<beats])"

definition single_node_applies_command :: "(nat \<Rightarrow> nat) \<Rightarrow> nat \<Rightarrow> bool" where
  "single_node_applies_command rg beats =
     (case build_node 1 [] (manual_transport_new 1) of Inl _ \<Rightarrow> False | Inr node \<Rightarrow>
      (let cmd = command_set ''hello'' ''world'' in
       case play rg ([Spawns 1 node] @ wait_as_leader beats @ [ClientTurn 1 cmd 0]) empty_bed of None \<Rightarrow> False
       | Some bed \<Rightarrow> (case bed_nodes bed 1 of None \<Rightarrow> False
         | Some n \<Rightarrow> map_of (outcomes n) 0 = Some (Answer Applied) \<and> state_machine n = [cmd])))"

definition non_leader_returns_not_leader :: "(nat \<Rightarrow> nat) \<Rightarrow> bool" where
  "non_leader_returns_not_leader rg =
     (case build_node 1 [2] (manual_transport_new 1) of Inl _ \<Rightarrow> False | Inr node \<Rightarrow>
      (case play rg [Spawns 1 node, ClientTurn 1 (command_set ''k'' ''v'') 0] empty_bed of None \<Rightarrow> False
       | Some bed \<Rightarrow> (case bed_nodes bed 1 of None \<Rightarrow> False
         | Some n \<Rightarrow> (case map_of (outcomes n) 0 of Some (Answer (NotTheLeader _)) \<Rightarrow> True | _ \<Rightarrow> False))))"

definition metrics_updated_after_election :: "(nat \<Rightarrow> nat) \<Rightarrow> nat \<Rightarrow> bool" where
  "metrics_updated_after_election rg beats =
     (case build_node 1 [] (manual_transport_new 1) of Inl _ \<Rightarrow> False | Inr node \<Rightarrow>
      (case play rg ([Spawns 1 node] @ wait_as_leader beats) empty_bed of None \<Rightarrow> False
       | Some bed \<Rightarrow> (case bed_nodes bed 1 of None \<Rightarrow> False
         | Some n \<Rightarrow> (let snap = to_snapshot (metrics n) in
             snap_node_id snap = 1 \<and> snap_role snap = Leader \<and> 1 \<le> snap_term snap))))"

text \<open>The three nodes of the last test are registered in one map before they run.\<close>

definition three_channels :: Channels where
  "three_channels = (\<lambda>_. None)(1 := Some [], 2 := Some [], 3 := Some [])"

definition three_node_cluster_elects_leader :: "(nat \<Rightarrow> nat) \<Rightarrow> BedEvent list \<Rightarrow> bool" where
  "three_node_cluster_elects_leader rg schedule =
     (let node = (\<lambda>i ps. build_node i ps \<lparr>mt_senders = three_channels, mt_self_id = i\<rparr>) in
      case (node 1 [2, 3], node 2 [1, 3], node 3 [1, 2]) of
        (Inr a, Inr b, Inr c) \<Rightarrow>
          (case play rg ([Spawns 1 a, Spawns 2 b, Spawns 3 c] @ schedule) (empty_bed\<lparr>bed_senders := three_channels\<rparr>) of
             None \<Rightarrow> False
           | Some bed \<Rightarrow> length (filter (\<lambda>i. case bed_nodes bed i of None \<Rightarrow> False
               | Some n \<Rightarrow> snap_role (to_snapshot (metrics n)) = Leader) [1, 2, 3]) = 1)
      | _ \<Rightarrow> False)"

text \<open>Node 1 is the first to time out; everyone answers, and its heartbeat reaches the others.\<close>

definition first_election :: "BedEvent list" where
  "first_election = [Wakes 1 0, TimerTurn 1, PeerTurn 2, PeerTurn 3, PeerTurn 1, PeerTurn 1,
     Wakes 1 2, TimerTurn 1, PeerTurn 2, PeerTurn 3, PeerTurn 1, PeerTurn 1]"


section \<open>They pass\<close>

lemmas bed_simps = put_in_def take_turn_def node_start_def empty_bed_def fire_def run_once_def
  test_env_def recording_apply_def no_save_def update_metrics_def update_fields_def fast_config_def
  timer_channel_capacity_def runtime_simps

text \<open>The lone leader before its \<open>k\<close>-th heartbeat: nothing has happened yet.\<close>

definition lone_leader :: "nat \<Rightarrow> TestNode \<Rightarrow> bool" where
  "lone_leader k n \<longleftrightarrow> role (raft n) = Leader \<and> peers (raft n) = [] \<and> rlog (raft n) = [] \<and>
     rcommit (raft n) = 0 \<and> rapplied (raft n) = 0 \<and> cterm (raft n) = 1 \<and>
     leader_state (raft n) = Some \<lparr>next_index = [], match_index = []\<rparr> \<and>
     pending n = [] \<and> outcomes n = [] \<and> state_machine n = [] \<and> timer_queue (timers n) = [] \<and>
     spawned (tasks (timers n)) = k + 2 \<and>
     (\<exists>d. live (tasks (timers n)) (Suc k) = Some \<lparr>sleeps = d, fires = TimerHeartbeat\<rparr>) \<and>
     m_node_id (metrics n) = 1 \<and> m_role (metrics n) = Leader \<and> m_term (metrics n) = 1"

lemma lone_leader_elected:
  "\<exists>bed n. play rg [Wakes 1 0, TimerTurn 1] bed0 = Some bed \<and> bed_nodes bed 1 = Some n \<and> lone_leader 0 n"
  if "bed_event rg (Spawns 1 node) empty_bed = Some bed0" "build_node 1 [] (manual_transport_new 1) = Inr node"
  using that
  by (auto simp: build_node_def node_new_def manual_transport_new_def metrics_new_def lone_leader_def
      bed_simps run_simps)

lemma lone_leader_beats:
  assumes "bed_nodes bed 1 = Some n" "lone_leader k n"
  shows "\<exists>bed' n'. play rg [Wakes 1 (Suc k), TimerTurn 1] bed = Some bed' \<and> bed_nodes bed' 1 = Some n' \<and>
    lone_leader (Suc k) n'"
  using assms
  by (auto simp: lone_leader_def put_in_def take_turn_def fire_def run_once_def test_env_def update_metrics_def
      update_fields_def timer_channel_capacity_def runtime_step_def handle_heartbeat_timeout_def)

lemma lone_leader_waits:
  "\<exists>bed n. play rg (wait_as_leader beats) bed0 = Some bed \<and> bed_nodes bed 1 = Some n \<and> lone_leader beats n"
  if "bed_event rg (Spawns 1 node) empty_bed = Some bed0" "build_node 1 [] (manual_transport_new 1) = Inr node"
proof (induction beats)
  case 0
  show ?case using lone_leader_elected [OF that] by (simp add: wait_as_leader_def)
next
  case (Suc k)
  then obtain bed n where b: "play rg (wait_as_leader k) bed0 = Some bed" "bed_nodes bed 1 = Some n" "lone_leader k n"
    by blast
  have "wait_as_leader (Suc k) = wait_as_leader k @ [Wakes 1 (Suc k), TimerTurn 1]"
    by (simp add: wait_as_leader_def)
  with b(1) lone_leader_beats [OF b(2,3), of rg] show ?case by (simp add: play_append del: play.simps)
qed

lemma lone_node_starts:
  "\<exists>node bed0. build_node 1 [] (manual_transport_new 1) = Inr node \<and>
     bed_event rg (Spawns 1 node) empty_bed = Some bed0"
  by (simp add: build_node_def node_new_def manual_transport_new_def metrics_new_def bed_simps run_simps)

lemma single_node_serves:
  assumes "bed_nodes bed 1 = Some n" "lone_leader k n"
  shows "\<exists>bed' n'. bed_event rg (ClientTurn 1 c 0) bed = Some bed' \<and> bed_nodes bed' 1 = Some n' \<and>
    outcomes n' = [(0, Answer Applied)] \<and> state_machine n' = [c]"
proof -
  have "quorum (raft n) = 1" using assms(2) by (simp add: lone_leader_def quorum_def div_ceil_def)
  then show ?thesis using assms
    by (auto simp: lone_leader_def put_in_def take_turn_def run_once_def test_env_def update_metrics_def
        update_fields_def handle_client_def handle_client_request_def last_log_index_def add_u64_def Let_def
        try_advance_commit_index_def apply_committed_entries_def apply_loop_step apply_loop_done quorum_def
        div_ceil_def pending_insert_def pending_remove_def reply_def recording_apply_def no_save_def)
qed

lemma single_node_passes: "single_node_applies_command rg beats"
proof -
  obtain node bed0 where n: "build_node 1 [] (manual_transport_new 1) = Inr node"
    "bed_event rg (Spawns 1 node) empty_bed = Some bed0" using lone_node_starts by blast
  obtain bed m where b: "play rg (wait_as_leader beats) bed0 = Some bed" "bed_nodes bed 1 = Some m" "lone_leader beats m"
    using lone_leader_waits [OF n(2,1)] by blast
  obtain bed' m' where c: "bed_event rg (ClientTurn 1 (command_set ''hello'' ''world'') 0) bed = Some bed'"
    "bed_nodes bed' 1 = Some m'" "outcomes m' = [(0, Answer Applied)]" "state_machine m' = [command_set ''hello'' ''world'']"
    using single_node_serves [OF b(2,3)] by blast
  show ?thesis using n b(1) c
    by (simp add: single_node_applies_command_def play_append del: bed_event.simps)
qed

lemma metrics_passes: "metrics_updated_after_election rg beats"
proof -
  obtain node bed0 where n: "build_node 1 [] (manual_transport_new 1) = Inr node"
    "bed_event rg (Spawns 1 node) empty_bed = Some bed0" using lone_node_starts by blast
  obtain bed m where b: "play rg (wait_as_leader beats) bed0 = Some bed" "bed_nodes bed 1 = Some m" "lone_leader beats m"
    using lone_leader_waits [OF n(2,1)] by blast
  show ?thesis using n b
    by (simp add: metrics_updated_after_election_def lone_leader_def to_snapshot_def del: bed_event.simps)
qed

lemma non_leader_passes: "non_leader_returns_not_leader rg"
  by (simp add: non_leader_returns_not_leader_def build_node_def node_new_def manual_transport_new_def
      metrics_new_def bed_simps run_simps)

lemma three_nodes_pass: "three_node_cluster_elects_leader rg first_election"
  by (simp add: three_node_cluster_elects_leader_def first_election_def three_channels_def build_node_def
      node_new_def metrics_new_def bed_simps manual_send_def record_message_def message_log_cap_def
      to_snapshot_def run_simps)


theorem runtime_tests_pass:
  "(\<forall>rg beats. single_node_applies_command rg beats) \<and> (\<forall>rg. non_leader_returns_not_leader rg) \<and>
   (\<forall>rg beats. metrics_updated_after_election rg beats) \<and>
   (\<forall>rg. three_node_cluster_elects_leader rg first_election)"
  using single_node_passes non_leader_passes metrics_passes three_nodes_pass by blast

end
