(* ===== verification/UnitTests.thy ===== *)
theory UnitTests
  imports VoteTests AppendEntriesTests ElectionTests ClientTests HeartbeatTests StepTests RuntimeTests
begin

text \<open>All unit tests of \<open>raft-core\<close> and the integration tests of \<open>raft-runtime\<close>. The definitions of the
  model compute on the inputs the repository's tests use, and give the results those tests assert.\<close>

definition core_tests :: "bool list" where
  "core_tests = vote_tests @ append_entries_tests @ election_tests @ client_tests @
     heartbeat_tests @ step_tests"

text \<open>All 131 unit tests of the core, evaluated on the model in a
  debug build, pass.\<close>

theorem core_unit_tests_pass: "length core_tests = 131 \<and> list_all id core_tests"
proof
  show "length core_tests = 131"
    by (simp add: core_tests_def vote_tests_def append_entries_tests_def election_tests_def
        client_tests_def heartbeat_tests_def step_tests_def)
  show "list_all id core_tests"
    using vote_tests_pass append_entries_tests_pass election_tests_pass client_tests_pass
      heartbeat_tests_pass step_tests_pass
    by (simp add: core_tests_def)
qed

text \<open>Conformance to the repository's tests. All 131 unit tests of the core, evaluated on the model in a
  debug build, pass; so do the four integration tests of the runtime, whatever timeouts are drawn:
  those of a lone node for every number of heartbeats that the waiting time may hold, that of three
  nodes for one schedule, in which the first campaign succeeds.\<close>

theorem repository_tests_pass:
  "length core_tests = 131 \<and> list_all id core_tests \<and>
   (\<forall>rg beats. single_node_applies_command rg beats \<and> metrics_updated_after_election rg beats \<and>
      non_leader_returns_not_leader rg \<and> three_node_cluster_elects_leader rg first_election)"
  using core_unit_tests_pass runtime_tests_pass by blast

end
