(* ===== verification/Spec2Isabelle.thy ===== *)
theory Spec2Isabelle
  imports StateMachineSafety Progress CommitSafety Leadership RuntimeProps SimView SimSafety SimPanics SimWedge SimAlarms SimSession ClientAnswers UnitTests
begin

text \<open>
  Verification library of the Raft implementation in this repository.

  The program. \<open>raft-core\<close> is the consensus algorithm as a pure state machine: \<open>Raft::step\<close> takes
  an event (a message, a timeout, a client command) and returns actions (send, persist, apply,
  reset a timer). \<open>raft-runtime\<close> drives one node: an event loop that receives messages, commands and
  timer events, feeds them to the core and carries out its actions through a transport, a
  persistence and a state machine. \<open>raft-simulator\<close> runs a cluster of such nodes in one process,
  over a simulated clock and a simulated network with injected faults, controlled from a
  terminal.

  Conventions. A \<open>u64\<close> is a 64-bit word. An operation that can panic returns \<open>panic + 'a\<close>; a debug
  build panics on overflow and checks \<open>debug_assert!\<close>, a release build wraps and skips them, so
  the operations that add take the build profile. A \<open>HashMap\<close> is a map to options, a \<open>Vec\<close> a
  list, a Rust string its bytes in UTF-8. An operation on \<open>&mut self\<close> returns the new state.

  Prelude: machine integers, panics, searches and loops that can panic, and the refinement
  of release builds by debug builds.

  The core (\<open>raft-core/src\<close>). Protocol holds the types of \<open>protocol/*.rs\<close>, RaftState the node of
  \<open>lib.rs\<close> with its queries; Vote, Election, Heartbeat, AppendEntriesRpc and Client hold the
  functions of \<open>raft/vote.rs\<close>, \<open>election.rs\<close>, \<open>heartbeat.rs\<close>, \<open>append_entries.rs\<close> and \<open>client.rs\<close>, and
  RaftStep the dispatch of \<open>raft/step.rs\<close>. Each function of the code is a definition of its name
  (\<open>raft_new\<close>, \<open>raft_restore\<close> and \<open>raft_step\<close> are \<open>Raft::new\<close>, \<open>restore\<close> and \<open>step\<close>). The loops of the code
  are the recursive functions \<open>apply_loop\<close> (it ends because \<open>last_applied\<close> approaches \<open>commit_index\<close>),
  \<open>reconcile\<close> and \<open>scan_commit\<close> (structural).

  Properties of one node. NodeInvariant: the well-formedness every event keeps; it rules out every
  panic but overflow. LogProps: what the functions on logs do. NodeSafety: terms and votes, what
  is persisted before it is promised, exactly when votes are granted. Replication: what an
  accepted or rejected \<open>AppendEntries\<close> does. Leadership: commit rule, heartbeats, the replies and
  client commands on a leader.

  Properties of a cluster. RaftSystem composes nodes over a network that may lose, duplicate,
  delay and reorder messages (it is the set of the messages sent) with crashes and restarts
  from disk; \<open>reachable\<close> is its reachability relation. Quorums is the interface of intersecting
  quorums, interpreted by the majorities of the code. ElectionSafety: one leader per term.
  LogMatching: logs that agree on an entry agree before it; leaders only append. LogRepair: the
  exchange of heartbeats and replies that makes a follower's log catch up; its number of rounds is
  bounded by the \<open>next_index\<close> of the follower.

  Committed entries. A follower reports as matched its whole log, also a tail left from an earlier
  term that the leader's message did not cover. CommitSafety: with such a report a leader commits
  an entry the follower does not have, and state machine safety fails; it holds a run without faults in which one reply does this.
  TruthfulRuns delimits that one behaviour: a run is \<open>truthful\<close> when no reply that reports a stale
  tail is sent, everything else (loss, duplication, reordering, crashes between any two actions,
  restarts) remaining. History adds the entries acknowledged in each term as an auxiliary
  variable, and proves that a committed entry is in every log version of a later term.
  HistorySteps and HistoryInvariant: every truthful step keeps that bookkeeping. Commits: how a
  step moves the commit index and what it applies. StateMachineSafety: leader completeness, state
  machine safety and the permanence of commitment, for truthful runs.

  Availability. Electability: from every reachable state the nodes of any majority can elect one
  of theirs, by events of their own alone; the proof follows a candidate with the best log, lowers
  the distance of its term to the highest one and collects the votes one by one. Progress: from
  every state of a truthful run they can commit and apply a client's command; the leader lowers
  each follower's \<open>next_index\<close> (LogRepair) until the logs agree. Both say that such a run exists,
  not that timers and network find it; SimWedge shows that the timers of the runtime may not.

  The runtime (\<open>raft-runtime/src\<close>). Metrics is \<open>metrics.rs\<close>; Persistence is \<open>persistence.rs\<close> over a file
  system in which every call can fail and in which the process can stop at, before or after any
  call, with the interface of a durable store; Timer is \<open>timer.rs\<close>
  and \<open>config.rs\<close>, with the interface \<open>clock_trait\<close> of the clock a timer sleeps on (the trait \<open>Clock\<close> of
  \<open>clock.rs\<close>); NodeRuntime is \<open>node.rs\<close>, with the traits of \<open>transport.rs\<close>, \<open>persistence.rs\<close> and
  \<open>state_machine.rs\<close> as the record \<open>Env\<close> of what the outside does at each call. RuntimeProps relates
  one turn of the event loop to the steps of RaftSystem and shows that no client is answered twice and which
  clients of a batch are answered.

  The simulator (\<open>raft-simulator/src\<close>). SimClock is \<open>clock.rs\<close>, with the waker heap behind the
  interface of a priority queue; it provides the interface of a clock; SimNetwork is \<open>network.rs\<close>; SimCluster is \<open>cluster.rs\<close> and
  \<open>state_machine.rs\<close>; SimUi is \<open>ui/app.rs\<close>, \<open>ui/input.rs\<close> and the application of actions of
  \<open>ui/renderer.rs\<close>; SimView is the content of a frame, \<open>ui/widgets/*.rs\<close> and \<open>draw\<close>.

  The simulator as a whole. SimRun puts the running nodes, with the transport and the store the
  simulator gives them, over the shared network and clock, under the user's controls: one step is a
  turn of one event loop, a timer, a landing message, a tick or a user action, in any order.
  SimRefinement: each such step is an event of RaftSystem or invisible to it, so the simulator
  refines the cluster model; the interface of a forward simulation carries this over to runs.
  A restart refines a step that makes a node forget its state, which RaftSystem does not have.
  SimSafety: the safety properties of runs without restarts, agreement of the stores, and a run with
  one restart and two leaders of a term. ClientAnswers: what the answer \<open>Applied\<close> is worth to a client; the
  index at which it waits is followed through every step of the simulator, and a run shows that the
  answer can be wrong when the node lost the leadership in between. RaftBounds and SimPanics: the numbers of the nodes, the clock and the
  network grow by a bounded amount per step, so nothing panics in \<open>2 ^ 48\<close> steps. SimWedge: a run after
  which the live nodes never have a leader again. SimTime: the runs in simulated time, where a timer
  task ends only when its sleep on the clock is over; a node that hears from its leader does not
  campaign within the minimum of the election timeout. SimAlarms: a node whose election timer runs
  and that hears nothing campaigns within the maximum. SimSession: the program as the user sees it,
  \<open>async_main\<close> and \<open>run\<close> with a terminal whose calls can fail; a session is a run of the simulator, and
  the terminal is restored.

  The tests of the repository. TestSupport holds the helpers of the test modules; VoteTests,
  AppendEntriesTests, ElectionTests, ClientTests, HeartbeatTests and StepTests the 131 tests, each
  a boolean of its name; RuntimeTests the four integration tests of \<open>raft-runtime/src/tests.rs\<close>, with a
  schedule in place of real time; UnitTests: all of them hold of the model, the test of three nodes
  for one schedule.

  Bounds and fuel. No definition uses fuel: every loop of the code is a total function with a
  measure or structural. The event loop of the user interface, which may not end, is a partial
  function in the option monad; those of a node and of the auto-advance task, which do not end, are
  modelled by one turn. Runs of the simulator are shorter than \<open>2 ^ 48\<close> steps where numbers matter.

  Not modelled: tokio's scheduler, channels beyond bounded queues, locks and atomics (each
  operation is one atomic step), serialization (a parameter with a round-trip law), logging,
  random numbers and floating-point arithmetic (parameters), what a loss of power does to files that
  were never synced, the terminal library (a parameter) and
  the placement of the panels, the real time that passes per frame and per tick, the set-up of
  logging and of the tokio runtime in \<open>main\<close>, and \<open>RealClock\<close> (a call of \<open>tokio::time::sleep\<close>).
\<close>

end
